(* ===== verification/Prelude.thy ===== *)
theory Prelude
  imports Main "HOL-Library.Word" "HOL-Library.Code_Target_Nat"
begin

text \<open>
  Shared vocabulary of the development: Rust's \<open>Result\<close> as a sum type with the combinators the
  code uses (\<open>?\<close>, \<open>map_err\<close>, \<open>collect\<close>, loops that stop at the first error), machine-integer
  types, and the generic facts on lists and words that the component theories build on.
\<close>

section \<open>Machine integers\<close>

type_synonym u8 = "8 word"
type_synonym u16 = "16 word"
type_synonym u32 = "32 word"
type_synonym u64 = "64 word"
type_synonym u128 = "128 word"

named_theorems result_simps \<open>rewriting of the Result combinators\<close>
named_theorems lower_simps \<open>unfolding of the policy lowering functions\<close>

section \<open>Rust's Result\<close>

abbreviation Ok :: "'a \<Rightarrow> 'e + 'a" where
  "Ok \<equiv> Inr"

abbreviation Err :: "'e \<Rightarrow> 'e + 'a" where
  "Err \<equiv> Inl"

text \<open>The \<open>?\<close> operator.\<close>

fun and_then :: "'e + 'a \<Rightarrow> ('a \<Rightarrow> 'e + 'b) \<Rightarrow> 'e + 'b" where
  "and_then (Inl e) f = Inl e"
| "and_then (Inr x) f = f x"

fun map_err :: "('e \<Rightarrow> 'f) \<Rightarrow> 'e + 'a \<Rightarrow> 'f + 'a" where
  "map_err g (Inl e) = Inl (g e)"
| "map_err g (Inr x) = Inr x"

fun is_ok :: "'e + 'a \<Rightarrow> bool" where
  "is_ok (Inl e) = False"
| "is_ok (Inr x) = True"

text \<open>\<open>Option::ok_or\<close>.\<close>

definition ok_or :: "'e \<Rightarrow> 'a option \<Rightarrow> 'e + 'a" where
  "ok_or e x = (case x of None \<Rightarrow> Err e | Some y \<Rightarrow> Ok y)"

text \<open>A \<open>for\<close> loop whose body may return early with an error.\<close>

fun try_fold :: "('s \<Rightarrow> 'a \<Rightarrow> 'e + 's) \<Rightarrow> 's \<Rightarrow> 'a list \<Rightarrow> 'e + 's" where
  "try_fold f s [] = Ok s"
| "try_fold f s (x # xs) = and_then (f s x) (\<lambda>s'. try_fold f s' xs)"

text \<open>\<open>iter.enumerate().map(f).collect::<Result<Vec<_>, _>>()\<close>: stops at the first error.\<close>

fun try_map_from :: "nat \<Rightarrow> (nat \<Rightarrow> 'a \<Rightarrow> 'e + 'b) \<Rightarrow> 'a list \<Rightarrow> 'e + 'b list" where
  "try_map_from i f [] = Ok []"
| "try_map_from i f (x # xs) =
     and_then (f i x) (\<lambda>y. and_then (try_map_from (Suc i) f xs) (\<lambda>ys. Ok (y # ys)))"

abbreviation try_mapi :: "(nat \<Rightarrow> 'a \<Rightarrow> 'e + 'b) \<Rightarrow> 'a list \<Rightarrow> 'e + 'b list" where
  "try_mapi \<equiv> try_map_from 0"

lemma and_then_Ok_iff [result_simps]:
  "and_then r f = Inr y \<longleftrightarrow> (\<exists>x. r = Inr x \<and> f x = Inr y)"
  by (cases r) auto

lemma and_then_Err_iff [result_simps]:
  "and_then r f = Inl e \<longleftrightarrow> r = Inl e \<or> (\<exists>x. r = Inr x \<and> f x = Inl e)"
  by (cases r) auto

lemma map_err_Ok_iff [result_simps]: "map_err g r = Inr y \<longleftrightarrow> r = Inr y"
  by (cases r) auto

lemma ok_or_Ok_iff: "ok_or e x = Inr y \<longleftrightarrow> x = Some y"
  by (simp add: ok_or_def split: option.splits)

lemma is_ok_iff: "is_ok r \<longleftrightarrow> (\<exists>x. r = Inr x)"
  by (cases r) auto

lemma and_then_split:
  "P (and_then r f) \<longleftrightarrow>
     (\<forall>e. r = Inl e \<longrightarrow> P (Inl e)) \<and> (\<forall>x. r = Inr x \<longrightarrow> P (f x))"
  by (cases r) auto

lemma and_then_cong [fundef_cong]:
  "r = r' \<Longrightarrow> (\<And>x. r' = Inr x \<Longrightarrow> f x = g x) \<Longrightarrow> and_then r f = and_then r' g"
  by (cases r') simp_all

lemma and_then_assoc: "and_then (and_then r f) g = and_then r (\<lambda>x. and_then (f x) g)"
  by (cases r) auto

lemma try_fold_append:
  "try_fold f s (xs @ ys) = and_then (try_fold f s xs) (\<lambda>s'. try_fold f s' ys)"
  by (induction xs arbitrary: s) (auto simp: and_then_assoc)

lemma try_fold_invariant:
  assumes "try_fold f s xs = Ok s'" and "P s"
    and "\<And>s x s'. x \<in> set xs \<Longrightarrow> P s \<Longrightarrow> f s x = Ok s' \<Longrightarrow> P s'"
  shows "P s'"
  using assms by (induction xs arbitrary: s) (auto simp: result_simps)

lemma try_map_from_Ok_iff:
  "try_map_from i f xs = Ok ys \<longleftrightarrow>
     length ys = length xs \<and> (\<forall>k < length xs. f (i + k) (xs ! k) = Ok (ys ! k))"
proof (induction xs arbitrary: i ys)
  case Nil
  show ?case by auto
next
  case (Cons x xs)
  show ?case
    by (cases ys) (auto simp: result_simps Cons.IH less_Suc_eq_0_disj)
qed

end
