(* ===== verification/Rust_Std.thy ===== *)
theory Rust_Std
  imports Prelude
begin

text \<open>
  The parts of Rust's language and standard library that the modelled code calls: string slices
  (a \<open>string\<close> is the UTF-8 byte sequence of a Rust \<open>str\<close>), decimal and hexadecimal rendering and
  parsing of integers, and \<open>std::net\<close>'s IP addresses with their \<open>Display\<close> and \<open>FromStr\<close>
  implementations. The round-trip lemmas at the end are what the firewall components use.
\<close>

unbundle bit_operations_syntax

section \<open>String slices\<close>

definition to_ascii_lower :: "char \<Rightarrow> char" where
  "to_ascii_lower c =
     (if 65 \<le> (of_char c :: nat) \<and> (of_char c :: nat) \<le> 90
      then char_of ((of_char c :: nat) + 32) else c)"

definition to_ascii_lowercase :: "string \<Rightarrow> string" where
  "to_ascii_lowercase s = map to_ascii_lower s"

definition eq_ignore_ascii_case :: "string \<Rightarrow> string \<Rightarrow> bool" where
  "eq_ignore_ascii_case a b \<longleftrightarrow> map to_ascii_lower a = map to_ascii_lower b"

definition is_ascii_digit :: "char \<Rightarrow> bool" where
  "is_ascii_digit c \<longleftrightarrow> 48 \<le> (of_char c :: nat) \<and> (of_char c :: nat) \<le> 57"

definition is_ascii_alphabetic :: "char \<Rightarrow> bool" where
  "is_ascii_alphabetic c \<longleftrightarrow>
     (65 \<le> (of_char c :: nat) \<and> (of_char c :: nat) \<le> 90) \<or>
     (97 \<le> (of_char c :: nat) \<and> (of_char c :: nat) \<le> 122)"

definition is_ascii_alphanumeric :: "char \<Rightarrow> bool" where
  "is_ascii_alphanumeric c \<longleftrightarrow> is_ascii_alphabetic c \<or> is_ascii_digit c"

text \<open>\<open>str::split_once\<close> and \<open>str::rsplit_once\<close> on a single character.\<close>

fun split_once :: "char \<Rightarrow> string \<Rightarrow> (string \<times> string) option" where
  "split_once c [] = None"
| "split_once c (x # xs) =
     (if x = c then Some ([], xs) else map_option (\<lambda>(a, b). (x # a, b)) (split_once c xs))"

fun rsplit_once :: "char \<Rightarrow> string \<Rightarrow> (string \<times> string) option" where
  "rsplit_once c [] = None"
| "rsplit_once c (x # xs) =
     (case rsplit_once c xs of
        Some (a, b) \<Rightarrow> Some (x # a, b)
      | None \<Rightarrow> if x = c then Some ([], xs) else None)"

definition strip_prefix :: "char \<Rightarrow> string \<Rightarrow> string option" where
  "strip_prefix c s = (case s of [] \<Rightarrow> None | x # xs \<Rightarrow> if x = c then Some xs else None)"

definition strip_suffix :: "char \<Rightarrow> string \<Rightarrow> string option" where
  "strip_suffix c s = (if s \<noteq> [] \<and> last s = c then Some (butlast s) else None)"

text \<open>\<open>str::contains\<close> with a string pattern.\<close>

fun starts_with :: "string \<Rightarrow> string \<Rightarrow> bool" where
  "starts_with [] s = True"
| "starts_with (p # ps) [] = False"
| "starts_with (p # ps) (x # xs) = (p = x \<and> starts_with ps xs)"

fun str_contains :: "string \<Rightarrow> string \<Rightarrow> bool" where
  "str_contains pat [] = (pat = [])"
| "str_contains pat (x # xs) = (starts_with pat (x # xs) \<or> str_contains pat xs)"

text \<open>\<open>slice::join\<close> on strings.\<close>

fun join :: "string \<Rightarrow> string list \<Rightarrow> string" where
  "join sep [] = []"
| "join sep [x] = x"
| "join sep (x # y # ys) = x @ sep @ join sep (y # ys)"

text \<open>
  \<open>s.trim().is_empty()\<close>: every character of \<open>s\<close> has the Unicode \<open>White_Space\<close> property. Read on
  the UTF-8 bytes: the ASCII members 0x09-0x0D and 0x20, and the encodings of U+0085, U+00A0,
  U+1680, U+2000 to U+200A, U+2028, U+2029, U+202F, U+205F and U+3000.
\<close>

fun is_blank_bytes :: "nat list \<Rightarrow> bool" where
  "is_blank_bytes [] = True"
| "is_blank_bytes (a # bs) =
     (if (9 \<le> a \<and> a \<le> 13) \<or> a = 32 then is_blank_bytes bs
      else case bs of
        [] \<Rightarrow> False
      | b # cs \<Rightarrow>
          if a = 194 \<and> (b = 133 \<or> b = 160) then is_blank_bytes cs
          else (case cs of
              [] \<Rightarrow> False
            | c # ds \<Rightarrow>
                if (a = 225 \<and> b = 154 \<and> c = 128)
                  \<or> (a = 226 \<and> b = 128 \<and> ((128 \<le> c \<and> c \<le> 138) \<or> c = 168 \<or> c = 169 \<or> c = 175))
                  \<or> (a = 226 \<and> b = 129 \<and> c = 159)
                  \<or> (a = 227 \<and> b = 128 \<and> c = 128)
                then is_blank_bytes ds else False))"

definition trim_is_empty :: "string \<Rightarrow> bool" where
  "trim_is_empty s = is_blank_bytes (map of_char s)"

text \<open>
  The \<open>{:?}\<close> form of a \<open>str\<close>. ASCII characters are escaped as \<open>char::escape_debug\<close> does; bytes of
  non-ASCII characters are passed through, which is what it does for every character the Unicode
  tables list as printable.
\<close>

definition escape_debug :: "char \<Rightarrow> string" where
  "escape_debug c =
     (let n = (of_char c :: nat);
          hex = (\<lambda>d. if d < 10 then char_of (48 + d) else char_of (87 + d :: nat)) in
      if n = 0 then [CHR 0x5C, CHR ''0'']
      else if n = 9 then [CHR 0x5C, CHR ''t'']
      else if n = 10 then [CHR 0x5C, CHR ''n'']
      else if n = 13 then [CHR 0x5C, CHR ''r'']
      else if n = 34 \<or> n = 92 then [CHR 0x5C, c]
      else if n < 16 then [CHR 0x5C, CHR ''u'', CHR 0x7B, hex n, CHR 0x7D]
      else if n < 32 \<or> n = 127 then
        [CHR 0x5C, CHR ''u'', CHR 0x7B, hex (n div 16), hex (n mod 16), CHR 0x7D]
      else [c])"

definition debug_str :: "string \<Rightarrow> string" where
  "debug_str s = [CHR 0x22] @ concat (map escape_debug s) @ [CHR 0x22]"

text \<open>A message argument written between single quotes.\<close>

definition quoted :: "string \<Rightarrow> string" where
  "quoted s = [CHR 0x27] @ s @ [CHR 0x27]"

section \<open>Integers as text\<close>

definition digit_char :: "nat \<Rightarrow> char" where
  "digit_char d = (if d < 10 then char_of (48 + d) else char_of (87 + d))"

fun show_radix :: "nat \<Rightarrow> nat \<Rightarrow> string" where
  "show_radix r n =
     (if r < 2 \<or> n < r then [digit_char n]
      else show_radix r (n div r) @ [digit_char (n mod r)])"

declare show_radix.simps [simp del]

text \<open>\<open>Display\<close> of an unsigned integer, and the \<open>LowerHex\<close> form.\<close>

definition show_nat :: "nat \<Rightarrow> string" where
  "show_nat n = show_radix 10 n"

definition show_hex :: "nat \<Rightarrow> string" where
  "show_hex n = show_radix 16 n"

text \<open>The format \<open>{n:0width$}\<close>.\<close>

definition show_padded :: "nat \<Rightarrow> nat \<Rightarrow> string" where
  "show_padded width n = replicate (width - length (show_nat n)) (CHR ''0'') @ show_nat n"

text \<open>\<open>char::to_digit\<close> for radix 10 and 16.\<close>

definition to_digit :: "nat \<Rightarrow> char \<Rightarrow> nat option" where
  "to_digit r c =
     (let n = (of_char c :: nat);
          d = (if 48 \<le> n \<and> n \<le> 57 then n - 48
               else if 97 \<le> n \<and> n \<le> 122 then n - 87
               else if 65 \<le> n \<and> n \<le> 90 then n - 55
               else r)
      in if d < r then Some d else None)"

text \<open>
  \<open>str::parse\<close> for an unsigned type whose values are below \<open>bound\<close>: an optional \<open>+\<close>, then one or
  more decimal digits, with overflow an error.
\<close>

fun parse_digits :: "nat \<Rightarrow> string \<Rightarrow> nat option" where
  "parse_digits acc [] = Some acc"
| "parse_digits acc (c # cs) =
     (case to_digit 10 c of None \<Rightarrow> None | Some d \<Rightarrow> parse_digits (acc * 10 + d) cs)"

definition parse_unsigned :: "nat \<Rightarrow> string \<Rightarrow> nat option" where
  "parse_unsigned bound s =
     (let digits = (case strip_prefix (CHR ''+'') s of Some t \<Rightarrow> t | None \<Rightarrow> s)
      in if digits = [] then None
         else case parse_digits 0 digits of
             None \<Rightarrow> None
           | Some n \<Rightarrow> if n < bound then Some n else None)"

abbreviation parse_u8 :: "string \<Rightarrow> nat option" where
  "parse_u8 \<equiv> parse_unsigned 256"

section \<open>IP addresses\<close>

datatype IpAddr = IpV4 u32 | IpV6 u128

definition octets :: "u32 \<Rightarrow> nat list" where
  "octets ip = map (\<lambda>k. unat (take_bit 8 (drop_bit k ip))) [24, 16, 8, 0]"

definition ipv4_of_octets :: "nat \<Rightarrow> nat \<Rightarrow> nat \<Rightarrow> nat \<Rightarrow> u32" where
  "ipv4_of_octets a b c d =
     push_bit 24 (of_nat a) OR push_bit 16 (of_nat b) OR push_bit 8 (of_nat c) OR of_nat d"

definition segments :: "u128 \<Rightarrow> nat list" where
  "segments ip =
     map (\<lambda>k. unat (take_bit 16 (drop_bit k ip))) [112, 96, 80, 64, 48, 32, 16, 0]"

definition ipv6_of_segments :: "nat list \<Rightarrow> u128" where
  "ipv6_of_segments gs = foldl (\<lambda>acc g. push_bit 16 acc OR of_nat g) 0 gs"

text \<open>\<open>Ipv6Addr::to_ipv4_mapped\<close>: the address is in \<open>::ffff:0:0/96\<close>.\<close>

definition to_ipv4_mapped :: "u128 \<Rightarrow> u32 option" where
  "to_ipv4_mapped ip = (if drop_bit 32 ip = 0xffff then Some (ucast ip) else None)"

definition show_ipv4 :: "u32 \<Rightarrow> string" where
  "show_ipv4 ip = join ''.'' (map show_nat (octets ip))"

text \<open>
  The first longest run of zero segments: the loop state is the current run and the longest run so
  far, each a start and a length.
\<close>

fun longest_zeroes :: "nat \<Rightarrow> nat list \<Rightarrow> nat \<times> nat \<Rightarrow> nat \<times> nat \<Rightarrow> nat \<times> nat" where
  "longest_zeroes i [] cur best = best"
| "longest_zeroes i (g # gs) cur best =
     (if g = 0 then
        let cur' = (if snd cur = 0 then (i, 1) else (fst cur, snd cur + 1));
            best' = (if snd cur' > snd best then cur' else best)
        in longest_zeroes (Suc i) gs cur' best'
      else longest_zeroes (Suc i) gs (0, 0) best)"

definition show_groups :: "nat list \<Rightarrow> string" where
  "show_groups gs = join '':'' (map show_hex gs)"

definition show_ipv6 :: "u128 \<Rightarrow> string" where
  "show_ipv6 ip =
     (case to_ipv4_mapped ip of
        Some v4 \<Rightarrow> ''::ffff:'' @ show_ipv4 v4
      | None \<Rightarrow>
          (case longest_zeroes 0 (segments ip) (0, 0) (0, 0) of
             (start, len) \<Rightarrow>
               if len > 1 then
                 show_groups (take start (segments ip)) @ ''::'' @
                 show_groups (drop (start + len) (segments ip))
               else show_groups (segments ip)))"

fun show_ip :: "IpAddr \<Rightarrow> string" where
  "show_ip (IpV4 ip) = show_ipv4 ip"
| "show_ip (IpV6 ip) = show_ipv6 ip"

subsection \<open>The address parser\<close>

text \<open>
  \<open>std::net::parser\<close>: each reader consumes a prefix of the input and returns the rest; a reader that
  fails consumes nothing.
\<close>

fun read_digits :: "nat \<Rightarrow> nat \<Rightarrow> nat \<Rightarrow> nat \<Rightarrow> string \<Rightarrow> (nat \<times> nat \<times> string) option" where
  "read_digits r maxd acc cnt [] = Some (acc, cnt, [])"
| "read_digits r maxd acc cnt (c # cs) =
     (case to_digit r c of
        None \<Rightarrow> Some (acc, cnt, c # cs)
      | Some d \<Rightarrow>
          if cnt + 1 > maxd then None else read_digits r maxd (acc * r + d) (cnt + 1) cs)"

definition read_number :: "nat \<Rightarrow> nat \<Rightarrow> bool \<Rightarrow> nat \<Rightarrow> string \<Rightarrow> (nat \<times> string) option" where
  "read_number r maxd allow_zero_prefix bound s =
     (case read_digits r maxd 0 0 s of
        None \<Rightarrow> None
      | Some (v, cnt, rest) \<Rightarrow>
          if cnt = 0 then None
          else if \<not> allow_zero_prefix \<and> take 1 s = ''0'' \<and> cnt > 1 then None
          else if v < bound then Some (v, rest) else None)"

definition read_separator :: "char \<Rightarrow> nat \<Rightarrow> (string \<Rightarrow> 'a option) \<Rightarrow> string \<Rightarrow> 'a option" where
  "read_separator sep i inner s =
     (if i > 0 then Option.bind (strip_prefix sep s) inner else inner s)"

fun read_v4_groups :: "nat \<Rightarrow> nat \<Rightarrow> string \<Rightarrow> (nat list \<times> string) option" where
  "read_v4_groups 0 i s = Some ([], s)"
| "read_v4_groups (Suc n) i s =
     (case read_separator (CHR ''.'') i (read_number 10 3 False 256) s of
        None \<Rightarrow> None
      | Some (v, rest) \<Rightarrow>
          (case read_v4_groups n (Suc i) rest of
             None \<Rightarrow> None
           | Some (vs, rest') \<Rightarrow> Some (v # vs, rest')))"

definition read_ipv4_addr :: "string \<Rightarrow> (u32 \<times> string) option" where
  "read_ipv4_addr s =
     (case read_v4_groups 4 0 s of
        Some ([a, b, c, d], rest) \<Rightarrow> Some (ipv4_of_octets a b c d, rest)
      | _ \<Rightarrow> None)"

text \<open>
  \<open>read_groups\<close>: up to \<open>limit\<close> colon-separated groups, an embedded IPv4 address counting as two; the
  result is the groups, whether an IPv4 address ended them, and the rest. The first argument is the
  number of groups still allowed.
\<close>

fun read_groups :: "nat \<Rightarrow> nat \<Rightarrow> string \<Rightarrow> nat list \<times> bool \<times> string" where
  "read_groups 0 i s = ([], False, s)"
| "read_groups (Suc n) i s =
     (case (if n > 0 then read_separator (CHR '':'') i read_ipv4_addr s else None) of
        Some (v4, rest) \<Rightarrow> ([unat (drop_bit 16 v4), unat (take_bit 16 v4)], True, rest)
      | None \<Rightarrow>
          (case read_separator (CHR '':'') i (read_number 16 4 True (2 ^ 16)) s of
             None \<Rightarrow> ([], False, s)
           | Some (g, rest) \<Rightarrow>
               (case read_groups n (Suc i) rest of (gs, v4, rest') \<Rightarrow> (g # gs, v4, rest'))))"

definition read_ipv6_addr :: "string \<Rightarrow> (u128 \<times> string) option" where
  "read_ipv6_addr s =
     (case read_groups 8 0 s of
        (head, head_ipv4, rest) \<Rightarrow>
          if length head = 8 then Some (ipv6_of_segments head, rest)
          else if head_ipv4 then None
          else (case Option.bind (strip_prefix (CHR '':'') rest) (strip_prefix (CHR '':'')) of
              None \<Rightarrow> None
            | Some rest' \<Rightarrow>
                (case read_groups (8 - (length head + 1)) 0 rest' of
                   (tail, _, rest'') \<Rightarrow>
                     Some (ipv6_of_segments
                        (head @ replicate (8 - length head - length tail) 0 @ tail), rest''))))"

definition read_ip_addr :: "string \<Rightarrow> (IpAddr \<times> string) option" where
  "read_ip_addr s =
     (case read_ipv4_addr s of
        Some (ip, rest) \<Rightarrow> Some (IpV4 ip, rest)
      | None \<Rightarrow> map_option (\<lambda>(ip, rest). (IpV6 ip, rest)) (read_ipv6_addr s))"

text \<open>\<open>Ipv4Addr::from_str\<close> and \<open>IpAddr::from_str\<close>: the whole input must be consumed.\<close>

definition parse_ipv4 :: "string \<Rightarrow> u32 option" where
  "parse_ipv4 s =
     (if length s > 15 then None
      else case read_ipv4_addr s of Some (ip, []) \<Rightarrow> Some ip | _ \<Rightarrow> None)"

definition parse_ip :: "string \<Rightarrow> IpAddr option" where
  "parse_ip s = (case read_ip_addr s of Some (ip, []) \<Rightarrow> Some ip | _ \<Rightarrow> None)"

section \<open>Round trips\<close>

lemma to_digit_digit_char: "d < 10 \<Longrightarrow> to_digit 10 (digit_char d) = Some d"
  by (simp add: to_digit_def digit_char_def)

lemma show_radix_nonempty [simp]: "show_radix r n \<noteq> []"
  by (subst show_radix.simps) simp

lemma show_nat_nonempty [simp]: "show_nat n \<noteq> []"
  by (simp add: show_nat_def)

lemma show_nat_small: "n < 10 \<Longrightarrow> show_nat n = [digit_char n]"
  by (simp add: show_nat_def show_radix.simps)

lemma show_nat_step: "10 \<le> n \<Longrightarrow> show_nat n = show_nat (n div 10) @ [digit_char (n mod 10)]"
  by (simp add: show_nat_def show_radix.simps [of 10 n])

lemma show_nat_digits: "c \<in> set (show_nat n) \<Longrightarrow> \<exists>d < 10. c = digit_char d"
proof (induction n rule: less_induct)
  case (less n)
  show ?case
  proof (cases "n < 10")
    case True
    with less.prems show ?thesis by (auto simp: show_nat_small)
  next
    case False
    with less.prems consider "c \<in> set (show_nat (n div 10))" | "c = digit_char (n mod 10)"
      by (auto simp: show_nat_step [of n])
    then show ?thesis
    proof cases
      case 1
      with False less.IH [of "n div 10"] show ?thesis by simp
    next
      case 2
      then show ?thesis by (intro exI [of _ "n mod 10"]) simp
    qed
  qed
qed

lemma length_show_nat_le: "n < 10 ^ Suc k \<Longrightarrow> length (show_nat n) \<le> Suc k"
proof (induction k arbitrary: n)
  case 0
  then show ?case by (simp add: show_nat_small)
next
  case (Suc k)
  show ?case
  proof (cases "n < 10")
    case True
    then show ?thesis by (simp add: show_nat_small)
  next
    case False
    from Suc.prems have "n div 10 < 10 ^ Suc k" by (simp add: less_mult_imp_div_less mult.commute)
    then have "length (show_nat (n div 10)) \<le> Suc k" by (rule Suc.IH)
    with False show ?thesis by (simp add: show_nat_step [of n])
  qed
qed

lemma hd_show_nat_zero: "hd (show_nat n) = CHR ''0'' \<longleftrightarrow> n = 0"
proof (induction n rule: less_induct)
  case (less n)
  show ?case
  proof (cases "n < 10")
    case True
    have "digit_char 0 = CHR ''0''" by code_simp
    moreover have "digit_char n = digit_char 0 \<longleftrightarrow> n = 0"
      using to_digit_digit_char [OF True] to_digit_digit_char [of 0] by force
    ultimately have "digit_char n = CHR ''0'' \<longleftrightarrow> n = 0" by simp
    with True show ?thesis by (simp add: show_nat_small)
  next
    case False
    then have "n div 10 < n" and "n div 10 \<noteq> 0" by auto
    with less [of "n div 10"] False show ?thesis
      by (simp add: show_nat_step [of n])
  qed
qed

lemma parse_digits_append:
  "parse_digits acc (xs @ ys) = Option.bind (parse_digits acc xs) (\<lambda>a. parse_digits a ys)"
  by (induction xs arbitrary: acc) (auto split: option.splits)

lemma parse_digits_show_nat:
  "parse_digits acc (show_nat n) = Some (acc * 10 ^ length (show_nat n) + n)"
proof (induction n rule: less_induct)
  case (less n)
  show ?case
  proof (cases "n < 10")
    case True
    then show ?thesis by (simp add: show_nat_small to_digit_digit_char)
  next
    case False
    with less [of "n div 10"] show ?thesis
      by (simp add: show_nat_step [of n] parse_digits_append to_digit_digit_char algebra_simps)
  qed
qed

lemma show_nat_no_char:
  assumes "to_digit 10 c = None"
  shows "c \<notin> set (show_nat n)"
proof
  assume "c \<in> set (show_nat n)"
  then obtain d where "d < 10" and "c = digit_char d" using show_nat_digits by blast
  with assms show False by (simp add: to_digit_digit_char)
qed

lemma parse_unsigned_show_nat: "n < bound \<Longrightarrow> parse_unsigned bound (show_nat n) = Some n"
proof -
  assume n: "n < bound"
  have "strip_prefix (CHR ''+'') (show_nat n) = None"
  proof (cases "show_nat n")
    case (Cons c cs)
    have "to_digit 10 (CHR ''+'') = None" by (simp add: to_digit_def)
    from show_nat_no_char [OF this, of n] Cons show ?thesis by (auto simp: strip_prefix_def)
  qed simp
  with n show ?thesis by (simp add: parse_unsigned_def parse_digits_show_nat)
qed

lemma read_digits_append_digits:
  assumes "\<forall>c \<in> set xs. to_digit r c \<noteq> None" and "cnt + length xs \<le> maxd"
  shows "read_digits r maxd acc cnt (xs @ ys) =
    read_digits r maxd (foldl (\<lambda>a c. a * r + the (to_digit r c)) acc xs) (cnt + length xs) ys"
  using assms by (induction xs arbitrary: acc cnt) (auto split: option.splits)

lemma foldl_show_nat:
  "foldl (\<lambda>a c. a * 10 + the (to_digit 10 c)) acc (show_nat n) = acc * 10 ^ length (show_nat n) + n"
proof (induction n rule: less_induct)
  case (less n)
  show ?case
  proof (cases "n < 10")
    case True
    then show ?thesis by (simp add: show_nat_small to_digit_digit_char)
  next
    case False
    with less [of "n div 10"] show ?thesis
      by (simp add: show_nat_step [of n] to_digit_digit_char algebra_simps)
  qed
qed

lemma take_1_show_nat: "take 1 (show_nat n @ rest) = ''0'' \<longleftrightarrow> n = 0"
  using hd_show_nat_zero [of n] by (cases "show_nat n") auto

lemma read_number_show_nat:
  assumes "n < 256" and "rest = [] \<or> to_digit 10 (hd rest) = None"
  shows "read_number 10 3 False 256 (show_nat n @ rest) = Some (n, rest)"
proof -
  have dig: "\<forall>c \<in> set (show_nat n). to_digit 10 c \<noteq> None"
    using show_nat_no_char by blast
  have "n < 10 ^ Suc 2" using assms(1) by simp
  then have len: "length (show_nat n) \<le> 3" using length_show_nat_le [of n 2] by simp
  have "read_digits 10 3 0 0 (show_nat n @ rest) = read_digits 10 3 n (length (show_nat n)) rest"
    using read_digits_append_digits [OF dig, of 0 3 0 rest] len by (simp add: foldl_show_nat)
  also have "\<dots> = Some (n, length (show_nat n), rest)"
    using assms(2) by (cases rest) auto
  finally have rd: "read_digits 10 3 0 0 (show_nat n @ rest) = Some (n, length (show_nat n), rest)" .
  have "length (show_nat n) \<noteq> 0" by simp
  moreover have "\<not> (take 1 (show_nat n @ rest) = ''0'' \<and> length (show_nat n) > 1)"
    unfolding take_1_show_nat by (auto simp: show_nat_small)
  ultimately show ?thesis using rd assms(1) by (simp add: read_number_def)
qed

lemma octet_bound: "n \<in> set (octets ip) \<Longrightarrow> n < 256"
proof -
  have "unat (take_bit 8 (x :: u32)) < 256" for x
    using take_bit_nat_less_exp [of 8 "unat x"] by (simp add: unsigned_take_bit_eq)
  then show "n \<in> set (octets ip) \<Longrightarrow> n < 256" by (auto simp: octets_def)
qed

lemma ipv4_of_octets_octets:
  "octets ip = [a, b, c, d] \<Longrightarrow> ipv4_of_octets a b c d = ip"
proof -
  assume "octets ip = [a, b, c, d]"
  then have abcd: "of_nat a = take_bit 8 (drop_bit 24 ip)" "of_nat b = take_bit 8 (drop_bit 16 ip)"
    "of_nat c = take_bit 8 (drop_bit 8 ip)" "of_nat d = take_bit 8 ip"
    by (auto simp: octets_def)
  show ?thesis unfolding ipv4_of_octets_def abcd
  proof (rule bit_word_eqI)
    fix n
    assume "n < LENGTH(32)"
    then consider "n < 8" | "8 \<le> n" "n < 16" | "16 \<le> n" "n < 24" | "24 \<le> n" "n < 32"
      by fastforce
    then show "bit (push_bit 24 (take_bit 8 (drop_bit 24 ip)) OR
        push_bit 16 (take_bit 8 (drop_bit 16 ip)) OR push_bit 8 (take_bit 8 (drop_bit 8 ip)) OR
        take_bit 8 ip) n = bit ip n"
      by cases (auto simp: bit_simps)
  qed
qed

lemma read_v4_groups_show:
  assumes "a < 256" "b < 256" "c < 256" "d < 256"
    and "rest = [] \<or> to_digit 10 (hd rest) = None"
  shows "read_v4_groups 4 0 (show_nat a @ ''.'' @ show_nat b @ ''.'' @ show_nat c @ ''.'' @ show_nat d @ rest)
    = Some ([a, b, c, d], rest)"
proof -
  have dot: "to_digit 10 (CHR ''.'') = None" by (simp add: to_digit_def)
  have four: "(4 :: nat) = Suc (Suc (Suc (Suc 0)))" by simp
  show ?thesis
    using assms dot unfolding four
    by (simp add: read_separator_def strip_prefix_def read_number_show_nat)
qed

lemma join4: "join s [a, b, c, d] = a @ s @ b @ s @ c @ s @ d"
  by simp

lemma read_ipv4_addr_show:
  assumes "rest = [] \<or> to_digit 10 (hd rest) = None"
  shows "read_ipv4_addr (show_ipv4 ip @ rest) = Some (ip, rest)"
proof -
  obtain a b c d where o: "octets ip = [a, b, c, d]" by (simp add: octets_def)
  then have "a < 256" "b < 256" "c < 256" "d < 256" using octet_bound [of _ ip] by auto
  with assms show ?thesis
    using read_v4_groups_show [of a b c d rest]
    by (simp add: read_ipv4_addr_def show_ipv4_def o ipv4_of_octets_octets)
qed

lemma length_show_ipv4: "length (show_ipv4 ip) \<le> 15"
proof -
  obtain a b c d where o: "octets ip = [a, b, c, d]" by (simp add: octets_def)
  have short: "length (show_nat n) \<le> 3" if "n \<in> {a, b, c, d}" for n
    using octet_bound [of n ip] length_show_nat_le [of n 2] that o by auto
  show ?thesis
    using short [of a] short [of b] short [of c] short [of d] by (simp add: show_ipv4_def o)
qed

lemma parse_show_ipv4 [simp]: "parse_ipv4 (show_ipv4 ip) = Some ip"
  using read_ipv4_addr_show [of "[]" ip] length_show_ipv4 [of ip] by (simp add: parse_ipv4_def)

lemma split_once_append:
  "c \<notin> set xs \<Longrightarrow> split_once c (xs @ c # ys) = Some (xs, ys)"
  by (induction xs) auto

lemma split_once_None: "c \<notin> set xs \<Longrightarrow> split_once c xs = None"
  by (induction xs) auto

lemma rsplit_once_None: "rsplit_once c s = None \<longleftrightarrow> c \<notin> set s"
  by (induction s) (auto split: option.splits)

lemma rsplit_once_append: "c \<notin> set b \<Longrightarrow> rsplit_once c (a @ c # b) = Some (a, b)"
  by (induction a) (auto simp: rsplit_once_None [THEN iffD2])

lemma rsplit_once_Some: "rsplit_once c s = Some (a, b) \<Longrightarrow> s = a @ c # b \<and> c \<notin> set b"
proof -
  assume h: "rsplit_once c s = Some (a, b)"
  then have "c \<in> set s" using rsplit_once_None [of c s] by auto
  then obtain ys zs where s: "s = ys @ c # zs" "c \<notin> set zs" using split_list_last by metis
  with h rsplit_once_append [OF s(2), of ys] show ?thesis by simp
qed

lemma split_once_Some: "split_once c s = Some (a, b) \<Longrightarrow> s = a @ c # b \<and> c \<notin> set a"
  by (induction s arbitrary: a) (auto split: if_splits)

lemma show_ipv4_chars: "c \<in> set (show_ipv4 ip) \<Longrightarrow> c = CHR ''.'' \<or> (\<exists>d < 10. c = digit_char d)"
proof -
  assume c: "c \<in> set (show_ipv4 ip)"
  obtain a b e d where o: "octets ip = [a, b, e, d]" by (simp add: octets_def)
  with c consider "c = CHR ''.''" | n where "c \<in> set (show_nat n)"
    by (auto simp: show_ipv4_def)
  then show ?thesis using show_nat_digits by cases blast+
qed

lemma show_ipv4_no_slash: "CHR ''/'' \<notin> set (show_ipv4 ip)"
proof
  assume "CHR ''/'' \<in> set (show_ipv4 ip)"
  from show_ipv4_chars [OF this] obtain d where "d < 10" and d: "CHR ''/'' = digit_char d" by auto
  then have "to_digit 10 (CHR ''/'') = Some d" unfolding d by (simp add: to_digit_digit_char)
  then show False by (simp add: to_digit_def)
qed
end
