(* ===== verification/Models.thy ===== *)
theory Models
  imports Errors
begin

text \<open>
  The request model of \<open>models.rs\<close>: containment back ends and their wire names, the directional
  network policy, the proxy endpoint and its hosts-file pin, and the parts of the execution request
  the other components read. The lemmas give the wire-name round trip, the facts about host pins
  that the hosts file relies on, and the working-directory and path normalisation contracts.
\<close>

section \<open>Containment back ends\<close>

datatype ContainmentBackend =
    ProcessContainer | Wslc | Lxc | Vm | MicroVm | Hyperlight | WindowsSandbox
  | IsolationSession | Seatbelt | Bubblewrap

fun wire_name :: "ContainmentBackend \<Rightarrow> string" where
  "wire_name ProcessContainer = ''processcontainer''"
| "wire_name Wslc = ''wslc''"
| "wire_name Lxc = ''lxc''"
| "wire_name Vm = ''vm''"
| "wire_name MicroVm = ''microvm''"
| "wire_name Hyperlight = ''hyperlight''"
| "wire_name WindowsSandbox = ''windows_sandbox''"
| "wire_name IsolationSession = ''isolation_session''"
| "wire_name Seatbelt = ''seatbelt''"
| "wire_name Bubblewrap = ''bubblewrap''"

fun section_path :: "ContainmentBackend \<Rightarrow> string option" where
  "section_path ProcessContainer = Some ''processContainer''"
| "section_path Lxc = Some ''lxc''"
| "section_path WindowsSandbox = Some ''windowsSandbox''"
| "section_path Wslc = Some ''wslc''"
| "section_path Seatbelt = Some ''seatbelt''"
| "section_path IsolationSession = Some ''isolationSession''"
| "section_path Hyperlight = Some ''hyperlight''"
| "section_path Bubblewrap = None"
| "section_path MicroVm = None"
| "section_path Vm = None"

text \<open>\<open>wire::Containment\<close>: an abstract intent or a concrete back end.\<close>

datatype Containment =
    W_Process | W_ProcessContainer | W_Vm | W_WindowsSandbox | W_Lxc | W_Microvm | W_Hyperlight
  | W_Wslc | W_Seatbelt | W_IsolationSession | W_Bubblewrap

definition parse_wire_name :: "string \<Rightarrow> Containment option" where
  "parse_wire_name v =
     (if v = ''process'' then Some W_Process
      else if v = ''processcontainer'' \<or> v = ''appcontainer'' then Some W_ProcessContainer
      else if v = ''vm'' then Some W_Vm
      else if v = ''windows_sandbox'' then Some W_WindowsSandbox
      else if v = ''lxc'' then Some W_Lxc
      else if v = ''microvm'' then Some W_Microvm
      else if v = ''hyperlight'' then Some W_Hyperlight
      else if v = ''wslc'' then Some W_Wslc
      else if v = ''seatbelt'' \<or> v = ''macos_sandbox'' then Some W_Seatbelt
      else if v = ''isolation_session'' then Some W_IsolationSession
      else if v = ''bubblewrap'' then Some W_Bubblewrap
      else None)"

text \<open>The \<open>target_os\<close> the binary is compiled for selects the abstract intents.\<close>

datatype target_os = Linux | MacOs | Windows | OtherOs

fun backend_of_containment :: "target_os \<Rightarrow> Containment \<Rightarrow> ContainmentBackend" where
  "backend_of_containment os W_Process =
     (if os = Linux then Bubblewrap else if os = MacOs then Seatbelt else ProcessContainer)"
| "backend_of_containment os W_ProcessContainer = ProcessContainer"
| "backend_of_containment os W_Vm = (if os = Windows then WindowsSandbox else Vm)"
| "backend_of_containment os W_WindowsSandbox = WindowsSandbox"
| "backend_of_containment os W_Lxc = Lxc"
| "backend_of_containment os W_Microvm = MicroVm"
| "backend_of_containment os W_Hyperlight = Hyperlight"
| "backend_of_containment os W_Wslc = Wslc"
| "backend_of_containment os W_Seatbelt = Seatbelt"
| "backend_of_containment os W_IsolationSession = IsolationSession"
| "backend_of_containment os W_Bubblewrap = Bubblewrap"

section \<open>The directional network policy\<close>

datatype NetworkAction = Allow | Deny

datatype NetworkProtocol = Tcp | Udp | Icmp | AnyProtocol

record NetworkCidr =
  cidr_address :: IpAddr
  cidr_prefix :: nat

text \<open>
  The \<open>cidr\<close> crate's \<open>IpCidr\<close> is a parameter of the two operations that use it: \<open>str::parse\<close>, whose
  error is the text of a \<open>NetworkParseError\<close>; \<open>IpCidr::new\<close>; and \<open>contains\<close>. An \<open>IpCidr\<close> is read
  through \<open>first_address\<close> and \<open>network_length\<close>, so it is the pair of the two.
\<close>

record cidr_api =
  cidr_parse :: "string \<Rightarrow> string + IpAddr \<times> nat"
  cidr_new :: "IpAddr \<Rightarrow> nat \<Rightarrow> (IpAddr \<times> nat) option"
  cidr_contains :: "IpAddr \<times> nat \<Rightarrow> IpAddr \<Rightarrow> bool"

definition NetworkCidr_from_str :: "cidr_api \<Rightarrow> string \<Rightarrow> string + NetworkCidr" where
  "NetworkCidr_from_str api s =
     and_then (cidr_parse api s) (\<lambda>(first_address, network_length).
       Ok \<lparr>cidr_address = first_address, cidr_prefix = network_length\<rparr>)"

definition contains_cidr :: "cidr_api \<Rightarrow> NetworkCidr \<Rightarrow> NetworkCidr \<Rightarrow> bool" where
  "contains_cidr api self other =
     (case cidr_new api (cidr_address self) (cidr_prefix self) of
        None \<Rightarrow> False
      | Some parent \<Rightarrow>
          (case cidr_new api (cidr_address other) (cidr_prefix other) of
             None \<Rightarrow> False
           | Some child \<Rightarrow> snd parent \<le> snd child \<and> cidr_contains api parent (fst child)))"

record NetworkPeer =
  peer_cidr :: NetworkCidr
  peer_except :: "NetworkCidr list"

record NetworkPort =
  port_protocol :: NetworkProtocol
  port_port :: "u16 option"
  port_end_port :: "u16 option"

record NetworkRule =
  rule_to :: "NetworkPeer list"
  rule_ports :: "NetworkPort list"

record NetworkEgressPolicy =
  eg_default :: NetworkAction
  eg_allow :: "NetworkRule list"
  eg_deny :: "NetworkRule list"

record NetworkIngressPolicy =
  in_default :: NetworkAction
  in_host_loopback :: NetworkAction

section \<open>The proxy endpoint\<close>

record ProxyHostPin =
  pin_hostname :: string
  pin_ip :: IpAddr

definition hosts_line :: "ProxyHostPin \<Rightarrow> string" where
  "hosts_line pin = show_ip (pin_ip pin) @ '' '' @ pin_hostname pin"

record ProxyAddress =
  pa_address :: string
  pa_port :: u16
  pa_original_url :: "string option"

definition ProxyAddress_new :: "string \<Rightarrow> u16 \<Rightarrow> ProxyAddress" where
  "ProxyAddress_new address port =
     \<lparr>pa_address = address, pa_port = port, pa_original_url = None\<rparr>"

definition ProxyAddress_from_url :: "string \<Rightarrow> string \<Rightarrow> u16 \<Rightarrow> ProxyAddress" where
  "ProxyAddress_from_url url host port =
     \<lparr>pa_address = host, pa_port = port, pa_original_url = Some url\<rparr>"

definition bracket_if_ipv6 :: "string \<Rightarrow> string" where
  "bracket_if_ipv6 host =
     (case parse_ip host of Some (IpV6 _) \<Rightarrow> ''['' @ host @ '']'' | _ \<Rightarrow> host)"

definition ProxyAddress_to_url :: "ProxyAddress \<Rightarrow> string" where
  "ProxyAddress_to_url p =
     (case pa_original_url p of
        Some url \<Rightarrow> url
      | None \<Rightarrow> ''http://'' @ bracket_if_ipv6 (pa_address p) @ '':'' @ show_nat (unat (pa_port p)))"

definition unbracket_host :: "string \<Rightarrow> string" where
  "unbracket_host host =
     (case Option.bind (strip_prefix (CHR ''['') host) (strip_suffix (CHR '']'')) of
        Some inner \<Rightarrow> inner
      | None \<Rightarrow> host)"

definition is_pinnable_hostname :: "string \<Rightarrow> bool" where
  "is_pinnable_hostname host \<longleftrightarrow>
     host \<noteq> [] \<and> list_all (\<lambda>c. is_ascii_alphanumeric c \<or> c = CHR ''-'' \<or> c = CHR ''.'') host"

definition host_pin :: "ProxyAddress \<Rightarrow> IpAddr \<Rightarrow> WxcError + ProxyHostPin option" where
  "host_pin self ip =
     (let hostname = unbracket_host (pa_address self) in
      if parse_ip hostname \<noteq> None then Ok None
      else if \<not> is_pinnable_hostname hostname then
        Err (NetworkProxy (''proxy address '' @ debug_str (pa_address self) @
          '' cannot be pinned to '' @ show_ip ip @ '': not a valid hostname''))
      else Ok (Some \<lparr>pin_hostname = hostname, pin_ip = ip\<rparr>))"

record ProxyConfig =
  proxy_address :: "ProxyAddress option"

definition proxy_is_enabled :: "ProxyConfig \<Rightarrow> bool" where
  "proxy_is_enabled p \<longleftrightarrow> proxy_address p \<noteq> None"

section \<open>Interface policy and capabilities\<close>

datatype ClipboardPolicy = ClipNone | ClipRead | ClipWrite | ClipAll

record UiPolicy =
  ui_disable :: bool
  ui_clipboard :: ClipboardPolicy
  ui_injection :: bool

definition UiPolicy_default :: UiPolicy where
  "UiPolicy_default = \<lparr>ui_disable = True, ui_clipboard = ClipNone, ui_injection = False\<rparr>"

record BaseProcessUiConfig =
  bpu_isolation :: string
  bpu_desktop_system_control :: bool
  bpu_system_settings :: string
  bpu_ime :: bool

definition BaseProcessUiConfig_default :: BaseProcessUiConfig where
  "BaseProcessUiConfig_default =
     \<lparr>bpu_isolation = ''container'', bpu_desktop_system_control = False,
      bpu_system_settings = ''none'', bpu_ime = False\<rparr>"

datatype LearningModeCapability = Learning | Permissive

definition from_capability_name :: "string \<Rightarrow> LearningModeCapability option" where
  "from_capability_name name =
     (if eq_ignore_ascii_case name ''learningModeLogging'' then Some Learning
      else if eq_ignore_ascii_case name ''permissiveLearningMode'' then Some Permissive
      else None)"

datatype CaptureDenialsMode = CaptureBlock | CaptureAllow

record CaptureDenialsConfig =
  cd_mode :: CaptureDenialsMode
  cd_output_path :: "string option"
  cd_retain_etl :: bool

record ContainerPolicy =
  least_privilege_mode :: bool
  capabilities :: "string list"
  readwrite_paths :: "string list"
  readonly_paths :: "string list"
  enumerate_paths :: "string list"
  denied_paths :: "string list"
  network_egress :: "NetworkEgressPolicy option"
  network_ingress :: "NetworkIngressPolicy option"
  allowed_proxy_peer :: "string option"
  network_proxy :: ProxyConfig
  network_specified :: bool
  network_mode_specified :: bool
  runtime_network_proxy_specified :: bool
  policy_ui :: UiPolicy
  ui_specified :: bool
  base_process_ui :: BaseProcessUiConfig
  capture_denials :: "CaptureDenialsConfig option"

definition ContainerPolicy_default :: ContainerPolicy where
  "ContainerPolicy_default =
     \<lparr>least_privilege_mode = False, capabilities = [], readwrite_paths = [], readonly_paths = [],
      enumerate_paths = [], denied_paths = [], network_egress = None, network_ingress = None,
      allowed_proxy_peer = None, network_proxy = \<lparr>proxy_address = None\<rparr>,
      network_specified = False, network_mode_specified = False,
      runtime_network_proxy_specified = False, policy_ui = UiPolicy_default, ui_specified = False,
      base_process_ui = BaseProcessUiConfig_default, capture_denials = None\<rparr>"

datatype ContractVersion = V0_9_0Alpha | V1_0_0 | V1_1_0Alpha

fun ContractVersion_as_str :: "ContractVersion \<Rightarrow> string" where
  "ContractVersion_as_str V0_9_0Alpha = ''0.9.0-alpha''"
| "ContractVersion_as_str V1_0_0 = ''1.0.0''"
| "ContractVersion_as_str V1_1_0Alpha = ''1.1.0-alpha''"

definition parse_exact :: "string \<Rightarrow> ContractVersion option" where
  "parse_exact v =
     (if v = ''0.9.0-alpha'' then Some V0_9_0Alpha
      else if v = ''1.0.0'' then Some V1_0_0
      else if v = ''1.1.0-alpha'' then Some V1_1_0Alpha
      else None)"

record SeatbeltConfig =
  sb_profile_override :: "string option"
  sb_gui_access :: bool
  sb_nested_pty :: bool
  sb_keychain_access :: bool
  sb_extra_mach_lookups :: "string list"

definition SeatbeltConfig_default :: SeatbeltConfig where
  "SeatbeltConfig_default =
     \<lparr>sb_profile_override = None, sb_gui_access = False, sb_nested_pty = True,
      sb_keychain_access = False, sb_extra_mach_lookups = []\<rparr>"

record WindowsSandboxConfig =
  ws_idle_timeout_ms :: u32
  ws_daemon_pipe_name :: string

definition WindowsSandboxConfig_default :: WindowsSandboxConfig where
  "WindowsSandboxConfig_default =
     \<lparr>ws_idle_timeout_ms = 300000, ws_daemon_pipe_name = ''wxc-windows-sandbox''\<rparr>"

record MicroVmProvisionConfig =
  mvp_image :: string
  mvp_memory_mib :: "u32 option"

definition validate_memory_mib :: "u32 option \<Rightarrow> WxcError + unit" where
  "validate_memory_mib memory_mib =
     (if memory_mib = Some 0
      then Err (ConfigParse ''microvm.provision.memoryMib must be greater than zero'')
      else Ok ())"

record PortMapping =
  pm_windows_port :: u16
  pm_container_port :: u16
  pm_protocol :: string

record WslcProvisionConfig =
  wpc_image :: "string option"
  wpc_image_tar_path :: "string option"
  wpc_session_id :: "string option"
  wpc_port_mappings :: "PortMapping list option"

record WslcProvisionSessionConfig =
  wps_cpu_count :: "u32 option"
  wps_memory_mb :: "u64 option"
  wps_gpu :: "bool option"

record LxcConfig =
  lxc_distribution :: string
  lxc_release :: string

record WslcConfig =
  wc_target_os :: string
  wc_image :: string
  wc_image_tar_path :: "string option"
  wc_cpu_count :: "u32 option"
  wc_memory_mb :: "u64 option"
  wc_gpu :: bool
  wc_storage_path :: "string option"
  wc_port_mappings :: "PortMapping list"

definition WslcConfig_default :: WslcConfig where
  "WslcConfig_default =
     \<lparr>wc_target_os = ''linux'', wc_image = ''alpine:latest'', wc_image_tar_path = None,
      wc_cpu_count = None, wc_memory_mb = None, wc_gpu = False, wc_storage_path = None,
      wc_port_mappings = []\<rparr>"

record LifecycleConfig =
  destroy_on_exit :: bool
  preserve_policy :: bool

definition LifecycleConfig_default :: LifecycleConfig where
  "LifecycleConfig_default = \<lparr>destroy_on_exit = True, preserve_policy = False\<rparr>"

record TestFeatureConfig =
  tf_message :: string

definition TestFeatureConfig_from_raw :: "string option \<Rightarrow> TestFeatureConfig" where
  "TestFeatureConfig_from_raw message = \<lparr>tf_message = (case message of None \<Rightarrow> [] | Some m \<Rightarrow> m)\<rparr>"

record TelemetryConfig =
  tel_enabled :: "bool option"
  tel_requested_sandbox_kind :: "string option"

datatype HyperlightRuntime = Agent | Python | PythonShell | Node | Bash | DotnetJit

definition HyperlightRuntime_ALL :: "HyperlightRuntime list" where
  "HyperlightRuntime_ALL = [Agent, Python, PythonShell, Node, Bash, DotnetJit]"

fun HyperlightRuntime_name :: "HyperlightRuntime \<Rightarrow> string" where
  "HyperlightRuntime_name Agent = ''agent''"
| "HyperlightRuntime_name Python = ''python''"
| "HyperlightRuntime_name PythonShell = ''python-shell''"
| "HyperlightRuntime_name Node = ''node''"
| "HyperlightRuntime_name Bash = ''bash''"
| "HyperlightRuntime_name DotnetJit = ''dotnet-jit''"

definition HyperlightRuntime_from_str :: "string \<Rightarrow> string + HyperlightRuntime" where
  "HyperlightRuntime_from_str s =
     ok_or (''unknown hyperlight runtime '' @ debug_str s @ ''; expected one of '' @
            join '', '' (map HyperlightRuntime_name HyperlightRuntime_ALL))
       (find (\<lambda>r. HyperlightRuntime_name r = s) HyperlightRuntime_ALL)"

section \<open>Paths\<close>

text \<open>\<open>str::split\<close> on a character: one more part than there are separators.\<close>

fun split_char :: "char \<Rightarrow> string \<Rightarrow> string list" where
  "split_char c [] = [[]]"
| "split_char c (x # xs) =
     (if x = c then [] # split_char c xs
      else (case split_char c xs of [] \<Rightarrow> [[x]] | p # ps \<Rightarrow> (x # p) # ps))"

definition push_segment :: "string list \<Rightarrow> string \<Rightarrow> string list" where
  "push_segment segs segment =
     (if segment = [] \<or> segment = ''.'' then segs
      else if segment = ''..'' then butlast segs
      else segs @ [segment])"

definition sandbox_absolute_path :: "string \<Rightarrow> string" where
  "sandbox_absolute_path path =
     ''/'' @ join ''/'' (foldl push_segment [] (split_char (CHR ''/'') path))"

datatype WorkingDirectorySource = Explicit | Policy

record ResolvedWorkingDirectory =
  wd_path :: string
  wd_source :: WorkingDirectorySource

text \<open>
  The fields of \<open>ExecutionRequest\<close> that the modelled operations read; the configuration sections of
  the back ends that are not modelled are left out.
\<close>

record HyperlightConfig =
  hl_runtime :: HyperlightRuntime

record ExecutionRequest =
  source_contract :: "ContractVersion option"
  container_id :: string
  req_env :: "string list option"
  inherit_default_env :: bool
  script_code :: string
  working_directory :: string
  script_timeout :: u32
  containment :: ContainmentBackend
  lifecycle :: LifecycleConfig
  req_policy :: ContainerPolicy
  lxc_config :: LxcConfig
  wslc :: "WslcConfig option"
  seatbelt :: "SeatbeltConfig option"
  telemetry :: "TelemetryConfig option"
  test_feature :: "TestFeatureConfig option"
  windows_sandbox :: "WindowsSandboxConfig option"
  hyperlight :: "HyperlightConfig option"
  microvm_image :: "string option"
  microvm_memory_mib :: "u32 option"
  experimental_enabled :: bool
  dry_run :: bool

definition source_contract_version :: "ExecutionRequest \<Rightarrow> string" where
  "source_contract_version r =
     (case map_option ContractVersion_as_str (source_contract r) of None \<Rightarrow> [] | Some v \<Rightarrow> v)"

definition env_entries :: "ExecutionRequest \<Rightarrow> string list" where
  "env_entries r = (case req_env r of None \<Rightarrow> [] | Some es \<Rightarrow> es)"

definition resolved_working_directory_with ::
    "ExecutionRequest \<Rightarrow> (string \<Rightarrow> bool) \<Rightarrow> ResolvedWorkingDirectory option" where
  "resolved_working_directory_with r is_dir =
     (if \<not> trim_is_empty (working_directory r) then
        Some \<lparr>wd_path = working_directory r, wd_source = Explicit\<rparr>
      else map_option (\<lambda>path. \<lparr>wd_path = path, wd_source = Policy\<rparr>)
        (find is_dir (filter (\<lambda>path. \<not> trim_is_empty path)
           (readwrite_paths (req_policy r) @ readonly_paths (req_policy r)))))"

section \<open>Facts about the request model\<close>

subsection \<open>Splitting and joining\<close>

lemma split_char_nonempty [simp]: "split_char c s \<noteq> []"
  by (cases s) (auto split: list.splits)

lemma split_char_free: "c \<notin> set s \<Longrightarrow> split_char c s = [s]"
  by (induction s) auto

lemma split_char_append:
  "c \<notin> set s \<Longrightarrow> split_char c (s @ c # t) = s # split_char c t"
  by (induction s) auto

lemma split_char_join:
  "ps \<noteq> [] \<Longrightarrow> \<forall>p \<in> set ps. c \<notin> set p \<Longrightarrow> split_char c (join [c] ps) = ps"
  by (induction "[c]" ps rule: join.induct) (auto simp: split_char_free split_char_append)

lemma split_char_parts: "p \<in> set (split_char c s) \<Longrightarrow> c \<notin> set p"
  by (induction s arbitrary: p) (auto split: if_splits list.splits)

subsection \<open>Path normalisation\<close>

definition proper_segment :: "string \<Rightarrow> bool" where
  "proper_segment seg \<longleftrightarrow>
     seg \<noteq> [] \<and> seg \<noteq> ''.'' \<and> seg \<noteq> ''..'' \<and> CHR ''/'' \<notin> set seg"

lemma fold_push_proper:
  assumes "\<forall>seg \<in> set segs. CHR ''/'' \<notin> set seg" and "\<forall>seg \<in> set acc. proper_segment seg"
  shows "\<forall>seg \<in> set (foldl push_segment acc segs). proper_segment seg"
  using assms
proof (induction segs arbitrary: acc)
  case (Cons seg segs)
  have "\<forall>s \<in> set (push_segment acc seg). proper_segment s"
    using Cons.prems by (auto simp: push_segment_def proper_segment_def dest: in_set_butlastD)
  with Cons show ?case by simp
qed simp

lemma fold_push_id: "\<forall>seg \<in> set segs. proper_segment seg \<Longrightarrow> foldl push_segment acc segs = acc @ segs"
  by (induction segs arbitrary: acc) (auto simp: push_segment_def proper_segment_def)

lemma sandbox_segments_proper:
  "seg \<in> set (foldl push_segment [] (split_char (CHR ''/'') path)) \<Longrightarrow> proper_segment seg"
  using fold_push_proper [of "split_char (CHR ''/'') path" "[]"] split_char_parts by auto

lemma sandbox_absolute_path_segments:
  "filter (\<lambda>seg. seg \<noteq> []) (split_char (CHR ''/'') (sandbox_absolute_path path)) =
     foldl push_segment [] (split_char (CHR ''/'') path)"
proof -
  define segs where "segs = foldl push_segment [] (split_char (CHR ''/'') path)"
  have p: "\<forall>seg \<in> set segs. proper_segment seg"
    using sandbox_segments_proper by (simp add: segs_def)
  then have f: "filter (\<lambda>seg. seg \<noteq> []) segs = segs"
    by (auto simp: filter_id_conv proper_segment_def)
  have "sandbox_absolute_path path = CHR ''/'' # join ''/'' segs"
    by (simp add: sandbox_absolute_path_def segs_def)
  moreover have "split_char (CHR ''/'') (join ''/'' segs) = (if segs = [] then [[]] else segs)"
    using p by (auto simp: proper_segment_def intro: split_char_join)
  ultimately show ?thesis using f by (auto simp: segs_def)
qed

subsection \<open>Host pins\<close>

lemma digit_char_plain: "d < 16 \<Longrightarrow> digit_char d \<noteq> CHR '' '' \<and> digit_char d \<noteq> CHR 0x0A"
proof -
  assume "d < 16"
  then have "(of_char (digit_char d) :: nat) = (if d < 10 then 48 + d else 87 + d)"
    by (simp add: digit_char_def)
  then show ?thesis by (auto split: if_splits)
qed

lemma show_radix_plain:
  "r \<le> 16 \<Longrightarrow> 2 \<le> r \<Longrightarrow> c \<in> set (show_radix r n) \<Longrightarrow> c \<noteq> CHR '' '' \<and> c \<noteq> CHR 0x0A"
proof (induction r n rule: show_radix.induct)
  case (1 r n)
  show ?case
  proof (cases "n < r")
    case True
    then have "c = digit_char n" using 1(4) by (simp add: show_radix.simps)
    with True 1(2) digit_char_plain show ?thesis by simp
  next
    case False
    then consider "c \<in> set (show_radix r (n div r))" | "c = digit_char (n mod r)"
      using 1(3,4) by (subst (asm) show_radix.simps) (auto split: if_splits)
    moreover have "n mod r < 16" using 1(2,3) mod_less_divisor [of r n] by linarith
    ultimately show ?thesis using 1(1) [OF _ 1(2,3)] False 1(3) digit_char_plain by cases auto
  qed
qed

lemma join_chars: "c \<in> set (join sep ps) \<Longrightarrow> c \<in> set sep \<or> (\<exists>p \<in> set ps. c \<in> set p)"
  by (induction sep ps rule: join.induct) auto

lemma show_groups_plain: "c \<in> set (show_groups gs) \<Longrightarrow> c \<noteq> CHR '' '' \<and> c \<noteq> CHR 0x0A"
  using join_chars [of c "'':''" "map show_hex gs"] show_radix_plain [of 16 c]
  by (auto simp: show_groups_def show_hex_def)

lemma show_ipv4_plain: "c \<in> set (show_ipv4 ip) \<Longrightarrow> c \<noteq> CHR '' '' \<and> c \<noteq> CHR 0x0A"
  using join_chars [of c "''.''" "map show_nat (octets ip)"] show_radix_plain [of 10 c]
  by (auto simp: show_ipv4_def show_nat_def)

lemma show_ip_plain: "c \<in> set (show_ip ip) \<Longrightarrow> c \<noteq> CHR '' '' \<and> c \<noteq> CHR 0x0A"
proof (cases ip)
  case (IpV4 a)
  then show "c \<in> set (show_ip ip) \<Longrightarrow> ?thesis" using show_ipv4_plain by simp
next
  case (IpV6 a)
  assume "c \<in> set (show_ip ip)"
  with IpV6 consider "c \<in> {CHR '':'', CHR ''f''}" | v where "c \<in> set (show_ipv4 v)"
    | gs where "c \<in> set (show_groups gs)"
    by (auto simp: show_ipv6_def split: option.splits prod.splits if_splits)
  then show ?thesis using show_ipv4_plain show_groups_plain by cases (blast | simp)+
qed

lemma pinnable_plain:
  "is_pinnable_hostname h \<Longrightarrow> c \<in> set h \<Longrightarrow> c \<noteq> CHR '' '' \<and> c \<noteq> CHR 0x0A"
  by (auto simp: is_pinnable_hostname_def list_all_iff is_ascii_alphanumeric_def
      is_ascii_alphabetic_def is_ascii_digit_def)

lemma hosts_line_fields:
  assumes "host_pin p ip = Ok (Some pin)"
  shows "split_char (CHR '' '') (hosts_line pin) = [show_ip ip, unbracket_host (pa_address p)]"
    and "CHR 0x0A \<notin> set (hosts_line pin)"
proof -
  have pin: "pin = \<lparr>pin_hostname = unbracket_host (pa_address p), pin_ip = ip\<rparr>"
    and ok: "is_pinnable_hostname (unbracket_host (pa_address p))"
    using assms by (auto simp: host_pin_def Let_def split: if_splits)
  have sp: "CHR '' '' \<notin> set (show_ip ip)" "CHR '' '' \<notin> set (unbracket_host (pa_address p))"
    using show_ip_plain pinnable_plain [OF ok] by blast+
  show "split_char (CHR '' '') (hosts_line pin) = [show_ip ip, unbracket_host (pa_address p)]"
    unfolding pin hosts_line_def using split_char_append [OF sp(1)] split_char_free [OF sp(2)]
    by simp
  show "CHR 0x0A \<notin> set (hosts_line pin)"
    using show_ip_plain pinnable_plain [OF ok] by (auto simp: pin hosts_line_def)
qed

subsection \<open>Normal forms\<close>

lemma foldl_push_filter:
  "foldl push_segment acc (filter (\<lambda>seg. seg \<noteq> []) segs) = foldl push_segment acc segs"
  by (induction segs arbitrary: acc) (auto simp: push_segment_def)

lemma sandbox_absolute_path_idem: "sandbox_absolute_path (sandbox_absolute_path path) = sandbox_absolute_path path"
proof -
  let ?segs = "foldl push_segment [] (split_char (CHR ''/'') path)"
  have "foldl push_segment [] (split_char (CHR ''/'') (sandbox_absolute_path path)) =
      foldl push_segment [] (filter (\<lambda>seg. seg \<noteq> []) (split_char (CHR ''/'') (sandbox_absolute_path path)))"
    by (rule foldl_push_filter [symmetric])
  also have "\<dots> = foldl push_segment [] ?segs" by (simp only: sandbox_absolute_path_segments)
  also have "\<dots> = ?segs" using fold_push_id [of ?segs "[]"] sandbox_segments_proper by simp
  finally show ?thesis unfolding sandbox_absolute_path_def [of "sandbox_absolute_path path"] by (simp add: sandbox_absolute_path_def)
qed

section \<open>Properties\<close>

text \<open>
  C31: Back-end names round-trip through the wire. Every back end's wire name is accepted by the
  containment parser and selects that back end again on every operating system, except that \<open>vm\<close> on
  Windows is an intent and selects Windows Sandbox; so distinct back ends have distinct wire names.
\<close>

theorem wire_name_roundtrip:
  "map_option (backend_of_containment os) (parse_wire_name (wire_name b)) =
     Some (if b = Vm \<and> os = Windows then WindowsSandbox else b) \<and>
   inj wire_name"
proof
  have rt: "map_option (backend_of_containment os) (parse_wire_name (wire_name b)) =
      Some (if b = Vm \<and> os = Windows then WindowsSandbox else b)" for os b
    by (cases b) (simp_all add: parse_wire_name_def)
  show "map_option (backend_of_containment os) (parse_wire_name (wire_name b)) =
      Some (if b = Vm \<and> os = Windows then WindowsSandbox else b)" by (rule rt)
  have linux: "map_option (backend_of_containment Linux) (parse_wire_name (wire_name b)) = Some b" for b
    by (simp only: rt target_os.distinct simp_thms if_False)
  show "inj wire_name" by (rule injI) (metis linux option.inject)
qed

text \<open>
  A pinned proxy host is one well-formed hosts-file entry. When \<open>host_pin\<close> produces a pin, its
  hosts line has no line break and splits at spaces into exactly two fields, the resolved address and
  the host name; a host name that is an address or has any other character is never written.
\<close>

lemma host_pin_one_entry:
  assumes "host_pin p ip = Ok (Some pin)"
  shows "split_char (CHR '' '') (hosts_line pin) = [show_ip ip, unbracket_host (pa_address p)] \<and>
    CHR 0x0A \<notin> set (hosts_line pin) \<and> parse_ip (unbracket_host (pa_address p)) = None"
  using hosts_line_fields [OF assms] assms by (auto simp: host_pin_def Let_def split: if_splits)

lemma host_pin_one_entry_witness:
  "split_char (CHR '' '') (hosts_line \<lparr>pin_hostname = ''proxy.corp'', pin_ip = IpV4 0x0A000202\<rparr>) =
     [show_ip (IpV4 0x0A000202), ''proxy.corp'']"
proof -
  have u: "unbracket_host ''proxy.corp'' = ''proxy.corp''" by code_simp
  have "parse_ip ''proxy.corp'' = None" "is_pinnable_hostname ''proxy.corp''" by code_simp+
  then have "host_pin \<lparr>pa_address = ''proxy.corp'', pa_port = 8080, pa_original_url = None\<rparr> (IpV4 0x0A000202) =
      Ok (Some \<lparr>pin_hostname = ''proxy.corp'', pin_ip = IpV4 0x0A000202\<rparr>)"
    by (simp add: host_pin_def u Let_def)
  from host_pin_one_entry [OF this] show ?thesis by (simp add: u)
qed

text \<open>
  \<open>sandbox_absolute_path\<close> produces a canonical path below the root: a slash and then proper
  segments (none empty, none \<open>.\<close> or \<open>..\<close>) joined by slashes, so nothing escapes the root, and
  normalising it again changes nothing.
\<close>

lemma sandbox_absolute_path_canonical:
  "(\<exists>segs. sandbox_absolute_path path = ''/'' @ join ''/'' segs \<and> list_all proper_segment segs) \<and>
   sandbox_absolute_path (sandbox_absolute_path path) = sandbox_absolute_path path"
proof
  show "\<exists>segs. sandbox_absolute_path path = ''/'' @ join ''/'' segs \<and> list_all proper_segment segs"
    using sandbox_segments_proper [of _ path] by (intro exI conjI) (auto simp: sandbox_absolute_path_def list_all_iff)
qed (rule sandbox_absolute_path_idem)

end
