(* ===== verification/Proxy_Env.thy ===== *)
theory Proxy_Env
  imports Models
begin

text \<open>
  The cooperative-proxy module \<open>proxy_env.rs\<close>: the environment a proxied sandbox is given, and the
  recognition and redaction of credentials in proxy URLs. A \<open>char\<close> is a byte of the UTF-8 text; every
  character the code tests for is ASCII, so testing bytes is the same.
\<close>

section \<open>Managed variables\<close>

definition PROXY_ENV_KEYS :: "string list" where
  "PROXY_ENV_KEYS =
     [''HTTP_PROXY'', ''HTTPS_PROXY'', ''ALL_PROXY'', ''FTP_PROXY'', ''http_proxy'',
      ''https_proxy'', ''all_proxy'', ''ftp_proxy'', ''NO_PROXY'', ''no_proxy'']"

definition PROXY_SET_KEYS :: "string list" where
  "PROXY_SET_KEYS =
     [''HTTP_PROXY'', ''HTTPS_PROXY'', ''ALL_PROXY'', ''FTP_PROXY'', ''http_proxy'',
      ''https_proxy'', ''all_proxy'', ''ftp_proxy'']"

definition PROXY_NEUTRALIZE_KEYS :: "string list" where
  "PROXY_NEUTRALIZE_KEYS = [''NO_PROXY'', ''no_proxy'']"

definition env_key :: "string \<Rightarrow> string" where
  "env_key entry = (case split_once (CHR ''='') entry of Some (k, _) \<Rightarrow> k | None \<Rightarrow> entry)"

definition is_managed_proxy_key :: "string \<Rightarrow> bool" where
  "is_managed_proxy_key key \<longleftrightarrow> list_ex (\<lambda>k. eq_ignore_ascii_case k key) PROXY_ENV_KEYS"

section \<open>Credentials in proxy URLs\<close>

text \<open>\<open>str::trim_matches\<close> with a character predicate.\<close>

definition trim_matches :: "(char \<Rightarrow> bool) \<Rightarrow> string \<Rightarrow> string" where
  "trim_matches p s = rev (dropWhile p (rev (dropWhile p s)))"

definition is_trimmed :: "char \<Rightarrow> bool" where
  "is_trimmed c \<longleftrightarrow> (of_char c :: nat) \<le> 32"

definition is_tab_or_newline :: "char \<Rightarrow> bool" where
  "is_tab_or_newline c \<longleftrightarrow> c = CHR 0x09 \<or> c = CHR 0x0A \<or> c = CHR 0x0D"

definition normalize_as_the_url_parser_does :: "string \<Rightarrow> string" where
  "normalize_as_the_url_parser_does url =
     (if list_ex is_tab_or_newline url
      then trim_matches is_trimmed (filter (\<lambda>c. \<not> is_tab_or_newline c) url)
      else trim_matches is_trimmed url)"

record ProxyAuthority =
  auth_scheme :: string
  auth_separator :: string
  auth_authority :: string
  auth_tail :: string

definition is_uri_scheme :: "string \<Rightarrow> bool" where
  "is_uri_scheme candidate =
     (case candidate of
        [] \<Rightarrow> False
      | first # chars \<Rightarrow>
          is_ascii_alphabetic first \<and>
          list_all (\<lambda>c. is_ascii_alphanumeric c \<or> c = CHR ''+'' \<or> c = CHR ''-'' \<or> c = CHR ''.'')
            chars)"

definition introduces_authority :: "char \<Rightarrow> bool" where
  "introduces_authority c \<longleftrightarrow> c = CHR ''/'' \<or> c = CHR 0x5C"

definition ends_authority :: "char \<Rightarrow> bool" where
  "ends_authority c \<longleftrightarrow> c = CHR ''/'' \<or> c = CHR ''?'' \<or> c = CHR ''#'' \<or> c = CHR 0x5C"

definition split_proxy_authority :: "string \<Rightarrow> ProxyAuthority" where
  "split_proxy_authority url =
     (let (scheme, after_scheme) =
        (case split_once (CHR '':'') url of
           Some (prefix, rest) \<Rightarrow> if is_uri_scheme prefix then (prefix, CHR '':'' # rest) else ([], url)
         | None \<Rightarrow> ([], url));
        slashes =
          (case strip_prefix (CHR '':'') after_scheme of
             Some rest \<Rightarrow> 1 + (length rest - length (dropWhile introduces_authority rest))
           | None \<Rightarrow> 0);
        separator = take slashes after_scheme;
        rest = drop slashes after_scheme
      in \<lparr>auth_scheme = scheme, auth_separator = separator,
          auth_authority = takeWhile (\<lambda>c. \<not> ends_authority c) rest,
          auth_tail = dropWhile (\<lambda>c. \<not> ends_authority c) rest\<rparr>)"

definition credential_userinfo :: "string \<Rightarrow> (string \<times> string) option" where
  "credential_userinfo authority =
     (case rsplit_once (CHR ''@'') authority of
        None \<Rightarrow> None
      | Some (userinfo, host) \<Rightarrow>
          if userinfo = [] \<or> userinfo = '':'' then None else Some (userinfo, host))"

definition redact_proxy_url :: "string \<Rightarrow> string" where
  "redact_proxy_url url =
     (let parts = split_proxy_authority (normalize_as_the_url_parser_does url)
      in case credential_userinfo (auth_authority parts) of
           Some (_, host) \<Rightarrow>
             auth_scheme parts @ auth_separator parts @ ''***@'' @ host @ auth_tail parts
         | None \<Rightarrow> url)"

definition proxy_url_has_credentials :: "string \<Rightarrow> bool" where
  "proxy_url_has_credentials url \<longleftrightarrow>
     credential_userinfo
       (auth_authority (split_proxy_authority (normalize_as_the_url_parser_does url))) \<noteq> None"

section \<open>The proxied environment\<close>

definition apply_cooperative_proxy_env :: "string list \<Rightarrow> string \<Rightarrow> string list" where
  "apply_cooperative_proxy_env caller_env proxy_url =
     filter (\<lambda>entry. \<not> is_managed_proxy_key (env_key entry)) caller_env @
     map (\<lambda>key. key @ ''='' @ proxy_url) PROXY_SET_KEYS @
     map (\<lambda>key. key @ ''='') PROXY_NEUTRALIZE_KEYS"

definition apply_proxy_env :: "string list \<Rightarrow> ProxyConfig \<Rightarrow> string list" where
  "apply_proxy_env env proxy =
     (case proxy_address proxy of
        Some address \<Rightarrow> apply_cooperative_proxy_env env (ProxyAddress_to_url address)
      | None \<Rightarrow> env)"

section \<open>Facts about the split\<close>

lemma take_length_dropWhile:
  "take (length xs - length (dropWhile P xs)) xs = takeWhile P xs"
  "drop (length xs - length (dropWhile P xs)) xs = dropWhile P xs"
proof -
  have n: "length xs - length (dropWhile P xs) = length (takeWhile P xs)"
    by (metis add_diff_cancel_right' length_append takeWhile_dropWhile_id)
  show "take (length xs - length (dropWhile P xs)) xs = takeWhile P xs"
    unfolding n by (rule takeWhile_eq_take [symmetric])
  show "drop (length xs - length (dropWhile P xs)) xs = dropWhile P xs"
    unfolding n by (rule dropWhile_eq_drop [symmetric])
qed

text \<open>The split in closed form, by the two ways a scheme can be absent or present.\<close>

definition parts_after :: "string \<Rightarrow> string \<Rightarrow> ProxyAuthority" where
  "parts_after scheme rest =
     \<lparr>auth_scheme = scheme, auth_separator = CHR '':'' # takeWhile introduces_authority rest,
      auth_authority = takeWhile (\<lambda>c. \<not> ends_authority c) (dropWhile introduces_authority rest),
      auth_tail = dropWhile (\<lambda>c. \<not> ends_authority c) (dropWhile introduces_authority rest)\<rparr>"

lemma split_with_scheme:
  assumes "split_once (CHR '':'') url = Some (prefix, rest)" and "is_uri_scheme prefix"
  shows "split_proxy_authority url = parts_after prefix rest"
  using assms
  by (simp add: split_proxy_authority_def parts_after_def strip_prefix_def take_length_dropWhile Let_def)

definition scheme_prefixed :: "string \<Rightarrow> bool" where
  "scheme_prefixed url \<longleftrightarrow>
     (case split_once (CHR '':'') url of Some (prefix, _) \<Rightarrow> is_uri_scheme prefix | None \<Rightarrow> False)"

lemma split_colon_first:
  "split_proxy_authority (CHR '':'' # rest) = parts_after [] rest"
  by (simp add: split_proxy_authority_def parts_after_def strip_prefix_def is_uri_scheme_def
      take_length_dropWhile Let_def)

lemma split_no_scheme:
  assumes "\<not> scheme_prefixed url" and "hd (url @ ''/'') \<noteq> CHR '':''"
  shows "split_proxy_authority url =
    \<lparr>auth_scheme = [], auth_separator = [],
     auth_authority = takeWhile (\<lambda>c. \<not> ends_authority c) url,
     auth_tail = dropWhile (\<lambda>c. \<not> ends_authority c) url\<rparr>"
proof -
  have "strip_prefix (CHR '':'') url = None"
    using assms(2) by (auto simp: strip_prefix_def split: list.splits)
  with assms(1) show ?thesis
    by (auto simp: split_proxy_authority_def scheme_prefixed_def Let_def split: option.splits prod.splits)
qed

lemma split_cases:
  obtains (scheme) prefix rest where "url = prefix @ CHR '':'' # rest" "is_uri_scheme prefix"
      "CHR '':'' \<notin> set prefix" "split_proxy_authority url = parts_after prefix rest"
    | (colon) rest where "url = CHR '':'' # rest" "split_proxy_authority url = parts_after [] rest"
    | (bare) "split_proxy_authority url =
        \<lparr>auth_scheme = [], auth_separator = [],
         auth_authority = takeWhile (\<lambda>c. \<not> ends_authority c) url,
         auth_tail = dropWhile (\<lambda>c. \<not> ends_authority c) url\<rparr>"
proof (cases "scheme_prefixed url")
  case True
  then obtain prefix rest where s: "split_once (CHR '':'') url = Some (prefix, rest)"
    "is_uri_scheme prefix" by (auto simp: scheme_prefixed_def split: option.splits)
  with scheme split_once_Some [OF s(1)] split_with_scheme [OF s] show thesis by blast
next
  case False
  show thesis
  proof (cases "hd (url @ ''/'') = CHR '':''")
    case True
    then obtain rest where "url = CHR '':'' # rest" by (cases url) auto
    with colon split_colon_first show thesis by blast
  next
    case no: False
    from bare split_no_scheme [OF False no] show thesis by blast
  qed
qed

lemma split_reassembles:
  "auth_scheme (split_proxy_authority url) @ auth_separator (split_proxy_authority url) @
   auth_authority (split_proxy_authority url) @ auth_tail (split_proxy_authority url) = url"
  by (cases url rule: split_cases) (simp_all add: parts_after_def)

lemma authority_plain:
  "c \<in> set (auth_authority (split_proxy_authority url)) \<Longrightarrow> \<not> ends_authority c"
  by (cases url rule: split_cases) (auto simp: parts_after_def dest: set_takeWhileD)

lemma credential_userinfo_Some:
  "credential_userinfo a = Some (u, h) \<longleftrightarrow>
     a = u @ CHR ''@'' # h \<and> CHR ''@'' \<notin> set h \<and> u \<noteq> [] \<and> u \<noteq> '':''"
proof
  assume "credential_userinfo a = Some (u, h)"
  then have "rsplit_once (CHR ''@'') a = Some (u, h) \<and> u \<noteq> [] \<and> u \<noteq> '':''"
    by (auto simp: credential_userinfo_def split: option.splits if_splits)
  with rsplit_once_Some [of "CHR ''@''" a u h]
  show "a = u @ CHR ''@'' # h \<and> CHR ''@'' \<notin> set h \<and> u \<noteq> [] \<and> u \<noteq> '':''" by blast
next
  assume "a = u @ CHR ''@'' # h \<and> CHR ''@'' \<notin> set h \<and> u \<noteq> [] \<and> u \<noteq> '':''"
  then show "credential_userinfo a = Some (u, h)"
    using rsplit_once_append [of "CHR ''@''" h u] by (simp add: credential_userinfo_def)
qed

lemma uri_scheme_chars: "is_uri_scheme s \<Longrightarrow> s \<noteq> [] \<and> CHR '':'' \<notin> set s \<and> \<not> is_trimmed (hd s)"
  by (auto simp: is_uri_scheme_def list_all_iff is_ascii_alphanumeric_def is_ascii_alphabetic_def
      is_ascii_digit_def is_trimmed_def split: list.splits)

lemma parts_after_append:
  assumes "\<forall>c \<in> set sl. introduces_authority c" and "a \<noteq> []" and "\<forall>c \<in> set a. \<not> ends_authority c"
    and "t = [] \<or> ends_authority (hd t)"
  shows "parts_after p (sl @ a @ t) =
    \<lparr>auth_scheme = p, auth_separator = CHR '':'' # sl, auth_authority = a, auth_tail = t\<rparr>"
proof -
  obtain x xs where a: "a = x # xs" using assms(2) by (cases a) auto
  have "\<not> introduces_authority x"
    using assms(3) by (auto simp: a introduces_authority_def ends_authority_def)
  then have 1: "takeWhile introduces_authority (sl @ a @ t) = sl"
    "dropWhile introduces_authority (sl @ a @ t) = a @ t"
    using assms(1) by (simp_all add: a)
  have "takeWhile (\<lambda>c. \<not> ends_authority c) t = []" "dropWhile (\<lambda>c. \<not> ends_authority c) t = t"
    using assms(4) by (cases t; auto)+
  then have "takeWhile (\<lambda>c. \<not> ends_authority c) (a @ t) = a"
    "dropWhile (\<lambda>c. \<not> ends_authority c) (a @ t) = t"
    using assms(3) by simp_all
  then show ?thesis unfolding parts_after_def 1 by simp
qed

lemma tail_starts: "auth_tail (split_proxy_authority url) = [] \<or>
    ends_authority (hd (auth_tail (split_proxy_authority url)))"
proof -
  have "dropWhile (\<lambda>c. \<not> ends_authority c) s = [] \<or> ends_authority (hd (dropWhile (\<lambda>c. \<not> ends_authority c) s))"
    for s using hd_dropWhile [of "\<lambda>c. \<not> ends_authority c" s] by auto
  then show ?thesis by (cases url rule: split_cases) (simp_all add: parts_after_def)
qed

text \<open>Replacing a credential-bearing authority by one starting with \<open>*\<close> keeps the split in place.\<close>

lemma split_replaced:
  fixes url
  defines "p \<equiv> split_proxy_authority url"
  assumes "a = CHR ''*'' # b" and "\<forall>c \<in> set b. \<not> ends_authority c"
    and "auth_authority p \<noteq> []"
  shows "split_proxy_authority (auth_scheme p @ auth_separator p @ a @ auth_tail p) =
    p\<lparr>auth_authority := a\<rparr>"
proof -
  have a: "a \<noteq> []" "\<forall>c \<in> set a. \<not> ends_authority c"
    using assms(2,3) by (auto simp: ends_authority_def)
  have t: "auth_tail p = [] \<or> ends_authority (hd (auth_tail p))"
    unfolding p_def by (rule tail_starts)
  have sl: "\<forall>c \<in> set (takeWhile introduces_authority s). introduces_authority c" for s
    by (auto dest: set_takeWhileD)
  show ?thesis
  proof (cases url rule: split_cases)
    case (scheme prefix rest)
    then have p: "auth_scheme p = prefix" "auth_separator p = CHR '':'' # takeWhile introduces_authority rest"
      by (simp_all add: p_def parts_after_def)
    have "split_once (CHR '':'') (prefix @ CHR '':'' # takeWhile introduces_authority rest @ a @ auth_tail p)
        = Some (prefix, takeWhile introduces_authority rest @ a @ auth_tail p)"
      using scheme(3) by (simp add: split_once_append)
    from split_with_scheme [OF this scheme(2)] show ?thesis
      unfolding parts_after_append [OF sl a t] by (simp add: p)
  next
    case (colon rest)
    then have p: "auth_scheme p = []" "auth_separator p = CHR '':'' # takeWhile introduces_authority rest"
      by (simp_all add: p_def parts_after_def)
    have "split_proxy_authority (CHR '':'' # takeWhile introduces_authority rest @ a @ auth_tail p) =
        \<lparr>auth_scheme = [], auth_separator = CHR '':'' # takeWhile introduces_authority rest,
         auth_authority = a, auth_tail = auth_tail p\<rparr>"
      by (simp only: split_colon_first parts_after_append [OF sl a t])
    then show ?thesis by (simp add: p)
  next
    case bare
    then have p: "auth_scheme p = []" "auth_separator p = []" by (simp_all add: p_def)
    have "\<not> scheme_prefixed (a @ auth_tail p)"
      unfolding assms(2) scheme_prefixed_def
      by (auto simp: is_uri_scheme_def is_ascii_alphabetic_def split: option.splits)
    moreover have "hd ((a @ auth_tail p) @ ''/'') \<noteq> CHR '':''" by (simp add: assms(2))
    ultimately have "split_proxy_authority (a @ auth_tail p) =
        \<lparr>auth_scheme = [], auth_separator = [],
         auth_authority = takeWhile (\<lambda>c. \<not> ends_authority c) (a @ auth_tail p),
         auth_tail = dropWhile (\<lambda>c. \<not> ends_authority c) (a @ auth_tail p)\<rparr>"
      by (rule split_no_scheme)
    moreover have "takeWhile (\<lambda>c. \<not> ends_authority c) (auth_tail p) = []"
      "dropWhile (\<lambda>c. \<not> ends_authority c) (auth_tail p) = auth_tail p"
      using t by (cases "auth_tail p"; auto)+
    ultimately show ?thesis using a(2) by (simp add: p)
  qed
qed

subsection \<open>Normalisation\<close>

definition is_normalized :: "string \<Rightarrow> bool" where
  "is_normalized s \<longleftrightarrow> (\<forall>c \<in> set s. \<not> is_tab_or_newline c) \<and>
     (s \<noteq> [] \<longrightarrow> \<not> is_trimmed (hd s) \<and> \<not> is_trimmed (last s))"

lemma trim_matches_id: "(s \<noteq> [] \<Longrightarrow> \<not> p (hd s) \<and> \<not> p (last s)) \<Longrightarrow> trim_matches p s = s"
proof (cases s rule: rev_cases)
  case (snoc ys y)
  assume h: "s \<noteq> [] \<Longrightarrow> \<not> p (hd s) \<and> \<not> p (last s)"
  then have "\<not> p (hd s)" using snoc by simp
  then have "dropWhile p s = s" using snoc by (metis dropWhile_eq_self_iff)
  then show ?thesis using h snoc by (simp add: trim_matches_def)
qed (simp add: trim_matches_def)

lemma normalize_id: "is_normalized s \<Longrightarrow> normalize_as_the_url_parser_does s = s"
  by (auto simp: is_normalized_def normalize_as_the_url_parser_does_def list_ex_iff
      intro: trim_matches_id)

lemma trim_matches_ends:
  "trim_matches p s \<noteq> [] \<Longrightarrow> \<not> p (hd (trim_matches p s)) \<and> \<not> p (last (trim_matches p s))"
proof -
  define d where "d = dropWhile p (rev (dropWhile p s))"
  assume "trim_matches p s \<noteq> []"
  then have d: "d \<noteq> []" "trim_matches p s = rev d" by (auto simp: trim_matches_def d_def)
  have l: "\<not> p (hd d)" using hd_dropWhile d(1) unfolding d_def by blast
  obtain pre where "rev (dropWhile p s) = pre @ d"
    unfolding d_def by (metis takeWhile_dropWhile_id)
  then have "dropWhile p s = rev d @ rev pre" by (metis rev_append rev_rev_ident)
  then have "hd (rev d) = hd (dropWhile p s)" "dropWhile p s \<noteq> []" using d(1) by auto
  with l d hd_dropWhile [of p s] show ?thesis by (simp add: last_rev)
qed

lemma normalize_is_normalized: "is_normalized (normalize_as_the_url_parser_does url)"
proof -
  have sub: "c \<in> set (trim_matches p s) \<Longrightarrow> c \<in> set s" for c p s
    by (auto simp: trim_matches_def dest!: set_dropWhileD)
  obtain s where n: "normalize_as_the_url_parser_does url = trim_matches is_trimmed s"
    and s: "\<forall>c \<in> set s. \<not> is_tab_or_newline c"
    by (cases "list_ex is_tab_or_newline url")
      (auto simp: normalize_as_the_url_parser_does_def list_ex_iff)
  show ?thesis
    unfolding is_normalized_def n using trim_matches_ends [of is_trimmed s] s sub by blast
qed

subsection \<open>Redaction\<close>

lemma redact_Some:
  assumes "proxy_url_has_credentials url"
  defines "p \<equiv> split_proxy_authority (normalize_as_the_url_parser_does url)"
  obtains u h where "auth_authority p = u @ CHR ''@'' # h" and "CHR ''@'' \<notin> set h"
    and "u \<noteq> []" and "u \<noteq> '':''"
    and "redact_proxy_url url = auth_scheme p @ auth_separator p @ (''***@'' @ h) @ auth_tail p"
proof -
  obtain u h where c: "credential_userinfo (auth_authority p) = Some (u, h)"
    using assms(1) by (auto simp: proxy_url_has_credentials_def p_def)
  moreover have "redact_proxy_url url = auth_scheme p @ auth_separator p @ (''***@'' @ h) @ auth_tail p"
    using c by (simp add: redact_proxy_url_def p_def Let_def)
  ultimately show ?thesis using that credential_userinfo_Some by blast
qed

lemma redact_None: "\<not> proxy_url_has_credentials url \<Longrightarrow> redact_proxy_url url = url"
  by (auto simp: proxy_url_has_credentials_def redact_proxy_url_def Let_def split: option.splits)

lemma redacted_normalized:
  assumes "is_normalized (s @ u @ CHR ''@'' # r)" and "s \<noteq> [] \<Longrightarrow> \<not> is_trimmed (hd s)"
  shows "is_normalized (s @ ''***@'' @ r)"
proof -
  have t: "\<not> is_trimmed (CHR ''*'')" "\<not> is_trimmed (CHR ''@'')" by (simp_all add: is_trimmed_def)
  have "last (s @ ''***@'' @ r) = (if r = [] then CHR ''@'' else last r)" by simp
  moreover have "r \<noteq> [] \<Longrightarrow> \<not> is_trimmed (last r)"
    using assms(1) by (auto simp: is_normalized_def)
  moreover have "\<not> is_trimmed (hd (s @ ''***@'' @ r))" using assms(2) t by (cases s) auto
  moreover have "\<forall>c \<in> set (s @ ''***@'' @ r). \<not> is_tab_or_newline c"
    using assms(1) by (auto simp: is_normalized_def) (auto simp: is_tab_or_newline_def)
  ultimately show ?thesis using t by (simp add: is_normalized_def)
qed

lemma redact_split:
  assumes "proxy_url_has_credentials url"
  defines "p \<equiv> split_proxy_authority (normalize_as_the_url_parser_does url)"
  shows "\<exists>h. CHR ''@'' \<notin> set h \<and> normalize_as_the_url_parser_does (redact_proxy_url url) = redact_proxy_url url \<and>
    split_proxy_authority (redact_proxy_url url) = p\<lparr>auth_authority := ''***@'' @ h\<rparr> \<and>
    redact_proxy_url url = auth_scheme p @ auth_separator p @ (''***@'' @ h) @ auth_tail p"
proof -
  define n where "n = normalize_as_the_url_parser_does url"
  obtain u h where a: "auth_authority p = u @ CHR ''@'' # h" and h: "CHR ''@'' \<notin> set h"
    and "u \<noteq> []" and "u \<noteq> '':''"
    and r: "redact_proxy_url url = auth_scheme p @ auth_separator p @ (''***@'' @ h) @ auth_tail p"
    using redact_Some [OF assms(1)] unfolding p_def by blast
  have n: "n = (auth_scheme p @ auth_separator p) @ u @ CHR ''@'' # h @ auth_tail p"
    using split_reassembles [of n] a by (simp add: p_def n_def)
  have "is_normalized ((auth_scheme p @ auth_separator p) @ ''***@'' @ (h @ auth_tail p))"
  proof (rule redacted_normalized)
    show nn: "is_normalized ((auth_scheme p @ auth_separator p) @ u @ CHR ''@'' # h @ auth_tail p)"
      using normalize_is_normalized [of url] n by (simp add: n_def)
    show "auth_scheme p @ auth_separator p \<noteq> [] \<Longrightarrow> \<not> is_trimmed (hd (auth_scheme p @ auth_separator p))"
      using nn by (cases "auth_scheme p @ auth_separator p") (auto simp: is_normalized_def)
  qed
  then have 1: "normalize_as_the_url_parser_does (redact_proxy_url url) = redact_proxy_url url"
    using normalize_id by (simp add: r)
  have "\<forall>c \<in> set h. \<not> ends_authority c"
    using authority_plain [of _ n] a by (auto simp: p_def n_def)
  then have "\<forall>c \<in> set (''**@'' @ h). \<not> ends_authority c" by (auto simp: ends_authority_def)
  moreover have "''***@'' @ h = CHR ''*'' # ''**@'' @ h" by simp
  moreover have "auth_authority (split_proxy_authority n) \<noteq> []" using a by (simp add: p_def n_def)
  ultimately have "split_proxy_authority (redact_proxy_url url) = p\<lparr>auth_authority := ''***@'' @ h\<rparr>"
    unfolding r p_def n_def [symmetric] by (intro split_replaced)
  with 1 h r show ?thesis by blast
qed



section \<open>Properties\<close>



text \<open>
  A redacted URL is stable and still flagged. Redacting twice is redacting once, and the
  credential check gives the same answer before and after redaction, so the marker \<open>***@\<close> can not be
  used to pass a credential-bearing URL off as clean.
\<close>

lemma redact_idempotent:
  "redact_proxy_url (redact_proxy_url url) = redact_proxy_url url \<and>
   (proxy_url_has_credentials (redact_proxy_url url) \<longleftrightarrow> proxy_url_has_credentials url)"
proof (cases "proxy_url_has_credentials url")
  case True
  define p where "p = split_proxy_authority (normalize_as_the_url_parser_does url)"
  obtain h where h: "CHR ''@'' \<notin> set h"
    and n: "normalize_as_the_url_parser_does (redact_proxy_url url) = redact_proxy_url url"
    and s: "split_proxy_authority (redact_proxy_url url) = p\<lparr>auth_authority := ''***@'' @ h\<rparr>"
    and r: "redact_proxy_url url = auth_scheme p @ auth_separator p @ (''***@'' @ h) @ auth_tail p"
    using redact_split [OF True] unfolding p_def by blast
  have "credential_userinfo (''***@'' @ h) = Some (''***'', h)"
    using h by (simp add: credential_userinfo_Some)
  then have "proxy_url_has_credentials (redact_proxy_url url)"
    and "redact_proxy_url (redact_proxy_url url) = redact_proxy_url url"
    by (simp_all add: proxy_url_has_credentials_def redact_proxy_url_def [of "redact_proxy_url url"]
        n s Let_def) (simp add: r)
  with True show ?thesis by blast
qed (simp add: redact_None)


end
