(* ===== verification/Net_Parser.thy ===== *)
theory Net_Parser
  imports Proxy_Env
begin

text \<open>
  The parser of the directional network policy, \<open>network_parser.rs\<close>, with the wire structures of
  \<open>wire.rs\<close> it reads. The \<open>cidr\<close> and \<open>url\<close> crates are parameters. The lemmas show what a policy that
  parsed satisfies, which is what the lowering components assume: contained exclusions, port ranges in
  order, no ports on ICMP, deny as the default everywhere, and the proxy restrictions.
\<close>

section \<open>Wire structures\<close>

datatype W_NetworkAction = W_Allow | W_Deny

datatype W_NetworkProtocol = W_Tcp | W_Udp | W_Icmp | W_AnyProtocol

record W_NetworkPort =
  w_protocol :: "W_NetworkProtocol option"
  w_port :: "u16 option"
  w_end_port :: "u16 option"

record W_NetworkPeer =
  w_cidr :: string
  w_except :: "string list option"

record W_NetworkRule =
  w_to :: "W_NetworkPeer list option"
  w_ports :: "W_NetworkPort list option"

record W_NetworkEgress =
  w_eg_default :: "W_NetworkAction option"
  w_eg_allow :: "W_NetworkRule list option"
  w_eg_deny :: "W_NetworkRule list option"

record W_NetworkIngress =
  w_in_default :: "W_NetworkAction option"
  w_in_host_loopback :: "W_NetworkAction option"

record W_Network =
  w_egress :: "W_NetworkEgress option"
  w_ingress :: "W_NetworkIngress option"

record W_RuntimeConfig =
  w_network_proxy :: "string option"

record W_ProcessContainerNetwork =
  w_allowed_proxy_peer :: "string option"

record NetworkSections =
  ns_network :: "W_Network option"
  ns_runtime :: "W_RuntimeConfig option"
  ns_process_container :: "W_ProcessContainerNetwork option"

text \<open>
  \<open>url::Url\<close> is a parameter, read through \<open>scheme\<close>, \<open>host_str\<close> and \<open>port\<close>; a failed parse gives the
  text of its error.
\<close>

record Url =
  url_scheme :: string
  url_host_str :: "string option"
  url_port :: "u16 option"

type_synonym url_parse = "string \<Rightarrow> string + Url"

section \<open>The parser\<close>

definition has_directional_policy_fields :: "W_Network \<Rightarrow> bool" where
  "has_directional_policy_fields network \<longleftrightarrow> w_egress network \<noteq> None \<or> w_ingress network \<noteq> None"

definition host_is_canonical_loopback :: "string \<Rightarrow> bool" where
  "host_is_canonical_loopback host \<longleftrightarrow>
     eq_ignore_ascii_case host ''localhost'' \<or>
     (case parse_ip (unbracket_host host) of
        Some (IpV4 ip) \<Rightarrow> ip = 0x7f000001
      | Some (IpV6 ip) \<Rightarrow> ip = 1
      | None \<Rightarrow> False)"

definition convert_wire_proxy_at :: "url_parse \<Rightarrow> string \<Rightarrow> string \<Rightarrow> WxcError + ProxyConfig" where
  "convert_wire_proxy_at url url_str path =
     (let redacted = redact_proxy_url url_str in
      and_then (map_err (\<lambda>e. ConfigParse (path @ '' is invalid: '' @ e)) (url url_str)) (\<lambda>parsed.
      let scheme = url_scheme parsed in
      if scheme \<noteq> ''http'' \<and> scheme \<noteq> ''https'' then
        Err (ConfigParse (path @ '' must use the 'http' or 'https' scheme (got '' @
          quoted scheme @ ''): '' @ redacted))
      else
      and_then (ok_or (ConfigParse (path @
          '' must include a host (e.g., http://localhost:8080), got: '' @ redacted))
          (url_host_str parsed)) (\<lambda>host.
      and_then (ok_or (ConfigParse (path @
          '' must include a port (e.g., http://localhost:8080), got: '' @ redacted))
          (url_port parsed)) (\<lambda>port.
      Ok \<lparr>proxy_address = Some (ProxyAddress_from_url url_str host port)\<rparr>))))"

fun convert_action :: "W_NetworkAction \<Rightarrow> NetworkAction" where
  "convert_action W_Allow = Allow"
| "convert_action W_Deny = Deny"

text \<open>\<open>map(convert_action).unwrap_or_default()\<close>: an absent action is \<open>deny\<close>.\<close>

definition action_or_default :: "W_NetworkAction option \<Rightarrow> NetworkAction" where
  "action_or_default a = (case a of Some x \<Rightarrow> convert_action x | None \<Rightarrow> Deny)"

definition unwrap_or_default :: "'a list option \<Rightarrow> 'a list" where
  "unwrap_or_default xs = (case xs of Some ys \<Rightarrow> ys | None \<Rightarrow> [])"

definition parse_cidr :: "cidr_api \<Rightarrow> string \<Rightarrow> string \<Rightarrow> WxcError + NetworkCidr" where
  "parse_cidr api s path =
     map_err (\<lambda>e. ConfigParse (path @ '' must be a valid network CIDR: '' @ e))
       (NetworkCidr_from_str api s)"

definition indexed :: "string \<Rightarrow> nat \<Rightarrow> string" where
  "indexed path index = path @ ''['' @ show_nat index @ '']''"

definition validate_port_range :: "W_NetworkPort \<Rightarrow> string \<Rightarrow> WxcError + unit" where
  "validate_port_range port path =
     (if w_port port = Some 0 then Err (ConfigParse (path @ ''.port must be between 1 and 65535''))
      else if w_end_port port = Some 0 then
        Err (ConfigParse (path @ ''.endPort must be between 1 and 65535''))
      else if w_end_port port \<noteq> None \<and> w_port port = None then
        Err (ConfigParse (path @ ''.endPort requires port''))
      else (case (w_port port, w_end_port port) of
          (Some start, Some end') \<Rightarrow>
            if end' < start then
              Err (ConfigParse (path @ ''.endPort must be greater than or equal to port''))
            else Ok ()
        | _ \<Rightarrow> Ok ()))"

fun convert_protocol :: "W_NetworkProtocol \<Rightarrow> NetworkProtocol" where
  "convert_protocol W_Tcp = Tcp"
| "convert_protocol W_Udp = Udp"
| "convert_protocol W_Icmp = Icmp"
| "convert_protocol W_AnyProtocol = AnyProtocol"

definition convert_port :: "W_NetworkPort \<Rightarrow> string \<Rightarrow> nat \<Rightarrow> WxcError + NetworkPort" where
  "convert_port port rule_path port_index =
     (let port_path = indexed (rule_path @ ''.ports'') port_index in
      and_then (validate_port_range port port_path) (\<lambda>_.
      let protocol =
        convert_protocol (case w_protocol port of Some p \<Rightarrow> p | None \<Rightarrow> W_AnyProtocol) in
      if protocol = Icmp \<and> (w_port port \<noteq> None \<or> w_end_port port \<noteq> None) then
        Err (ConfigParse (port_path @ '' cannot specify port or endPort for protocol='' @
          quoted ''icmp''))
      else Ok \<lparr>port_protocol = protocol, port_port = w_port port, port_end_port = w_end_port port\<rparr>))"

definition validate_exclusions ::
    "cidr_api \<Rightarrow> NetworkCidr \<Rightarrow> NetworkCidr list \<Rightarrow> string \<Rightarrow> WxcError + unit" where
  "validate_exclusions api cidr exclusions peer_path =
     and_then (try_mapi (\<lambda>index exclusion.
       if \<not> contains_cidr api cidr exclusion then
         Err (ConfigParse (indexed (peer_path @ ''.except'') index @
           '' must be contained within '' @ peer_path @ ''.cidr''))
       else Ok ()) exclusions) (\<lambda>_. Ok ())"

definition convert_peer ::
    "cidr_api \<Rightarrow> W_NetworkPeer \<Rightarrow> string \<Rightarrow> nat \<Rightarrow> WxcError + NetworkPeer" where
  "convert_peer api peer rule_path peer_index =
     (let peer_path = indexed (rule_path @ ''.to'') peer_index in
      and_then (parse_cidr api (w_cidr peer) (peer_path @ ''.cidr'')) (\<lambda>cidr.
      and_then (try_mapi (\<lambda>index v. parse_cidr api v (indexed (peer_path @ ''.except'') index))
          (unwrap_or_default (w_except peer))) (\<lambda>except.
      and_then (validate_exclusions api cidr except peer_path) (\<lambda>_.
      Ok \<lparr>peer_cidr = cidr, peer_except = except\<rparr>))))"

definition convert_rule ::
    "cidr_api \<Rightarrow> W_NetworkRule \<Rightarrow> string \<Rightarrow> nat \<Rightarrow> WxcError + NetworkRule" where
  "convert_rule api rule path rule_index =
     (let rule_path = indexed path rule_index in
      if w_to rule = Some [] then
        Err (ConfigParse (rule_path @ ''.to must contain at least one destination when specified''))
      else if w_ports rule = Some [] then
        Err (ConfigParse (rule_path @ ''.ports must contain at least one selector when specified''))
      else
      and_then (try_mapi (\<lambda>index peer. convert_peer api peer rule_path index)
          (unwrap_or_default (w_to rule))) (\<lambda>to.
      and_then (try_mapi (\<lambda>index port. convert_port port rule_path index)
          (unwrap_or_default (w_ports rule))) (\<lambda>ports.
      Ok \<lparr>rule_to = to, rule_ports = ports\<rparr>)))"

definition convert_rules ::
    "cidr_api \<Rightarrow> W_NetworkRule list \<Rightarrow> string \<Rightarrow> WxcError + NetworkRule list" where
  "convert_rules api rules path = try_mapi (\<lambda>index rule. convert_rule api rule path index) rules"

definition convert_egress :: "cidr_api \<Rightarrow> W_NetworkEgress \<Rightarrow> WxcError + NetworkEgressPolicy" where
  "convert_egress api egress =
     and_then (convert_rules api (unwrap_or_default (w_eg_allow egress)) ''network.egress.allow'')
       (\<lambda>allow.
     and_then (convert_rules api (unwrap_or_default (w_eg_deny egress)) ''network.egress.deny'')
       (\<lambda>deny.
     Ok \<lparr>eg_default = action_or_default (w_eg_default egress), eg_allow = allow, eg_deny = deny\<rparr>))"

definition convert_ingress :: "W_NetworkIngress option \<Rightarrow> NetworkIngressPolicy" where
  "convert_ingress ingress =
     (let ingress =
        (case ingress of Some i \<Rightarrow> i | None \<Rightarrow> \<lparr>w_in_default = None, w_in_host_loopback = None\<rparr>)
      in \<lparr>in_default = action_or_default (w_in_default ingress),
          in_host_loopback = action_or_default (w_in_host_loopback ingress)\<rparr>)"

definition convert_allowed_proxy_peer ::
    "W_ProcessContainerNetwork option \<Rightarrow> WxcError + string option" where
  "convert_allowed_proxy_peer network =
     (case Option.bind network w_allowed_proxy_peer of
        Some peer \<Rightarrow>
          if trim_is_empty peer then
            Err (ConfigParse ''processContainer.network.allowedProxyPeer must not be blank'')
          else Ok (Some peer)
      | None \<Rightarrow> Ok None)"

definition validate_directional_proxy_policy :: "ContainerPolicy \<Rightarrow> WxcError + unit" where
  "validate_directional_proxy_policy policy =
     (case network_egress policy of
        None \<Rightarrow> Ok ()
      | Some egress \<Rightarrow>
          if eg_default egress \<noteq> Deny \<or> eg_allow egress \<noteq> [] \<or> eg_deny egress \<noteq> [] then
            Err (ConfigParse (''runtimeConfig.networkProxy requires network.egress.default='' @
              quoted ''deny'' @ '' with no direct allow or deny rules''))
          else Ok ())"

definition validate_process_container_proxy_policy ::
    "ContainerPolicy \<Rightarrow> bool \<Rightarrow> WxcError + unit" where
  "validate_process_container_proxy_policy policy proxy_enabled =
     (if (case allowed_proxy_peer policy of
            Some peer \<Rightarrow> eq_ignore_ascii_case peer ''MXC-Loopback'' | None \<Rightarrow> False) then
        Err (ConfigParse (''processContainer.network.allowedProxyPeer must not use the reserved '' @
          quoted ''MXC-Loopback'' @ '' identity''))
      else if allowed_proxy_peer policy \<noteq> None \<and> \<not> proxy_enabled then
        Err (ConfigParse
          ''processContainer.network.allowedProxyPeer requires runtimeConfig.networkProxy'')
      else if \<not> proxy_enabled then Ok ()
      else (case network_ingress policy of
          None \<Rightarrow> Err (ConfigParse
            ''ProcessContainer runtimeConfig.networkProxy requires an ingress policy'')
        | Some ingress \<Rightarrow>
            if in_default ingress \<noteq> Allow then
              Err (ConfigParse (''ProcessContainer runtimeConfig.networkProxy requires '' @
                ''network.ingress.default='' @ quoted ''allow''))
            else (case (allowed_proxy_peer policy \<noteq> None, in_host_loopback ingress) of
                (True, Allow) \<Rightarrow>
                  Err (ConfigParse (''an identity-scoped ProcessContainer proxy requires '' @
                    ''network.ingress.hostLoopback='' @ quoted ''deny''))
              | (False, Deny) \<Rightarrow>
                  Err (ConfigParse (''a ProcessContainer proxy without allowedProxyPeer requires '' @
                    ''network.ingress.hostLoopback='' @ quoted ''allow''))
              | _ \<Rightarrow> Ok ())))"

definition validate_proxy_policy ::
    "ContainerPolicy \<Rightarrow> ContainmentBackend \<Rightarrow> WxcError + unit" where
  "validate_proxy_policy policy backend =
     (let proxy_enabled = proxy_is_enabled (network_proxy policy) in
      if \<not> proxy_enabled then
        (if backend = ProcessContainer
         then validate_process_container_proxy_policy policy False else Ok ())
      else
        (if backend = ProcessContainer
         then validate_process_container_proxy_policy policy True else Ok ()))"

text \<open>The two halves of \<open>parse_network_policy\<close> that update the policy, then the function.\<close>

definition parse_network_section ::
    "cidr_api \<Rightarrow> ContainerPolicy \<Rightarrow> W_Network option \<Rightarrow> WxcError + ContainerPolicy" where
  "parse_network_section api policy network =
     (case network of
        Some network \<Rightarrow>
          and_then (case w_egress network of
              None \<Rightarrow> Ok None
            | Some egress \<Rightarrow> and_then (convert_egress api egress) (\<lambda>e. Ok (Some e))) (\<lambda>egress.
          Ok (policy\<lparr>network_mode_specified := has_directional_policy_fields network,
               network_egress := egress,
               network_ingress := Some (convert_ingress (w_ingress network))\<rparr>))
      | None \<Rightarrow>
          Ok (policy\<lparr>network_egress := None,
               network_ingress := Some \<lparr>in_default = Deny, in_host_loopback = Deny\<rparr>\<rparr>))"

definition parse_runtime_proxy ::
    "url_parse \<Rightarrow> ContainerPolicy \<Rightarrow> W_RuntimeConfig option \<Rightarrow> ContainmentBackend
      \<Rightarrow> WxcError + ContainerPolicy" where
  "parse_runtime_proxy url policy runtime backend =
     (case Option.bind runtime w_network_proxy of
        None \<Rightarrow> Ok policy
      | Some url_str \<Rightarrow>
          and_then (convert_wire_proxy_at url url_str ''runtimeConfig.networkProxy'') (\<lambda>proxy.
          let host = (case proxy_address proxy of Some a \<Rightarrow> pa_address a | None \<Rightarrow> []) in
          if backend \<noteq> Wslc \<and> \<not> host_is_canonical_loopback host then
            Err (ConfigParse
              ''runtimeConfig.networkProxy must use localhost, 127.0.0.1, or [::1]'')
          else Ok (policy\<lparr>runtime_network_proxy_specified := True, network_proxy := proxy\<rparr>)))"

definition parse_network_policy ::
    "cidr_api \<Rightarrow> url_parse \<Rightarrow> ContainerPolicy \<Rightarrow> NetworkSections \<Rightarrow> ContainmentBackend
      \<Rightarrow> WxcError + ContainerPolicy" where
  "parse_network_policy api url policy sections backend =
     (let policy = policy\<lparr>network_specified := ns_network sections \<noteq> None\<rparr> in
      and_then (convert_allowed_proxy_peer (ns_process_container sections)) (\<lambda>peer.
      let policy = policy\<lparr>allowed_proxy_peer := peer\<rparr> in
      and_then (parse_network_section api policy (ns_network sections)) (\<lambda>policy.
      and_then (parse_runtime_proxy url policy (ns_runtime sections) backend) (\<lambda>policy.
      and_then
        (if backend \<noteq> Wslc \<and> network_mode_specified policy \<and>
            proxy_is_enabled (network_proxy policy)
         then validate_directional_proxy_policy policy else Ok ()) (\<lambda>_.
      and_then (validate_proxy_policy policy backend) (\<lambda>_. Ok policy))))))"

section \<open>What a parsed policy satisfies\<close>

definition valid_port :: "NetworkPort \<Rightarrow> bool" where
  "valid_port p \<longleftrightarrow>
     port_port p \<noteq> Some 0 \<and>
     (\<forall>e. port_end_port p = Some e \<longrightarrow> (\<exists>s. port_port p = Some s \<and> s \<le> e)) \<and>
     (port_protocol p = Icmp \<longrightarrow> port_port p = None \<and> port_end_port p = None)"

definition valid_peer :: "cidr_api \<Rightarrow> NetworkPeer \<Rightarrow> bool" where
  "valid_peer api p \<longleftrightarrow> (\<forall>e \<in> set (peer_except p). contains_cidr api (peer_cidr p) e)"

definition valid_rule :: "cidr_api \<Rightarrow> NetworkRule \<Rightarrow> bool" where
  "valid_rule api r \<longleftrightarrow> (\<forall>p \<in> set (rule_to r). valid_peer api p) \<and> (\<forall>p \<in> set (rule_ports r). valid_port p)"

definition valid_egress :: "cidr_api \<Rightarrow> NetworkEgressPolicy \<Rightarrow> bool" where
  "valid_egress api e \<longleftrightarrow> (\<forall>r \<in> set (eg_allow e @ eg_deny e). valid_rule api r)"

text \<open>A collected list satisfies what every conversion establishes.\<close>

lemma try_map_from_all:
  assumes "try_map_from i f xs = Ok ys" and "\<And>k x y. x \<in> set xs \<Longrightarrow> f k x = Ok y \<Longrightarrow> P y"
  shows "\<forall>y \<in> set ys. P y"
  using assms
proof (induction xs arbitrary: i ys)
  case (Cons x xs)
  then obtain z zs where "f i x = Ok z" "try_map_from (Suc i) f xs = Ok zs" "ys = z # zs"
    by (auto simp: result_simps)
  with Cons.IH [of "Suc i" zs] Cons.prems(2) show ?case by (metis list.set_intros set_ConsD)
qed simp

lemma convert_port_valid: "convert_port w path i = Ok p \<Longrightarrow> valid_port p"
  by (auto simp: convert_port_def validate_port_range_def valid_port_def result_simps Let_def not_less
      split: if_splits option.splits)

lemma convert_peer_valid: "convert_peer api w path i = Ok p \<Longrightarrow> valid_peer api p"
  by (auto simp: convert_peer_def validate_exclusions_def valid_peer_def result_simps Let_def
      try_map_from_Ok_iff in_set_conv_nth split: if_splits)

lemma convert_rule_valid:
  assumes "convert_rule api w path i = Ok r"
  shows "valid_rule api r" and "rule_to r = [] \<longleftrightarrow> w_to w = None" and "rule_ports r = [] \<longleftrightarrow> w_ports w = None"
proof -
  define rp where "rp = indexed path i"
  have ne: "w_to w \<noteq> Some []" "w_ports w \<noteq> Some []"
    and to: "try_mapi (\<lambda>index peer. convert_peer api peer rp index) (unwrap_or_default (w_to w)) = Ok (rule_to r)"
    and ports: "try_mapi (\<lambda>index port. convert_port port rp index) (unwrap_or_default (w_ports w)) = Ok (rule_ports r)"
    using assms by (auto simp: convert_rule_def rp_def result_simps Let_def split: if_splits)
  show "valid_rule api r"
    using try_map_from_all [OF to, of "valid_peer api"] convert_peer_valid
      try_map_from_all [OF ports, of valid_port] convert_port_valid
    unfolding valid_rule_def by blast
  have "length (rule_to r) = length (unwrap_or_default (w_to w))"
    "length (rule_ports r) = length (unwrap_or_default (w_ports w))"
    using to ports by (simp_all only: try_map_from_Ok_iff)
  then show "rule_to r = [] \<longleftrightarrow> w_to w = None" "rule_ports r = [] \<longleftrightarrow> w_ports w = None"
    using ne by (auto simp: unwrap_or_default_def split: option.splits)
qed

lemma convert_egress_valid:
  assumes "convert_egress api w = Ok e"
  shows "valid_egress api e" and "eg_default e = action_or_default (w_eg_default w)"
proof -
  have a: "try_mapi (\<lambda>i r. convert_rule api r ''network.egress.allow'' i)
      (unwrap_or_default (w_eg_allow w)) = Ok (eg_allow e)"
    and d: "try_mapi (\<lambda>i r. convert_rule api r ''network.egress.deny'' i)
      (unwrap_or_default (w_eg_deny w)) = Ok (eg_deny e)"
    and "eg_default e = action_or_default (w_eg_default w)"
    using assms by (auto simp: convert_egress_def convert_rules_def result_simps)
  then show "eg_default e = action_or_default (w_eg_default w)" by simp
  show "valid_egress api e"
    using try_map_from_all [OF a, of "valid_rule api"] try_map_from_all [OF d, of "valid_rule api"]
      convert_rule_valid(1) unfolding valid_egress_def set_append by blast
qed

lemma action_or_default_Allow: "action_or_default a = Allow \<longleftrightarrow> a = Some W_Allow"
proof (cases a)
  case (Some x)
  then show ?thesis by (cases x) (simp_all add: action_or_default_def)
qed (simp add: action_or_default_def)

text \<open>The steps of a successful parse.\<close>

lemma parse_network_policy_Ok:
  assumes "parse_network_policy api url policy sections backend = Ok p"
  obtains peer p1 where
    "convert_allowed_proxy_peer (ns_process_container sections) = Ok peer"
    and "parse_network_section api (policy\<lparr>network_specified := ns_network sections \<noteq> None,
           allowed_proxy_peer := peer\<rparr>) (ns_network sections) = Ok p1"
    and "parse_runtime_proxy url p1 (ns_runtime sections) backend = Ok p"
    and "backend \<noteq> Wslc \<and> network_mode_specified p \<and> proxy_is_enabled (network_proxy p) \<longrightarrow>
           validate_directional_proxy_policy p = Ok ()"
    and "validate_proxy_policy p backend = Ok ()"
  using assms by (auto simp: parse_network_policy_def result_simps Let_def split: if_splits)

lemma parse_network_section_Ok:
  assumes "parse_network_section api p0 network = Ok p1"
  shows "network_proxy p1 = network_proxy p0" and "allowed_proxy_peer p1 = allowed_proxy_peer p0"
    and "network_egress p1 = Some e \<Longrightarrow> \<exists>n w. network = Some n \<and> w_egress n = Some w \<and> convert_egress api w = Ok e"
    and "network_ingress p1 = Some (convert_ingress (Option.bind network w_ingress))"
  using assms
  by (auto simp: parse_network_section_def convert_ingress_def action_or_default_def result_simps
      split: option.splits)

lemma convert_wire_proxy_at_Ok:
  assumes "convert_wire_proxy_at url s path = Ok proxy"
  obtains u host port where "url s = Ok u" and "url_scheme u \<in> {''http'', ''https''}"
    and "url_host_str u = Some host" and "url_port u = Some port"
    and "proxy = \<lparr>proxy_address = Some (ProxyAddress_from_url s host port)\<rparr>"
  using assms by (auto simp: convert_wire_proxy_at_def result_simps ok_or_Ok_iff Let_def split: if_splits)

lemma parse_runtime_proxy_Ok:
  assumes "parse_runtime_proxy url p1 runtime backend = Ok p"
  shows "network_egress p = network_egress p1" and "network_ingress p = network_ingress p1"
    and "allowed_proxy_peer p = allowed_proxy_peer p1"
    and "network_mode_specified p = network_mode_specified p1"
  using assms by (auto simp: parse_runtime_proxy_def result_simps Let_def split: option.splits if_splits)

lemma parse_runtime_proxy_address:
  assumes "parse_runtime_proxy url p1 runtime backend = Ok p"
    and "proxy_address (network_proxy p1) = None" and "proxy_address (network_proxy p) = Some a"
  obtains s u where "Option.bind runtime w_network_proxy = Some s" and "url s = Ok u"
    and "url_scheme u \<in> {''http'', ''https''}" and "url_host_str u = Some (pa_address a)"
    and "url_port u = Some (pa_port a)" and "pa_original_url a = Some s"
    and "backend = Wslc \<or> host_is_canonical_loopback (pa_address a)"
proof (cases "Option.bind runtime w_network_proxy")
  case None
  with assms show ?thesis by (simp add: parse_runtime_proxy_def)
next
  case (Some s)
  with assms(1) obtain proxy where c: "convert_wire_proxy_at url s ''runtimeConfig.networkProxy'' = Ok proxy"
    and host: "backend = Wslc \<or>
      host_is_canonical_loopback (case proxy_address proxy of Some a \<Rightarrow> pa_address a | None \<Rightarrow> [])"
    and p: "p = p1\<lparr>runtime_network_proxy_specified := True, network_proxy := proxy\<rparr>"
    by (auto simp: parse_runtime_proxy_def result_simps Let_def split: if_splits)
  from c obtain u host port where "url s = Ok u" "url_scheme u \<in> {''http'', ''https''}"
    "url_host_str u = Some host" "url_port u = Some port"
    "proxy = \<lparr>proxy_address = Some (ProxyAddress_from_url s host port)\<rparr>"
    by (rule convert_wire_proxy_at_Ok)
  with that Some host assms(3) p show ?thesis by (auto simp: ProxyAddress_from_url_def)
qed

lemmas parse_eval = parse_network_policy_def convert_allowed_proxy_peer_def parse_network_section_def
  parse_runtime_proxy_def validate_proxy_policy_def validate_process_container_proxy_policy_def
  validate_directional_proxy_policy_def convert_egress_def convert_rules_def convert_rule_def
  convert_peer_def convert_port_def validate_port_range_def validate_exclusions_def parse_cidr_def
  NetworkCidr_from_str_def contains_cidr_def unwrap_or_default_def action_or_default_def
  convert_ingress_def convert_wire_proxy_at_def ok_or_def proxy_is_enabled_def
  ProxyAddress_from_url_def ContainerPolicy_default_def has_directional_policy_fields_def Let_def

section \<open>Properties\<close>

text \<open>
  C6: Every egress policy that parses is well formed. Each exclusion is contained in its peer's CIDR,
  port ranges are non-empty, start above zero and need a start port, and ICMP selectors carry no port;
  an ingress policy is always present.
\<close>

theorem parsed_policy_valid:
  assumes "parse_network_policy api url policy sections backend = Ok p"
  shows "network_ingress p \<noteq> None \<and> (\<forall>e. network_egress p = Some e \<longrightarrow> valid_egress api e)"
proof -
  obtain peer p1 where "convert_allowed_proxy_peer (ns_process_container sections) = Ok peer"
    and s: "parse_network_section api (policy\<lparr>network_specified := ns_network sections \<noteq> None,
           allowed_proxy_peer := peer\<rparr>) (ns_network sections) = Ok p1"
    and r: "parse_runtime_proxy url p1 (ns_runtime sections) backend = Ok p"
    using assms by (rule parse_network_policy_Ok)
  show ?thesis
    using parse_network_section_Ok(3,4) [OF s] parse_runtime_proxy_Ok(1,2) [OF r] convert_egress_valid(1)
    by auto
qed

theorem parsed_policy_valid_witness:
  "\<exists>api url sections p e. parse_network_policy api url ContainerPolicy_default sections Bubblewrap = Ok p \<and>
     network_egress p = Some e \<and> eg_allow e \<noteq> [] \<and> valid_egress api e"
proof -
  let ?api = "\<lparr>cidr_parse = \<lambda>s. if s = ''10.0.0.0/8'' then Ok (IpV4 0x0A000000, 8) else Err ''invalid'',
    cidr_new = \<lambda>a n. Some (a, n), cidr_contains = \<lambda>_ _. True\<rparr>"
  let ?rule = "\<lparr>w_to = Some [\<lparr>w_cidr = ''10.0.0.0/8'', w_except = Some [''10.0.0.0/8'']\<rparr>],
    w_ports = Some [\<lparr>w_protocol = Some W_Tcp, w_port = Some 80, w_end_port = Some 443\<rparr>]\<rparr>"
  let ?sections = "\<lparr>ns_network = Some \<lparr>w_egress = Some \<lparr>w_eg_default = None, w_eg_allow = Some [?rule],
    w_eg_deny = None\<rparr>, w_ingress = None\<rparr>, ns_runtime = None, ns_process_container = None\<rparr>"
  let ?url = "\<lambda>s :: string. (Err ''none'' :: string + Url)"
  let ?r = "parse_network_policy ?api ?url ContainerPolicy_default ?sections Bubblewrap"
  have "is_ok ?r \<and> (case ?r of Inr p \<Rightarrow> (case network_egress p of Some e \<Rightarrow> eg_allow e \<noteq> [] | None \<Rightarrow> False)
      | Inl _ \<Rightarrow> False)"
    by (simp add: parse_eval)
  then obtain p e where "?r = Ok p" "network_egress p = Some e" "eg_allow e \<noteq> []"
    by (auto split: sum.splits option.splits)
  with parsed_policy_valid [OF this(1)] show ?thesis by blast
qed



text \<open>
  Nothing is allowed by default. In a parsed policy the ingress default, host-loopback access and the
  egress default are \<open>allow\<close> only where the request says so; in particular an ingress default of \<open>allow\<close>
  does not open host loopback.
\<close>

lemma parsed_defaults_deny:
  assumes "parse_network_policy api url policy sections backend = Ok p"
  shows "(\<exists>i. network_ingress p = Some i \<and>
       (in_default i = Allow \<longleftrightarrow> (\<exists>n w. ns_network sections = Some n \<and> w_ingress n = Some w \<and>
          w_in_default w = Some W_Allow)) \<and>
       (in_host_loopback i = Allow \<longleftrightarrow> (\<exists>n w. ns_network sections = Some n \<and> w_ingress n = Some w \<and>
          w_in_host_loopback w = Some W_Allow))) \<and>
    (\<forall>e. network_egress p = Some e \<longrightarrow> eg_default e = Allow \<longrightarrow>
       (\<exists>n w. ns_network sections = Some n \<and> w_egress n = Some w \<and> w_eg_default w = Some W_Allow))"
proof (intro conjI allI impI)
  obtain peer p1 where "convert_allowed_proxy_peer (ns_process_container sections) = Ok peer"
    and s: "parse_network_section api (policy\<lparr>network_specified := ns_network sections \<noteq> None,
           allowed_proxy_peer := peer\<rparr>) (ns_network sections) = Ok p1"
    and r: "parse_runtime_proxy url p1 (ns_runtime sections) backend = Ok p"
    using assms by (rule parse_network_policy_Ok)
  have i: "network_ingress p = Some (convert_ingress (Option.bind (ns_network sections) w_ingress))"
    using parse_network_section_Ok(4) [OF s] parse_runtime_proxy_Ok(2) [OF r] by simp
  show "\<exists>i. network_ingress p = Some i \<and>
       (in_default i = Allow \<longleftrightarrow> (\<exists>n w. ns_network sections = Some n \<and> w_ingress n = Some w \<and>
          w_in_default w = Some W_Allow)) \<and>
       (in_host_loopback i = Allow \<longleftrightarrow> (\<exists>n w. ns_network sections = Some n \<and> w_ingress n = Some w \<and>
          w_in_host_loopback w = Some W_Allow))"
    unfolding i by (auto simp: convert_ingress_def action_or_default_Allow Let_def
        split: option.splits bind_splits)
  fix e assume "network_egress p = Some e" and a: "eg_default e = Allow"
  then have "network_egress p1 = Some e" using parse_runtime_proxy_Ok(1) [OF r] by simp
  with parse_network_section_Ok(3) [OF s] obtain n w where "ns_network sections = Some n"
    "w_egress n = Some w" "convert_egress api w = Ok e" by blast
  with convert_egress_valid(2) a show "\<exists>n w. ns_network sections = Some n \<and> w_egress n = Some w \<and>
      w_eg_default w = Some W_Allow"
    by (auto simp: action_or_default_Allow)
qed

lemma parsed_defaults_deny_witness:
  "\<exists>api url p i. parse_network_policy api url ContainerPolicy_default
     \<lparr>ns_network = Some \<lparr>w_egress = None, w_ingress = Some \<lparr>w_in_default = Some W_Allow,
        w_in_host_loopback = None\<rparr>\<rparr>, ns_runtime = None, ns_process_container = None\<rparr> Bubblewrap = Ok p \<and>
     network_ingress p = Some i \<and> in_default i = Allow \<and> in_host_loopback i \<noteq> Allow"
proof -
  let ?s = "\<lparr>ns_network = Some \<lparr>w_egress = None, w_ingress = Some \<lparr>w_in_default = Some W_Allow,
        w_in_host_loopback = None\<rparr>\<rparr>, ns_runtime = None, ns_process_container = None\<rparr>"
  let ?api = "undefined :: cidr_api"
  let ?url = "undefined :: url_parse"
  have "is_ok (parse_network_policy ?api ?url ContainerPolicy_default ?s Bubblewrap)"
    by (simp add: parse_eval)
  then obtain p where p: "parse_network_policy ?api ?url ContainerPolicy_default ?s Bubblewrap = Ok p"
    by (auto simp: is_ok_iff)
  from parsed_defaults_deny [OF p] obtain i where "network_ingress p = Some i" "in_default i = Allow"
    "in_host_loopback i \<noteq> Allow" by auto
  with p show ?thesis by blast
qed

text \<open>
  C28: A proxy is only accepted where it can be enforced. If a parse leaves a proxy configured (and none
  was configured before), then its URL has the scheme \<open>http\<close> or \<open>https\<close>, a host and a port, the address
  kept for the firewall is that host and port, and outside WSLc the host is \<open>localhost\<close>, \<open>127.0.0.1\<close>
  or \<open>::1\<close> and a directional policy has no direct egress: its default is deny and it has no rules.
\<close>

theorem parsed_proxy_restricted:
  assumes "parse_network_policy api url policy sections backend = Ok p"
    and "proxy_address (network_proxy policy) = None" and "proxy_address (network_proxy p) = Some a"
  shows "(\<exists>s u. Option.bind (ns_runtime sections) w_network_proxy = Some s \<and> url s = Ok u \<and>
       url_scheme u \<in> {''http'', ''https''} \<and> url_host_str u = Some (pa_address a) \<and>
       url_port u = Some (pa_port a) \<and> ProxyAddress_to_url a = s) \<and>
    (backend \<noteq> Wslc \<longrightarrow> host_is_canonical_loopback (pa_address a) \<and>
       (\<forall>e. network_mode_specified p \<longrightarrow> network_egress p = Some e \<longrightarrow>
          eg_default e = Deny \<and> eg_allow e = [] \<and> eg_deny e = []))"
proof -
  obtain peer p1 where "convert_allowed_proxy_peer (ns_process_container sections) = Ok peer"
    and s: "parse_network_section api (policy\<lparr>network_specified := ns_network sections \<noteq> None,
           allowed_proxy_peer := peer\<rparr>) (ns_network sections) = Ok p1"
    and r: "parse_runtime_proxy url p1 (ns_runtime sections) backend = Ok p"
    and d: "backend \<noteq> Wslc \<and> network_mode_specified p \<and> proxy_is_enabled (network_proxy p) \<longrightarrow>
      validate_directional_proxy_policy p = Ok ()"
    using assms(1) by (rule parse_network_policy_Ok)
  have "proxy_address (network_proxy p1) = None" using parse_network_section_Ok(1) [OF s] assms(2) by simp
  from parse_runtime_proxy_address [OF r this assms(3)] obtain str u where
    "Option.bind (ns_runtime sections) w_network_proxy = Some str" "url str = Ok u"
    "url_scheme u \<in> {''http'', ''https''}" "url_host_str u = Some (pa_address a)"
    "url_port u = Some (pa_port a)" "pa_original_url a = Some str"
    and l: "backend = Wslc \<or> host_is_canonical_loopback (pa_address a)" .
  moreover from this have "ProxyAddress_to_url a = str" by (simp add: ProxyAddress_to_url_def)
  moreover have "eg_default e = Deny \<and> eg_allow e = [] \<and> eg_deny e = []"
    if "backend \<noteq> Wslc" "network_mode_specified p" "network_egress p = Some e" for e
    using d that assms(3)
    by (auto simp: proxy_is_enabled_def validate_directional_proxy_policy_def split: if_splits)
  ultimately show ?thesis by blast
qed

theorem parsed_proxy_restricted_witness:
  "\<exists>api url p a. parse_network_policy api url ContainerPolicy_default
     \<lparr>ns_network = None, ns_runtime = Some \<lparr>w_network_proxy = Some ''http://localhost:8080''\<rparr>,
      ns_process_container = None\<rparr> Bubblewrap = Ok p \<and>
     proxy_address (network_proxy p) = Some a \<and> host_is_canonical_loopback (pa_address a)"
proof -
  let ?s = "\<lparr>ns_network = None, ns_runtime = Some \<lparr>w_network_proxy = Some ''http://localhost:8080''\<rparr>,
      ns_process_container = None\<rparr>"
  let ?api = "undefined :: cidr_api"
  let ?url = "\<lambda>s :: string. (Ok \<lparr>url_scheme = ''http'', url_host_str = Some ''localhost'',
      url_port = Some 8080\<rparr> :: string + Url)"
  have "host_is_canonical_loopback ''localhost''"
    by (simp add: host_is_canonical_loopback_def eq_ignore_ascii_case_def)
  then have run: "\<exists>p a. parse_network_policy ?api ?url ContainerPolicy_default ?s Bubblewrap = Ok p \<and>
      proxy_address (network_proxy p) = Some a"
    by (simp add: parse_eval)
  then obtain p a where p: "parse_network_policy ?api ?url ContainerPolicy_default ?s Bubblewrap = Ok p"
    "proxy_address (network_proxy p) = Some a" by blast
  have "proxy_address (network_proxy ContainerPolicy_default) = None" by (simp add: ContainerPolicy_default_def)
  from parsed_proxy_restricted [OF p(1) this p(2)] p show ?thesis by blast
qed

text \<open>
  C29: The process container accepts a proxy only together with the ingress posture that reaches it. In a
  parsed ProcessContainer policy a peer identity implies an enabled proxy and is neither blank nor the
  reserved one; an enabled proxy implies an ingress default of \<open>allow\<close> and host loopback open
  exactly when no peer identity is given.
\<close>

theorem process_container_proxy_consistent:
  assumes "parse_network_policy api url policy sections ProcessContainer = Ok p"
  shows "(\<forall>peer. allowed_proxy_peer p = Some peer \<longrightarrow> proxy_is_enabled (network_proxy p) \<and>
       \<not> trim_is_empty peer \<and> \<not> eq_ignore_ascii_case peer ''MXC-Loopback'') \<and>
    (proxy_is_enabled (network_proxy p) \<longrightarrow>
       (\<exists>i. network_ingress p = Some i \<and> in_default i = Allow \<and>
          (in_host_loopback i = Allow \<longleftrightarrow> allowed_proxy_peer p = None)))"
proof -
  obtain peer p1 where c: "convert_allowed_proxy_peer (ns_process_container sections) = Ok peer"
    and s: "parse_network_section api (policy\<lparr>network_specified := ns_network sections \<noteq> None,
           allowed_proxy_peer := peer\<rparr>) (ns_network sections) = Ok p1"
    and r: "parse_runtime_proxy url p1 (ns_runtime sections) ProcessContainer = Ok p"
    and v: "validate_proxy_policy p ProcessContainer = Ok ()"
    using assms by (rule parse_network_policy_Ok)
  have peer: "allowed_proxy_peer p = peer"
    using parse_network_section_Ok(2) [OF s] parse_runtime_proxy_Ok(3) [OF r] by simp
  have blank: "\<not> trim_is_empty x" if "allowed_proxy_peer p = Some x" for x
    using c that by (auto simp: peer convert_allowed_proxy_peer_def split: option.splits if_splits)
  have v': "validate_process_container_proxy_policy p (proxy_is_enabled (network_proxy p)) = Ok ()"
    using v by (simp add: validate_proxy_policy_def Let_def split: if_splits)
  then have "\<not> eq_ignore_ascii_case x ''MXC-Loopback'' \<and> proxy_is_enabled (network_proxy p)"
    if "allowed_proxy_peer p = Some x" for x
    using that by (auto simp: validate_process_container_proxy_policy_def split: if_splits)
  moreover have "\<exists>i. network_ingress p = Some i \<and> in_default i = Allow \<and>
      (in_host_loopback i = Allow \<longleftrightarrow> allowed_proxy_peer p = None)"
    if "proxy_is_enabled (network_proxy p)"
    using v' that
    by (auto simp: validate_process_container_proxy_policy_def
        split: if_splits option.splits NetworkAction.splits bool.splits)
  ultimately show ?thesis using blank by blast
qed

theorem process_container_proxy_consistent_witness:
  "\<exists>api url p. parse_network_policy api url ContainerPolicy_default
     \<lparr>ns_network = Some \<lparr>w_egress = None, w_ingress = Some \<lparr>w_in_default = Some W_Allow,
        w_in_host_loopback = None\<rparr>\<rparr>,
      ns_runtime = Some \<lparr>w_network_proxy = Some ''http://localhost:8080''\<rparr>,
      ns_process_container = Some \<lparr>w_allowed_proxy_peer = Some ''Contoso.Proxy_1''\<rparr>\<rparr>
     ProcessContainer = Ok p \<and> proxy_is_enabled (network_proxy p)"
proof -
  let ?s = "\<lparr>ns_network = Some \<lparr>w_egress = None, w_ingress = Some \<lparr>w_in_default = Some W_Allow,
        w_in_host_loopback = None\<rparr>\<rparr>,
      ns_runtime = Some \<lparr>w_network_proxy = Some ''http://localhost:8080''\<rparr>,
      ns_process_container = Some \<lparr>w_allowed_proxy_peer = Some ''Contoso.Proxy_1''\<rparr>\<rparr>"
  let ?api = "undefined :: cidr_api"
  let ?url = "\<lambda>s :: string. (Ok \<lparr>url_scheme = ''http'', url_host_str = Some ''localhost'',
      url_port = Some 8080\<rparr> :: string + Url)"
  have l: "host_is_canonical_loopback ''localhost''"
    by (simp add: host_is_canonical_loopback_def eq_ignore_ascii_case_def)
  have b: "\<not> trim_is_empty ''Contoso.Proxy_1''" "\<not> eq_ignore_ascii_case ''Contoso.Proxy_1'' ''MXC-Loopback''"
    by (simp_all add: trim_is_empty_def eq_ignore_ascii_case_def)
  have "\<exists>p. parse_network_policy ?api ?url ContainerPolicy_default ?s ProcessContainer = Ok p \<and>
      allowed_proxy_peer p = Some ''Contoso.Proxy_1''"
    using l b by (simp add: parse_eval)
  then obtain p where "parse_network_policy ?api ?url ContainerPolicy_default ?s ProcessContainer = Ok p"
    "allowed_proxy_peer p = Some ''Contoso.Proxy_1''" by blast
  with process_container_proxy_consistent [OF this(1)] show ?thesis by blast
qed

end
