(* ===== verification/Cidr_Blocks.thy ===== *)
theory Cidr_Blocks
  imports Prelude
begin

text \<open>
  Arithmetic of CIDR blocks, shared by the two packet-filter back ends: aligned intervals, the
  reference decomposition of an interval minus a set of addresses, the reading of \<open>u128\<close> blocks as
  intervals, and the interface \<open>block_subtraction\<close> that both subtraction routines of the code
  implement. Its lemmas state, once for both, that the routine computes the smallest list of blocks
  covering exactly the addresses left, in address order, and fails exactly when there are too many.
\<close>

unbundle bit_operations_syntax

section \<open>Aligned intervals of natural numbers\<close>

definition span :: "nat \<Rightarrow> nat \<Rightarrow> nat set" where
  "span a k = {a..<a + 2 ^ k}"

lemma span_nonempty [simp]: "a \<in> span a k" "span a k \<noteq> {}"
  by (auto simp: span_def)

lemma span_0 [simp]: "span a 0 = {a}"
  by (auto simp: span_def)

lemma span_Suc: "span a (Suc k) = span a k \<union> span (a + 2 ^ k) k"
  by (auto simp: span_def)

lemma span_halves_disjoint: "span a k \<inter> span (a + 2 ^ k) k = {}"
  by (auto simp: span_def)

lemma multiple_less_add:
  fixes a c m :: nat
  assumes "m dvd a" and "m dvd c" and "c < a + m"
  shows "c \<le> a"
proof -
  obtain x y where xy: "a = m * x" "c = m * y" using assms(1,2) by (auto elim!: dvdE)
  with assms(3) have "m * y < m * (x + 1)" by simp
  then have "y < x + 1" by (metis mult_less_cancel1)
  then show ?thesis by (simp add: xy)
qed

text \<open>CIDR blocks nest or are disjoint.\<close>

lemma span_nested_or_disjoint:
  assumes "2 ^ k dvd a" and "2 ^ j dvd c" and "k \<le> j"
  shows "span a k \<subseteq> span c j \<or> span a k \<inter> span c j = {}"
proof (cases "a < c + 2 ^ j \<and> c < a + 2 ^ k")
  case True
  have dvd: "(2 ^ k :: nat) dvd 2 ^ j" using assms(3) by (simp add: le_imp_power_dvd)
  then have "2 ^ k dvd c" using assms(2) by (rule dvd_trans)
  with True assms(1) have "c \<le> a" using multiple_less_add by blast
  moreover have "a + 2 ^ k \<le> c + 2 ^ j"
  proof -
    have "2 ^ k dvd a + 2 ^ k" and "2 ^ k dvd c + 2 ^ j"
      using assms(1) dvd \<open>2 ^ k dvd c\<close> by auto
    moreover have "a + 2 ^ k < (c + 2 ^ j) + 2 ^ k" using True by simp
    ultimately show ?thesis using multiple_less_add by blast
  qed
  ultimately show ?thesis by (auto simp: span_def)
next
  case False
  then show ?thesis by (auto simp: span_def)
qed

section \<open>Reference decomposition\<close>

text \<open>
  The part of the interval \<open>span a k\<close> outside \<open>X\<close> as intervals obtained by halving: the
  specification of both subtraction routines of the code.
\<close>

fun pieces :: "nat set \<Rightarrow> nat \<Rightarrow> nat \<Rightarrow> (nat \<times> nat) list" where
  "pieces X a 0 = (if a \<in> X then [] else [(a, 0)])"
| "pieces X a (Suc k) =
     (if span a (Suc k) \<subseteq> X then []
      else if span a (Suc k) \<inter> X = {} then [(a, Suc k)]
      else pieces X a k @ pieces X (a + 2 ^ k) k)"

abbreviation piece_set :: "nat \<times> nat \<Rightarrow> nat set" where
  "piece_set p \<equiv> span (fst p) (snd p)"

lemma pieces_union: "\<Union> (piece_set ` set (pieces X a k)) = span a k - X"
proof (induction k arbitrary: a)
  case 0
  show ?case by auto
next
  case (Suc k)
  show ?case
    by (auto simp: Suc image_Un span_Suc)
qed

lemma pieces_sub: "p \<in> set (pieces X a k) \<Longrightarrow> piece_set p \<subseteq> span a k - X"
  using pieces_union [of X a k] by auto

lemma pieces_disjoint:
  "i < j \<Longrightarrow> j < length (pieces X a k) \<Longrightarrow>
     \<forall>x \<in> piece_set (pieces X a k ! i). \<forall>y \<in> piece_set (pieces X a k ! j). x < y"
proof (induction k arbitrary: a i j)
  case 0
  then show ?case by (cases "a \<in> X") simp_all
next
  case (Suc k)
  let ?l = "pieces X a k" and ?r = "pieces X (a + 2 ^ k) k"
  show ?case
  proof (cases "span a (Suc k) \<subseteq> X \<or> span a (Suc k) \<inter> X = {}")
    case True
    then have "length (pieces X a (Suc k)) \<le> 1" by (cases "span a (Suc k) \<subseteq> X") simp_all
    with Suc.prems show ?thesis by linarith
  next
    case False
    then have eq: "pieces X a (Suc k) = ?l @ ?r" by simp
    consider "j < length ?l" | "i < length ?l" "length ?l \<le> j" | "length ?l \<le> i"
      by linarith
    then show ?thesis
    proof cases
      case 1
      then have nth: "(?l @ ?r) ! i = ?l ! i" "(?l @ ?r) ! j = ?l ! j"
        using Suc.prems(1) by (simp_all add: nth_append)
      from Suc.prems(1) 1 show ?thesis unfolding eq nth by (rule Suc.IH)
    next
      case 2
      have jr: "j - length ?l < length ?r" using Suc.prems(2) 2 unfolding eq by simp
      have l: "piece_set (?l ! i) \<subseteq> span a k" using pieces_sub [OF nth_mem [OF 2(1)]] by auto
      have r: "piece_set (?r ! (j - length ?l)) \<subseteq> span (a + 2 ^ k) k"
        using pieces_sub [OF nth_mem [OF jr]] by auto
      have nth: "(?l @ ?r) ! i = ?l ! i" "(?l @ ?r) ! j = ?r ! (j - length ?l)"
        using 2 by (simp_all add: nth_append)
      have "x < y" if "x \<in> span a k" "y \<in> span (a + 2 ^ k) k" for x y
        using that by (auto simp: span_def)
      with l r show ?thesis unfolding eq nth by blast
    next
      case 3
      have nth: "(?l @ ?r) ! i = ?r ! (i - length ?l)" "(?l @ ?r) ! j = ?r ! (j - length ?l)"
        using 3 Suc.prems(1) by (simp_all add: nth_append)
      have "i - length ?l < j - length ?l" "j - length ?l < length ?r"
        using 3 Suc.prems unfolding eq by simp_all
      then show ?thesis unfolding eq nth by (rule Suc.IH)
    qed
  qed
qed

lemma pieces_aligned:
  "2 ^ k dvd a \<Longrightarrow> p \<in> set (pieces X a k) \<Longrightarrow> 2 ^ snd p dvd fst p \<and> snd p \<le> k"
proof (induction k arbitrary: a)
  case 0
  then show ?case by (auto split: if_splits)
next
  case (Suc k)
  have "2 ^ k dvd a" using Suc.prems(1) by (meson dvd_trans le_imp_power_dvd lessI less_imp_le)
  moreover from this have "2 ^ k dvd a + 2 ^ k" by simp
  ultimately show ?case using Suc.IH Suc.prems by (fastforce split: if_splits)
qed

text \<open>Every aligned block that avoids \<open>X\<close> lies inside one piece.\<close>

lemma pieces_maximal:
  assumes "2 ^ k dvd a" and "2 ^ j dvd c" and "j \<le> k" and "span c j \<subseteq> span a k - X"
  shows "\<exists>p \<in> set (pieces X a k). span c j \<subseteq> piece_set p"
  using assms
proof (induction k arbitrary: a)
  case 0
  then show ?case by auto
next
  case (Suc k)
  have cin: "c \<in> span a (Suc k)" "c \<notin> X" using Suc.prems(4) span_nonempty(1) [of c j] by blast+
  show ?case
  proof (cases "span a (Suc k) \<inter> X = {}")
    case True
    then have "pieces X a (Suc k) = [(a, Suc k)]" using cin by auto
    with Suc.prems(4) show ?thesis by auto
  next
    case False
    have ak: "2 ^ k dvd a" using Suc.prems(1) by (meson dvd_trans le_imp_power_dvd lessI less_imp_le)
    then have bk: "2 ^ k dvd a + 2 ^ k" by simp
    have eq: "pieces X a (Suc k) = pieces X a k @ pieces X (a + 2 ^ k) k" using False cin by auto
    have jk: "j \<le> k"
    proof (rule ccontr)
      assume "\<not> j \<le> k"
      with Suc.prems(3) have "j = Suc k" by simp
      with Suc.prems(1,2) span_nested_or_disjoint [of "Suc k" a "Suc k" c] cin
      have "span a (Suc k) \<subseteq> span c j" using span_nonempty(1) [of c j] by blast
      with Suc.prems(4) False show False by blast
    qed
    from cin consider "c \<in> span a k" | "c \<in> span (a + 2 ^ k) k" by (auto simp: span_Suc)
    then show ?thesis
    proof cases
      case 1
      then have "span c j \<subseteq> span a k"
        using span_nested_or_disjoint [OF Suc.prems(2) ak jk] span_nonempty(1) [of c j] by blast
      with Suc.IH [OF ak Suc.prems(2) jk] Suc.prems(4) show ?thesis unfolding eq by auto
    next
      case 2
      then have "span c j \<subseteq> span (a + 2 ^ k) k"
        using span_nested_or_disjoint [OF Suc.prems(2) bk jk] span_nonempty(1) [of c j] by blast
      with Suc.IH [OF bk Suc.prems(2) jk] Suc.prems(4) show ?thesis unfolding eq by auto
    qed
  qed
qed

lemma pieces_pairwise:
  assumes "p \<in> set (pieces X a k)" and "q \<in> set (pieces X a k)" and "p \<noteq> q"
  shows "piece_set p \<inter> piece_set q = {}"
proof -
  obtain i j where ij: "i < length (pieces X a k)" "j < length (pieces X a k)"
    "p = pieces X a k ! i" "q = pieces X a k ! j"
    using assms(1,2) by (auto simp: in_set_conv_nth)
  with assms(3) consider "i < j" | "j < i" by (cases i j rule: linorder_cases) auto
  then show ?thesis
  proof cases
    case 1
    from pieces_disjoint [OF 1 ij(2)] show ?thesis unfolding ij(3,4) by blast
  next
    case 2
    from pieces_disjoint [OF 2 ij(1)] show ?thesis unfolding ij(3,4) by blast
  qed
qed

lemma distinct_pieces: "distinct (pieces X a k)"
proof -
  have *: "pieces X a k ! i \<noteq> pieces X a k ! j" if "i < j" "j < length (pieces X a k)" for i j
  proof
    assume "pieces X a k ! i = pieces X a k ! j"
    with pieces_disjoint [OF that] span_nonempty(1) show False by (metis less_irrefl)
  qed
  show ?thesis unfolding distinct_conv_nth
  proof (intro allI impI)
    fix i j
    assume "i < length (pieces X a k)" "j < length (pieces X a k)" "i \<noteq> j"
    then show "pieces X a k ! i \<noteq> pieces X a k ! j"
      using * [of i j] * [of j i] by (cases "i < j") auto
  qed
qed

text \<open>No cover of the same addresses by aligned blocks is smaller.\<close>

lemma pieces_minimal:
  assumes "2 ^ k dvd a" and "finite B" and "\<Union> (piece_set ` B) = span a k - X"
    and "\<And>c j. (c, j) \<in> B \<Longrightarrow> 2 ^ j dvd c \<and> j \<le> k"
  shows "length (pieces X a k) \<le> card B"
proof -
  have "\<exists>b \<in> B. piece_set b \<subseteq> piece_set p" if p: "p \<in> set (pieces X a k)" for p
  proof -
    have "fst p \<in> span a k - X" using pieces_sub [OF p] span_nonempty(1) by blast
    with assms(3) obtain c j where b: "(c, j) \<in> B" "fst p \<in> span c j" by fastforce
    then have "span c j \<subseteq> span a k - X" using assms(3) by fastforce
    then obtain q where q: "q \<in> set (pieces X a k)" "span c j \<subseteq> piece_set q"
      using pieces_maximal [OF assms(1), of j c X] assms(4) [OF b(1)] by blast
    have "q = p"
      using pieces_pairwise [OF p q(1)] b(2) q(2) span_nonempty(1) by blast
    with b(1) q(2) show ?thesis by (intro bexI [of _ "(c, j)"]) simp_all
  qed
  then obtain f where f: "\<And>p. p \<in> set (pieces X a k) \<Longrightarrow> f p \<in> B \<and> piece_set (f p) \<subseteq> piece_set p"
    by metis
  have "inj_on f (set (pieces X a k))"
  proof (rule inj_onI, rule ccontr)
    fix p q
    assume pq: "p \<in> set (pieces X a k)" "q \<in> set (pieces X a k)" "f p = f q" "p \<noteq> q"
    have "piece_set p \<inter> piece_set q = {}" using pieces_pairwise pq(1,2,4) by blast
    with f [OF pq(1)] f [OF pq(2)] pq(3) have "piece_set (f p) = {}" by fastforce
    then show False by simp
  qed
  then have "card (set (pieces X a k)) \<le> card B"
    using f assms(2) by (intro card_inj_on_le [of f]) auto
  then show ?thesis by (simp add: distinct_card distinct_pieces)
qed

section \<open>Blocks as words\<close>

text \<open>
  A block of an address family of \<open>w\<close> bits: its first address and its prefix length. It is aligned
  when its host bits are zero and it lies inside the family.
\<close>

definition aligned :: "nat \<Rightarrow> u128 \<Rightarrow> nat \<Rightarrow> bool" where
  "aligned w a p \<longleftrightarrow> p \<le> w \<and> 2 ^ (w - p) dvd unat a \<and> unat a < 2 ^ w"

definition block_span :: "nat \<Rightarrow> u128 \<Rightarrow> nat \<Rightarrow> nat set" where
  "block_span w a p = span (unat a) (w - p)"

lemma dvd_unat_iff_take_bit: "2 ^ k dvd unat (a :: u128) \<longleftrightarrow> take_bit k a = 0"
proof -
  have "2 ^ k dvd unat a \<longleftrightarrow> take_bit k (unat a) = 0" by (simp add: take_bit_eq_0_iff)
  also have "\<dots> \<longleftrightarrow> unat (take_bit k a) = 0" by (simp add: unsigned_take_bit_eq)
  finally show ?thesis by (simp only: unat_eq_0)
qed

lemma span_within_exp:
  assumes "2 ^ k dvd a" and "a < 2 ^ w" and "k \<le> w"
  shows "a + 2 ^ k \<le> (2 :: nat) ^ w"
proof -
  have "2 ^ k dvd (2 :: nat) ^ w" using assms(3) by (simp add: le_imp_power_dvd)
  with assms(1) have "2 ^ k dvd a + 2 ^ k" and "2 ^ k dvd (2 :: nat) ^ w" by auto
  moreover have "a + 2 ^ k < 2 ^ w + 2 ^ k" using assms(2) by simp
  ultimately show ?thesis using multiple_less_add by blast
qed

lemma unat_mask_u128: "k \<le> 128 \<Longrightarrow> unat (mask k :: u128) = 2 ^ k - 1"
proof -
  assume k: "k \<le> 128"
  have "unat (mask k :: u128) = unat (take_bit k (- 1 :: u128))"
    by (simp only: take_bit_minus_one_eq_mask)
  also have "\<dots> = take_bit k (mask 128)"
    by (simp add: unsigned_take_bit_eq unsigned_minus_1_eq_mask del: take_bit_minus_one_eq_mask)
  also have "\<dots> = mask k" using k by (simp only: take_bit_of_mask min_absorb1)
  also have "\<dots> = 2 ^ k - 1" by (rule mask_eq_exp_minus_1)
  finally show ?thesis .
qed

lemma unat_or_mask:
  fixes a :: u128
  assumes "2 ^ k dvd unat a" and "k \<le> 128"
  shows "unat (a OR mask k) = unat a + 2 ^ k - 1"
proof -
  have t: "take_bit k a = 0" using assms(1) by (simp add: dvd_unat_iff_take_bit)
  have "\<not> bit a n \<or> \<not> bit (mask k :: u128) n" for n
  proof (cases "n < k")
    case True
    have "bit (take_bit k a) n \<longleftrightarrow> bit a n" using True by (simp add: bit_take_bit_iff)
    with t show ?thesis by simp
  qed (simp add: bit_mask_iff)
  then have or: "a OR mask k = a + mask k" by (simp add: disjunctive_add)
  have m: "unat (mask k :: u128) = 2 ^ k - 1" using assms(2) by (rule unat_mask_u128)
  have "unat a + 2 ^ k \<le> 2 ^ 128"
    using span_within_exp [OF assms(1) _ assms(2)] unsigned_less [of a] by simp
  then have "unat a + (2 ^ k - 1) < 2 ^ LENGTH(128)"
    using zero_less_power [of "2 :: nat" k] by simp
  then show ?thesis
    unfolding or using m by (simp add: unat_word_ariths(1))
qed

lemma aligned_last:
  assumes "aligned w a p" and "w \<le> 128"
  shows "unat (a OR mask (w - p)) = unat a + 2 ^ (w - p) - 1"
  using assms by (intro unat_or_mask) (auto simp: aligned_def)

lemma unat_and_not_mask: "unat (a AND NOT (mask k) :: u128) = unat a - unat a mod 2 ^ k"
proof -
  have "a = (a AND NOT (mask k)) + take_bit k a"
    by (simp add: disjunctive_add bit_simps take_bit_eq_mask flip: bit.conj_disj_distrib)
  then have "a AND NOT (mask k) = a - take_bit k a" by (metis add_diff_cancel_right')
  moreover have "take_bit k a \<le> a"
    by (metis take_bit_eq_mask word_and_le2)
  moreover have "unat (take_bit k a) = unat a mod 2 ^ k"
    unfolding unsigned_take_bit_eq by (rule take_bit_eq_mod)
  ultimately show ?thesis by (simp only: unat_sub)
qed

lemma aligned_mask_base:
  assumes "p \<le> w" and "unat a < 2 ^ w"
  shows "aligned w (a AND NOT (mask (w - p))) p"
proof -
  have "unat a - unat a mod 2 ^ (w - p) < 2 ^ w" using assms(2) by (rule le_less_trans [rotated]) simp
  with assms(1) show ?thesis
    by (simp add: aligned_def unat_and_not_mask)
qed

lemma interval_iff_div:
  fixes x q m :: nat
  assumes "0 < m"
  shows "x \<in> {m * q..<m * q + m} \<longleftrightarrow> x div m = q"
proof
  assume "x \<in> {m * q..<m * q + m}"
  then show "x div m = q" by (intro div_nat_eqI) (auto simp: mult.commute)
next
  assume q: "x div m = q"
  have "x = m * q + x mod m" unfolding q [symmetric] by (rule mult_div_mod_eq [symmetric])
  moreover have "x mod m < m" using assms by simp
  ultimately show "x \<in> {m * q..<m * q + m}" unfolding atLeastLessThan_iff by linarith
qed

lemma block_span_mask_base:
  "x \<in> block_span w (a AND NOT (mask (w - p))) p \<longleftrightarrow>
     x div 2 ^ (w - p) = unat a div 2 ^ (w - p)"
proof -
  have b: "unat (a AND NOT (mask (w - p))) = 2 ^ (w - p) * (unat a div 2 ^ (w - p))"
    unfolding unat_and_not_mask by (rule minus_mod_eq_mult_div)
  show ?thesis
    unfolding block_span_def span_def b by (rule interval_iff_div) simp
qed

lemma aligned_span_iff:
  assumes "aligned w a p"
  shows "x \<in> block_span w a p \<longleftrightarrow> x div 2 ^ (w - p) = unat a div 2 ^ (w - p)"
proof -
  obtain q where q: "unat a = 2 ^ (w - p) * q" using assms by (auto simp: aligned_def)
  have "x \<in> block_span w a p \<longleftrightarrow> x \<in> {2 ^ (w - p) * q..<2 ^ (w - p) * q + 2 ^ (w - p)}"
    by (simp add: block_span_def span_def q)
  also have "\<dots> \<longleftrightarrow> x div 2 ^ (w - p) = q" by (rule interval_iff_div) simp
  finally show ?thesis by (simp add: q)
qed

lemma div_div_mono:
  fixes x y :: nat
  assumes "x div 2 ^ j = y div 2 ^ j" and "j \<le> k"
  shows "x div 2 ^ k = y div 2 ^ k"
proof -
  have "x div 2 ^ k = x div 2 ^ j div 2 ^ (k - j)" for x :: nat
    using assms(2) by (simp add: div_mult2_eq [symmetric] power_add [symmetric])
  with assms(1) show ?thesis by simp
qed

lemma word_le_iff_unat: "(a :: u128) \<le> b \<longleftrightarrow> unat a \<le> unat b"
  by (simp add: word_le_nat_alt)

lemma contains_iff_span:
  assumes "aligned w a p" and "aligned w b q" and "w \<le> 128"
  shows "a \<le> b \<and> b OR mask (w - q) \<le> a OR mask (w - p) \<longleftrightarrow> block_span w b q \<subseteq> block_span w a p"
proof -
  have pos: "0 < (2 :: nat) ^ (w - q)" "0 < (2 :: nat) ^ (w - p)" by simp_all
  have "x \<le> u \<and> u + n - 1 \<le> x + m - 1 \<longleftrightarrow> {u..<u + n} \<subseteq> {x..<x + m}"
    if "0 < m" "0 < n" for x m u n :: nat
    using that by (auto simp: ivl_subset)
  from this [OF pos(2,1)] show ?thesis
    unfolding word_le_iff_unat aligned_last [OF assms(1,3)] aligned_last [OF assms(2,3)]
      block_span_def span_def by simp
qed

lemma intersects_iff_span:
  assumes "aligned w a p" and "aligned w b q" and "w \<le> 128"
  shows "a \<le> b OR mask (w - q) \<and> b \<le> a OR mask (w - p) \<longleftrightarrow> block_span w a p \<inter> block_span w b q \<noteq> {}"
proof -
  have pos: "0 < (2 :: nat) ^ (w - q)" "0 < (2 :: nat) ^ (w - p)" by simp_all
  have "{x..<x + m} \<inter> {u..<u + n} \<noteq> {} \<longleftrightarrow> x \<le> u + n - 1 \<and> u \<le> x + m - 1"
    if "0 < m" "0 < n" for x m u n :: nat
  proof -
    have "{x..<x + m} \<inter> {u..<u + n} = {max x u..<min (x + m) (u + n)}" by (rule Int_atLeastLessThan)
    with that show ?thesis by auto
  qed
  from this [OF pos(2,1)] show ?thesis
    unfolding word_le_iff_unat aligned_last [OF assms(1,3)] aligned_last [OF assms(2,3)]
      block_span_def span_def by simp
qed

lemma span_subset_le: "span a j \<subseteq> span b k \<Longrightarrow> j \<le> k"
proof -
  assume "span a j \<subseteq> span b k"
  then have "card (span a j) \<le> card (span b k)" by (rule card_mono [rotated]) (simp add: span_def)
  then show ?thesis by (simp add: span_def)
qed

section \<open>The subtraction interface\<close>

lemma aligned_split:
  assumes "aligned w a p" and "p < w" and "w \<le> 128"
  shows "aligned w a (Suc p)" and "aligned w (a + (mask (w - Suc p) + 1)) (Suc p)"
    and "unat (a + (mask (w - Suc p) + 1)) = unat a + 2 ^ (w - Suc p)"
proof -
  define k where "k = w - Suc p"
  have wp: "w - p = Suc k" using assms(2) by (simp add: k_def)
  have k: "k < 128" using assms(2,3) by (simp add: k_def)
  have d: "2 ^ Suc k dvd unat a" and lt: "unat a < 2 ^ w"
    using assms(1) by (auto simp: aligned_def wp)
  have le: "unat a + 2 ^ Suc k \<le> 2 ^ w"
    using span_within_exp [OF d lt] assms(2) by (simp add: k_def)
  have dk: "2 ^ k dvd unat a" using d by (rule dvd_trans [rotated]) simp
  show "aligned w a (Suc p)" using dk lt assms(2) by (simp add: aligned_def k_def)
  have m: "mask k + 1 = (2 ^ k :: u128)" by (simp add: mask_eq_exp_minus_1)
  have "(2 :: nat) ^ k < 2 ^ 128" using k by (rule power_strict_increasing) simp
  then have u: "unat (2 ^ k :: u128) = 2 ^ k"
    using unat_of_nat [of "2 ^ k", where 'a = 128] by simp
  have "(2 :: nat) ^ w \<le> 2 ^ 128" using assms(3) by (rule power_increasing) simp
  moreover have ltk: "unat a + 2 ^ k < unat a + 2 ^ Suc k" by simp
  ultimately have "unat a + 2 ^ k < 2 ^ 128"
    using le by (meson less_le_trans)
  then have s: "unat (a + (mask k + 1)) = unat a + 2 ^ k"
    unfolding m by (simp add: unat_word_ariths(1) u)
  then show "unat (a + (mask (w - Suc p) + 1)) = unat a + 2 ^ (w - Suc p)" by (simp add: k_def)
  have "2 ^ k dvd unat (a + (mask k + 1))" unfolding s using dk by simp
  moreover have "unat (a + (mask k + 1)) < 2 ^ w"
    unfolding s using ltk le by (rule less_le_trans)
  ultimately show "aligned w (a + (mask (w - Suc p) + 1)) (Suc p)"
    using assms(2) by (simp add: aligned_def k_def)
qed

lemma pieces_subset_Nil: "span a k \<subseteq> X \<Longrightarrow> pieces X a k = []"
  by (cases k) auto

lemma pieces_disjoint_single: "span a k \<inter> X = {} \<Longrightarrow> pieces X a k = [(a, k)]"
proof (cases k)
  case (Suc j)
  assume d: "span a k \<inter> X = {}"
  then have "\<not> span a (Suc j) \<subseteq> X" using span_nonempty(1) [of a "Suc j"] Suc by blast
  with d Suc show ?thesis by simp
qed auto

lemma pieces_split:
  assumes "span a (Suc k) \<inter> X \<noteq> {}"
  shows "pieces X a (Suc k) = pieces X a k @ pieces X (a + 2 ^ k) k"
proof (cases "span a (Suc k) \<subseteq> X")
  case True
  then show ?thesis using pieces_subset_Nil [of _ k X] by (simp add: span_Suc)
next
  case False
  with assms show ?thesis by simp
qed

locale block_subtraction =
  fixes w :: nat
    and base :: "'b \<Rightarrow> u128"
    and plen :: "'b \<Rightarrow> nat"
    and mk :: "u128 \<Rightarrow> nat \<Rightarrow> 'b"
    and contains :: "'b \<Rightarrow> 'b \<Rightarrow> bool"
    and intersects :: "'b \<Rightarrow> 'b \<Rightarrow> bool"
    and too_many :: 'e
    and subtract :: "'b \<Rightarrow> 'b list \<Rightarrow> 'b list \<Rightarrow> nat \<Rightarrow> 'e + 'b list \<times> nat"
  assumes width: "w \<le> 128"
    and base_mk: "base (mk a p) = a"
    and plen_mk: "plen (mk a p) = p"
    and mk_eta: "mk (base b) (plen b) = b"
    and contains_law:
      "aligned w (base e) (plen e) \<Longrightarrow> aligned w (base b) (plen b) \<Longrightarrow>
         contains e b \<longleftrightarrow> block_span w (base b) (plen b) \<subseteq> block_span w (base e) (plen e)"
    and intersects_law:
      "aligned w (base e) (plen e) \<Longrightarrow> aligned w (base b) (plen b) \<Longrightarrow>
         intersects e b \<longleftrightarrow> block_span w (base e) (plen e) \<inter> block_span w (base b) (plen b) \<noteq> {}"
    and subtract_unfold:
      "subtract b xs out rem =
         (if \<exists>e \<in> set xs. contains e b then Ok (out, rem)
          else if \<not> (\<exists>e \<in> set xs. intersects e b) then
            (if rem = 0 then Err too_many else Ok (out @ [b], rem - 1))
          else if w \<le> plen b then Ok (out, rem)
          else and_then (subtract (mk (base b) (plen b + 1)) xs out rem)
            (\<lambda>(out', rem').
               subtract (mk (base b + (mask (w - (plen b + 1)) + 1)) (plen b + 1)) xs out' rem'))"
begin

definition wf_block :: "'b \<Rightarrow> bool" where
  "wf_block b \<longleftrightarrow> aligned w (base b) (plen b)"

definition addrs :: "'b \<Rightarrow> nat set" where
  "addrs b = block_span w (base b) (plen b)"

definition of_piece :: "nat \<times> nat \<Rightarrow> 'b" where
  "of_piece p = mk (of_nat (fst p)) (w - snd p)"

definition left_over :: "'b \<Rightarrow> 'b list \<Rightarrow> 'b list" where
  "left_over b xs =
     map of_piece (pieces (\<Union> (addrs ` set xs)) (unat (base b)) (w - plen b))"

lemma of_piece_block: "wf_block b \<Longrightarrow> of_piece (unat (base b), w - plen b) = b"
  by (simp add: of_piece_def wf_block_def aligned_def mk_eta)

text \<open>The routine is the reference decomposition, cut off by the budget.\<close>

lemma subtract_eq:
  assumes "wf_block b" and "\<forall>e \<in> set xs. wf_block e"
  shows "subtract b xs out rem =
    (if length (left_over b xs) \<le> rem
     then Ok (out @ left_over b xs, rem - length (left_over b xs)) else Err too_many)"
  using assms(1)
proof (induction "w - plen b" arbitrary: b out rem)
  case 0
  define X where "X = \<Union> (addrs ` set xs)"
  have b: "aligned w (base b) (plen b)" using 0(2) by (simp add: wf_block_def)
  have a: "addrs b = {unat (base b)}" using 0(1) by (simp add: addrs_def block_span_def)
  have con: "(\<exists>e \<in> set xs. contains e b) \<longleftrightarrow> unat (base b) \<in> X"
    using assms(2) contains_law [OF _ b] a by (auto simp: wf_block_def X_def addrs_def)
  have int: "(\<exists>e \<in> set xs. intersects e b) \<longleftrightarrow> unat (base b) \<in> X"
    using assms(2) intersects_law [OF _ b] a by (auto simp: wf_block_def X_def addrs_def)
  have lo: "left_over b xs = (if unat (base b) \<in> X then [] else [b])"
    using 0(1) of_piece_block [OF 0(2)] by (simp add: left_over_def X_def)
  show ?case
    unfolding subtract_unfold [of b] con int lo by auto
next
  case (Suc k)
  define X where "X = \<Union> (addrs ` set xs)"
  define c1 where "c1 = mk (base b) (plen b + 1)"
  define c2 where "c2 = mk (base b + (mask (w - (plen b + 1)) + 1)) (plen b + 1)"
  have b: "aligned w (base b) (plen b)" using Suc(3) by (simp add: wf_block_def)
  have lt: "plen b < w" and k: "k = w - Suc (plen b)" and wk: "w - plen b = Suc k"
    using Suc(2) by auto
  have c1: "wf_block c1" "k = w - plen c1" "unat (base c1) = unat (base b)"
    using aligned_split(1) [OF b lt width] k by (auto simp: wf_block_def c1_def base_mk plen_mk)
  have c2: "wf_block c2" "k = w - plen c2" "unat (base c2) = unat (base b) + 2 ^ k"
    using aligned_split(2,3) [OF b lt width] k by (auto simp: wf_block_def c2_def base_mk plen_mk)
  have con: "(\<exists>e \<in> set xs. contains e b) \<longleftrightarrow> (\<exists>e \<in> set xs. addrs b \<subseteq> addrs e)"
    using assms(2) contains_law [OF _ b] by (auto simp: wf_block_def addrs_def)
  have int: "(\<exists>e \<in> set xs. intersects e b) \<longleftrightarrow> addrs b \<inter> X \<noteq> {}"
    using assms(2) intersects_law [OF _ b] by (fastforce simp: wf_block_def X_def addrs_def)
  have ab: "addrs b = span (unat (base b)) (Suc k)" by (simp add: addrs_def block_span_def wk)
  consider (inside) "\<exists>e \<in> set xs. addrs b \<subseteq> addrs e"
    | (apart) "addrs b \<inter> X = {}"
    | (split) "\<not> (\<exists>e \<in> set xs. addrs b \<subseteq> addrs e)" "addrs b \<inter> X \<noteq> {}"
    by blast
  then show ?case
  proof cases
    case inside
    then have "left_over b xs = []"
      using pieces_subset_Nil [of "unat (base b)" "Suc k" X] ab
      by (auto simp: left_over_def wk X_def)
    with inside con show ?thesis by (simp add: subtract_unfold [of b])
  next
    case apart
    then have lo: "left_over b xs = [b]"
      using pieces_disjoint_single [of "unat (base b)" "Suc k" X] of_piece_block [OF Suc(3)] ab
      by (simp add: left_over_def wk X_def)
    have "\<not> (\<exists>e \<in> set xs. contains e b)"
      using apart con ab span_nonempty(1) [of "unat (base b)" "Suc k"] unfolding X_def by blast
    with apart int lo show ?thesis by (auto simp: subtract_unfold [of b])
  next
    case split
    have lo: "left_over b xs = left_over c1 xs @ left_over c2 xs"
      using pieces_split [of "unat (base b)" k X] split(2) c1 c2 ab wk
      by (simp add: left_over_def X_def)
    have "subtract b xs out rem = and_then (subtract c1 xs out rem)
        (\<lambda>(out', rem'). subtract c2 xs out' rem')"
      using split con int lt by (simp add: subtract_unfold [of b] c1_def c2_def)
    also have "\<dots> = (if length (left_over b xs) \<le> rem
        then Ok (out @ left_over b xs, rem - length (left_over b xs)) else Err too_many)"
      unfolding Suc(1) [OF c1(2,1)] using Suc(1) [OF c2(2,1)] by (auto simp: lo)
    finally show ?thesis .
  qed
qed

lemma of_piece_wf:
  assumes "wf_block b" and "p \<in> set (pieces X (unat (base b)) (w - plen b))"
  shows "wf_block (of_piece p)" and "addrs (of_piece p) = piece_set p"
    and "plen b \<le> plen (of_piece p)"
proof -
  have b: "2 ^ (w - plen b) dvd unat (base b)" "plen b \<le> w" "unat (base b) < 2 ^ w"
    using assms(1) by (auto simp: wf_block_def aligned_def)
  from pieces_aligned [OF b(1) assms(2)]
  have p: "2 ^ snd p dvd fst p" "snd p \<le> w - plen b" by auto
  have "fst p \<in> span (unat (base b)) (w - plen b)"
    using pieces_sub [OF assms(2)] span_nonempty(1) by blast
  then have lt: "fst p < 2 ^ w"
    using span_within_exp [OF b(1,3)] by (auto simp: span_def)
  have "(2 :: nat) ^ w \<le> 2 ^ 128" using width by (rule power_increasing) simp
  with lt have u: "unat (of_nat (fst p) :: u128) = fst p" by (simp add: unat_of_nat)
  show "wf_block (of_piece p)" "addrs (of_piece p) = piece_set p" "plen b \<le> plen (of_piece p)"
    using p lt u b(2)
    by (auto simp: wf_block_def aligned_def of_piece_def base_mk plen_mk addrs_def block_span_def)
qed

lemma left_over_addrs:
  assumes "wf_block b"
  shows "\<Union> (addrs ` set (left_over b xs)) = addrs b - \<Union> (addrs ` set xs)"
proof -
  let ?P = "pieces (\<Union> (addrs ` set xs)) (unat (base b)) (w - plen b)"
  have "\<Union> (addrs ` set (left_over b xs)) = \<Union> (piece_set ` set ?P)"
    using of_piece_wf(2) [OF assms] by (auto simp: left_over_def)
  also have "\<dots> = addrs b - \<Union> (addrs ` set xs)"
    unfolding pieces_union by (simp add: addrs_def block_span_def)
  finally show ?thesis .
qed

lemma left_over_wf:
  "wf_block b \<Longrightarrow> c \<in> set (left_over b xs) \<Longrightarrow> wf_block c \<and> plen b \<le> plen c"
  using of_piece_wf(1,3) by (auto simp: left_over_def)

lemma left_over_ordered:
  assumes "wf_block b" and "i < j" and "j < length (left_over b xs)"
    and "x \<in> addrs (left_over b xs ! i)" and "y \<in> addrs (left_over b xs ! j)"
  shows "x < y"
proof -
  let ?P = "pieces (\<Union> (addrs ` set xs)) (unat (base b)) (w - plen b)"
  have ij: "i < length ?P" "j < length ?P" using assms(2,3) by (auto simp: left_over_def)
  then have "x \<in> piece_set (?P ! i)" "y \<in> piece_set (?P ! j)"
    using assms(4,5) of_piece_wf(2) [OF assms(1) nth_mem] by (auto simp: left_over_def)
  with pieces_disjoint [OF assms(2) ij(2)] show ?thesis by blast
qed

lemma plen_mono: "wf_block b \<Longrightarrow> wf_block c \<Longrightarrow> addrs c \<subseteq> addrs b \<Longrightarrow> plen b \<le> plen c"
  using span_subset_le [of "unat (base c)" "w - plen c" "unat (base b)" "w - plen b"]
  by (auto simp: wf_block_def aligned_def addrs_def block_span_def)

lemma left_over_minimal:
  assumes "wf_block b" and "\<forall>c \<in> set cs. wf_block c"
    and "\<Union> (addrs ` set cs) = addrs b - \<Union> (addrs ` set xs)"
  shows "length (left_over b xs) \<le> length cs"
proof -
  define B where "B = (\<lambda>c. (unat (base c), w - plen c)) ` set cs"
  have "\<Union> (piece_set ` B) = \<Union> (addrs ` set cs)"
    by (auto simp: B_def addrs_def block_span_def)
  then have cover: "\<Union> (piece_set ` B) = span (unat (base b)) (w - plen b) - \<Union> (addrs ` set xs)"
    using assms(3) by (simp add: addrs_def block_span_def)
  have "plen b \<le> plen c" if "c \<in> set cs" for c
  proof (rule plen_mono [OF assms(1)])
    show "wf_block c" using assms(2) that by (rule bspec)
    have "addrs c \<subseteq> \<Union> (addrs ` set cs)" using that by (rule UN_upper)
    then show "addrs c \<subseteq> addrs b" unfolding assms(3) by (rule order_trans) (rule Diff_subset)
  qed
  then have al: "2 ^ j dvd c \<and> j \<le> w - plen b" if "(c, j) \<in> B" for c j
    using that assms(2) by (auto simp: B_def wf_block_def aligned_def intro: diff_le_mono2)
  have "2 ^ (w - plen b) dvd unat (base b)" using assms(1) by (simp add: wf_block_def aligned_def)
  from pieces_minimal [OF this _ cover al]
  have "length (left_over b xs) \<le> card B" by (simp add: left_over_def B_def)
  also have "card B \<le> length cs"
    unfolding B_def using card_image_le [of "set cs"] card_length [of cs] le_trans by blast
  finally show ?thesis .
qed

lemma subtract_succeeds_iff_cover:
  assumes "wf_block b" and "\<forall>e \<in> set xs. wf_block e"
  shows "is_ok (subtract b xs out rem) \<longleftrightarrow>
    (\<exists>cs. length cs \<le> rem \<and> (\<forall>c \<in> set cs. wf_block c) \<and>
       \<Union> (addrs ` set cs) = addrs b - \<Union> (addrs ` set xs))"
proof
  assume "is_ok (subtract b xs out rem)"
  then have "length (left_over b xs) \<le> rem" by (simp add: subtract_eq [OF assms] split: if_splits)
  then show "\<exists>cs. length cs \<le> rem \<and> (\<forall>c \<in> set cs. wf_block c) \<and>
       \<Union> (addrs ` set cs) = addrs b - \<Union> (addrs ` set xs)"
    using left_over_wf [OF assms(1)] left_over_addrs [OF assms(1)]
    by (intro exI [of _ "left_over b xs"] conjI ballI) simp_all
next
  assume "\<exists>cs. length cs \<le> rem \<and> (\<forall>c \<in> set cs. wf_block c) \<and>
       \<Union> (addrs ` set cs) = addrs b - \<Union> (addrs ` set xs)"
  then obtain cs where "length cs \<le> rem" and "\<forall>c \<in> set cs. wf_block c"
    and "\<Union> (addrs ` set cs) = addrs b - \<Union> (addrs ` set xs)" by (elim exE conjE)
  with left_over_minimal [OF assms(1), of cs xs] have "length (left_over b xs) \<le> rem" by linarith
  then show "is_ok (subtract b xs out rem)" by (simp add: subtract_eq [OF assms])
qed

end

end
