(* ===== verification/Net_Blocks.thy ===== *)
theory Net_Blocks
  imports Models Cidr_Blocks
begin

text \<open>
  CIDR block arithmetic of \<open>network_blocks.rs\<close>: resolving a CIDR to the family and block it is
  programmed in, and removing a peer's exclusions from it. The subtraction routine is shown to
  implement the \<open>block_subtraction\<close> interface, so its result is the smallest block list covering
  exactly the addresses left. Prefix lengths (\<open>u8\<close>) and the block budget (\<open>usize\<close>) are natural numbers:
  every subtraction on them is behind a guard that keeps it from going below zero, as the
  preconditions of the lemmas show.
\<close>

unbundle bit_operations_syntax

section \<open>Blocks\<close>

datatype IpFamily = V4 | V6

fun IpFamily_width :: "IpFamily \<Rightarrow> nat" where
  "IpFamily_width V4 = 32"
| "IpFamily_width V6 = 128"

record AddressBlock =
  ab_base :: u128
  ab_prefix :: nat

definition host_mask :: "nat \<Rightarrow> u128" where
  "host_mask bits = (if bits \<ge> 128 then - 1 else push_bit bits 1 - 1)"

definition AddressBlock_address :: "AddressBlock \<Rightarrow> IpFamily \<Rightarrow> IpAddr" where
  "AddressBlock_address b family =
     (case family of V4 \<Rightarrow> IpV4 (ucast (ab_base b)) | V6 \<Rightarrow> IpV6 (ab_base b))"

definition AddressBlock_last :: "AddressBlock \<Rightarrow> nat \<Rightarrow> u128" where
  "AddressBlock_last b width = ab_base b OR host_mask (width - ab_prefix b)"

definition AddressBlock_contains :: "AddressBlock \<Rightarrow> AddressBlock \<Rightarrow> nat \<Rightarrow> bool" where
  "AddressBlock_contains self inner width \<longleftrightarrow>
     ab_base self \<le> ab_base inner \<and> AddressBlock_last inner width \<le> AddressBlock_last self width"

definition AddressBlock_intersects :: "AddressBlock \<Rightarrow> AddressBlock \<Rightarrow> nat \<Rightarrow> bool" where
  "AddressBlock_intersects self other width \<longleftrightarrow>
     ab_base self \<le> AddressBlock_last other width \<and> ab_base other \<le> AddressBlock_last self width"

definition IPV4_MAPPED_BLOCK :: AddressBlock where
  "IPV4_MAPPED_BLOCK = \<lparr>ab_base = 0xffff00000000, ab_prefix = 96\<rparr>"

definition MAX_BLOCKS_PER_PEER :: nat where
  "MAX_BLOCKS_PER_PEER = 256"

definition MAX_EGRESS_ENTRIES :: nat where
  "MAX_EGRESS_ENTRIES = 65536"

definition cidr_text :: "NetworkCidr \<Rightarrow> string" where
  "cidr_text cidr = show_ip (cidr_address cidr) @ ''/'' @ show_nat (cidr_prefix cidr)"

definition resolve :: "NetworkCidr \<Rightarrow> (IpFamily \<times> AddressBlock) option" where
  "resolve cidr =
     (let (family, raw, prefix) =
        (case cidr_address cidr of
           IpV4 ip \<Rightarrow> (V4, ucast ip, cidr_prefix cidr)
         | IpV6 ip \<Rightarrow>
             (case to_ipv4_mapped ip of
                Some v4 \<Rightarrow>
                  if cidr_prefix cidr \<ge> 96 then (V4, ucast v4, cidr_prefix cidr - 96)
                  else (V6, ip, cidr_prefix cidr)
              | None \<Rightarrow> (V6, ip, cidr_prefix cidr)));
        width = IpFamily_width family
      in if prefix > width then None
         else Some (family,
           \<lparr>ab_base = raw AND NOT (host_mask (width - prefix)), ab_prefix = prefix\<rparr>))"

definition too_many_blocks :: string where
  "too_many_blocks =
     ''a network.egress peer expands into more than '' @ show_nat MAX_BLOCKS_PER_PEER @
     '' address blocks once its 'except' entries are removed. Narrow the peer's CIDR or use '' @
     ''fewer exclusions.''"

function subtract ::
    "AddressBlock \<Rightarrow> AddressBlock list \<Rightarrow> nat \<Rightarrow> AddressBlock list \<Rightarrow> nat
      \<Rightarrow> string + AddressBlock list \<times> nat" where
  "subtract block exclusions width out remaining =
     (if list_ex (\<lambda>excluded. AddressBlock_contains excluded block width) exclusions
      then Ok (out, remaining)
      else if \<not> list_ex (\<lambda>excluded. AddressBlock_intersects excluded block width) exclusions
      then (if remaining = 0 then Err too_many_blocks else Ok (out @ [block], remaining - 1))
      else if ab_prefix block \<ge> width then Ok (out, remaining)
      else
        let child_prefix = ab_prefix block + 1;
            step = host_mask (width - child_prefix) + 1
        in and_then
             (subtract \<lparr>ab_base = ab_base block, ab_prefix = child_prefix\<rparr>
                exclusions width out remaining)
             (\<lambda>(out', remaining').
                subtract \<lparr>ab_base = ab_base block + step, ab_prefix = child_prefix\<rparr>
                  exclusions width out' remaining'))"
  by pat_completeness auto
termination
  by (relation "measure (\<lambda>(b, _, width, _). width - ab_prefix b)") auto

declare subtract.simps [simp del]

definition exclusion_too_wide :: "NetworkPeer \<Rightarrow> NetworkCidr \<Rightarrow> nat \<Rightarrow> string" where
  "exclusion_too_wide peer excluded excluded_width =
     ''network.egress peer '' @ quoted (cidr_text (peer_cidr peer)) @
     '' carries the 'except' entry '' @ quoted (cidr_text excluded) @
     '', whose prefix is wider than its address family (max /'' @ show_nat excluded_width @ '').''"

definition exclusion_other_family :: "NetworkPeer \<Rightarrow> NetworkCidr \<Rightarrow> string" where
  "exclusion_other_family peer excluded =
     ''network.egress peer '' @ quoted (cidr_text (peer_cidr peer)) @
     '' carries the 'except' entry '' @ quoted (cidr_text excluded) @
     '', which is programmed for the other address family and so names no address the peer '' @
     ''covers. State an exclusion inside the peer's own range.''"

definition exclusion_splits_mapped :: "NetworkPeer \<Rightarrow> AddressBlock \<Rightarrow> IpFamily \<Rightarrow> string" where
  "exclusion_splits_mapped peer crossing family =
     ''network.egress peer '' @ quoted (cidr_text (peer_cidr peer)) @
     '' cannot carry an 'except' that splits the IPv4-mapped range: removing it leaves '' @
     quoted (show_ip (AddressBlock_address crossing family) @ ''/'' @
       show_nat (ab_prefix crossing)) @
     '', which is programmed as IPv4 and would open addresses this IPv6 peer never named. '' @
     ''State the IPv4 range as its own peer instead.''"

text \<open>The three loops of \<open>peer_blocks\<close>, then the function.\<close>

definition check_exclusion_width :: "NetworkPeer \<Rightarrow> unit \<Rightarrow> NetworkCidr \<Rightarrow> string + unit" where
  "check_exclusion_width peer u excluded =
     (let excluded_width =
        IpFamily_width (case cidr_address excluded of IpV4 _ \<Rightarrow> V4 | IpV6 _ \<Rightarrow> V6)
      in if cidr_prefix excluded > excluded_width
         then Err (exclusion_too_wide peer excluded excluded_width) else Ok ())"

definition push_exclusion ::
    "NetworkPeer \<Rightarrow> IpFamily \<Rightarrow> AddressBlock list \<Rightarrow> NetworkCidr \<Rightarrow> string + AddressBlock list"
  where
  "push_exclusion peer family exclusions excluded =
     (case resolve excluded of
        None \<Rightarrow> Ok exclusions
      | Some (excluded_family, excluded_block) \<Rightarrow>
          if excluded_family \<noteq> family then Err (exclusion_other_family peer excluded)
          else Ok (exclusions @ [excluded_block]))"

definition refuse_mapped_crossing ::
    "NetworkPeer \<Rightarrow> IpFamily \<Rightarrow> AddressBlock \<Rightarrow> AddressBlock list \<Rightarrow> string + unit" where
  "refuse_mapped_crossing peer family block blocks =
     (if family = V6 \<and> \<not> AddressBlock_contains IPV4_MAPPED_BLOCK block (IpFamily_width family) then
        (case find (\<lambda>c. AddressBlock_contains IPV4_MAPPED_BLOCK c (IpFamily_width family)) blocks of
           Some crossing \<Rightarrow> Err (exclusion_splits_mapped peer crossing family)
         | None \<Rightarrow> Ok ())
      else Ok ())"

definition peer_blocks :: "NetworkPeer \<Rightarrow> string + (IpFamily \<times> AddressBlock list) option" where
  "peer_blocks peer =
     and_then (try_fold (check_exclusion_width peer) () (peer_except peer)) (\<lambda>_.
       case resolve (peer_cidr peer) of
         None \<Rightarrow> Ok None
       | Some (family, block) \<Rightarrow>
           and_then (try_fold (push_exclusion peer family) [] (peer_except peer)) (\<lambda>exclusions.
           and_then (subtract block exclusions (IpFamily_width family) [] MAX_BLOCKS_PER_PEER)
             (\<lambda>(blocks, remaining).
           and_then (refuse_mapped_crossing peer family block blocks) (\<lambda>_.
             Ok (Some (family, blocks))))))"

section \<open>Addresses of blocks and CIDRs\<close>

definition AddressBlock_wf :: "IpFamily \<Rightarrow> AddressBlock \<Rightarrow> bool" where
  "AddressBlock_wf f b \<longleftrightarrow> aligned (IpFamily_width f) (ab_base b) (ab_prefix b)"

definition AddressBlock_addrs :: "IpFamily \<Rightarrow> AddressBlock \<Rightarrow> nat set" where
  "AddressBlock_addrs f b = block_span (IpFamily_width f) (ab_base b) (ab_prefix b)"

text \<open>
  What a CIDR names, read off its text: the addresses that agree with it on the prefix. An IPv6 CIDR
  of length at least 96 inside \<open>::ffff:0:0/96\<close> names the IPv4 addresses embedded there.
\<close>

definition in_mapped_range :: "nat \<Rightarrow> bool" where
  "in_mapped_range a \<longleftrightarrow> a div 2 ^ 32 = 0xffff"

definition cidr_names :: "NetworkCidr \<Rightarrow> IpFamily \<Rightarrow> nat \<Rightarrow> bool" where
  "cidr_names c f x \<longleftrightarrow>
     (let p = cidr_prefix c in
      case cidr_address c of
        IpV4 ip \<Rightarrow> f = V4 \<and> p \<le> 32 \<and> x < 2 ^ 32 \<and> x div 2 ^ (32 - p) = unat ip div 2 ^ (32 - p)
      | IpV6 ip \<Rightarrow>
          if in_mapped_range (unat ip) \<and> 96 \<le> p then
            f = V4 \<and> p \<le> 128 \<and> x < 2 ^ 32 \<and>
            (0xffff * 2 ^ 32 + x) div 2 ^ (128 - p) = unat ip div 2 ^ (128 - p)
          else
            f = V6 \<and> p \<le> 128 \<and> x < 2 ^ 128 \<and> x div 2 ^ (128 - p) = unat ip div 2 ^ (128 - p))"

definition peer_names :: "NetworkPeer \<Rightarrow> IpFamily \<Rightarrow> nat \<Rightarrow> bool" where
  "peer_names peer f x \<longleftrightarrow>
     cidr_names (peer_cidr peer) f x \<and> \<not> (\<exists>e \<in> set (peer_except peer). cidr_names e f x)"

lemma host_mask_eq: "host_mask k = mask k"
proof (cases "k \<ge> 128")
  case True
  have "(mask k :: u128) = take_bit 128 (mask k)"
    using take_bit_length_eq [of "mask k :: u128"] by simp
  also have "\<dots> = mask 128" using True by (simp only: take_bit_of_mask min_absorb1)
  also have "\<dots> = (- 1 :: u128)" by (simp add: mask_eq_exp_minus_1)
  finally show ?thesis using True by (simp add: host_mask_def)
next
  case False
  then show ?thesis by (simp add: host_mask_def mask_eq_exp_minus_1 push_bit_eq_mult)
qed

lemma IpFamily_width_le: "IpFamily_width f \<le> 128"
  by (cases f) simp_all

lemma AddressBlock_contains_iff:
  "AddressBlock_wf f e \<Longrightarrow> AddressBlock_wf f b \<Longrightarrow>
     AddressBlock_contains e b (IpFamily_width f) \<longleftrightarrow> AddressBlock_addrs f b \<subseteq> AddressBlock_addrs f e"
  using contains_iff_span [OF _ _ IpFamily_width_le]
  by (simp add: AddressBlock_contains_def AddressBlock_last_def host_mask_eq AddressBlock_wf_def
      AddressBlock_addrs_def)

lemma AddressBlock_intersects_iff:
  "AddressBlock_wf f e \<Longrightarrow> AddressBlock_wf f b \<Longrightarrow>
     AddressBlock_intersects e b (IpFamily_width f) \<longleftrightarrow>
       AddressBlock_addrs f e \<inter> AddressBlock_addrs f b \<noteq> {}"
  using intersects_iff_span [OF _ _ IpFamily_width_le]
  by (simp add: AddressBlock_intersects_def AddressBlock_last_def host_mask_eq AddressBlock_wf_def
      AddressBlock_addrs_def)

text \<open>The subtraction routine provides the interface, in either family.\<close>

interpretation ab: block_subtraction "IpFamily_width f" ab_base ab_prefix
  "\<lambda>a p. \<lparr>ab_base = a, ab_prefix = p\<rparr>"
  "\<lambda>e b. AddressBlock_contains e b (IpFamily_width f)"
  "\<lambda>e b. AddressBlock_intersects e b (IpFamily_width f)"
  too_many_blocks "\<lambda>b xs out rem. subtract b xs (IpFamily_width f) out rem"
  for f
proof
  fix b :: AddressBlock and xs out rem
  show "subtract b xs (IpFamily_width f) out rem =
     (if \<exists>e \<in> set xs. AddressBlock_contains e b (IpFamily_width f) then Ok (out, rem)
      else if \<not> (\<exists>e \<in> set xs. AddressBlock_intersects e b (IpFamily_width f))
      then if rem = 0 then Err too_many_blocks else Ok (out @ [b], rem - 1)
      else if IpFamily_width f \<le> ab_prefix b then Ok (out, rem)
      else and_then
        (subtract \<lparr>ab_base = ab_base b, ab_prefix = ab_prefix b + 1\<rparr> xs (IpFamily_width f) out rem)
        (\<lambda>(out', rem'). subtract
           \<lparr>ab_base = ab_base b + (mask (IpFamily_width f - (ab_prefix b + 1)) + 1),
            ab_prefix = ab_prefix b + 1\<rparr> xs (IpFamily_width f) out' rem'))"
    by (subst subtract.simps) (simp add: list_ex_iff host_mask_eq Let_def)
next
  fix e b :: AddressBlock
  assume "aligned (IpFamily_width f) (ab_base e) (ab_prefix e)"
    and "aligned (IpFamily_width f) (ab_base b) (ab_prefix b)"
  then have wf: "AddressBlock_wf f e" "AddressBlock_wf f b" by (simp_all add: AddressBlock_wf_def)
  show "AddressBlock_contains e b (IpFamily_width f) \<longleftrightarrow>
      block_span (IpFamily_width f) (ab_base b) (ab_prefix b)
        \<subseteq> block_span (IpFamily_width f) (ab_base e) (ab_prefix e)"
    using AddressBlock_contains_iff [OF wf] by (simp add: AddressBlock_addrs_def)
  show "AddressBlock_intersects e b (IpFamily_width f) \<longleftrightarrow>
      block_span (IpFamily_width f) (ab_base e) (ab_prefix e)
        \<inter> block_span (IpFamily_width f) (ab_base b) (ab_prefix b) \<noteq> {}"
    using AddressBlock_intersects_iff [OF wf] by (simp add: AddressBlock_addrs_def)
qed (simp_all add: IpFamily_width_le)

lemma ab_wf_block [simp]: "ab.wf_block f b \<longleftrightarrow> AddressBlock_wf f b"
  by (simp add: ab.wf_block_def AddressBlock_wf_def)

lemma ab_addrs [simp]: "ab.addrs f b = AddressBlock_addrs f b"
  by (simp add: ab.addrs_def AddressBlock_addrs_def)

section \<open>Resolution\<close>

lemma unat_ucast_u32: "unat (ucast (a :: u32) :: u128) = unat a"
  by (simp add: unsigned_ucast_eq unsigned_take_bit_eq take_bit_nat_eq_self
      less_trans [OF unsigned_less])

lemma unat_low_u32: "unat (ucast (ucast (a :: u128) :: u32) :: u128) = unat a mod 2 ^ 32"
  by (simp add: unat_ucast_u32) (simp add: unsigned_ucast_eq unsigned_take_bit_eq take_bit_eq_mod)

lemma to_ipv4_mapped_iff: "to_ipv4_mapped a \<noteq> None \<longleftrightarrow> in_mapped_range (unat a)"
proof -
  have "drop_bit 32 a = 0xffff \<longleftrightarrow> unat (drop_bit 32 a) = unat (0xffff :: u128)"
    by (rule word_unat_eq_iff)
  also have "unat (drop_bit 32 a) = unat a div 2 ^ 32"
    unfolding unat_drop_bit_eq by (rule drop_bit_eq_div)
  finally show ?thesis by (simp add: to_ipv4_mapped_def in_mapped_range_def)
qed

lemma block_span_base:
  assumes "p \<le> w" and "unat a < 2 ^ w"
  shows "x \<in> block_span w (a AND NOT (mask (w - p))) p \<longleftrightarrow>
    x < 2 ^ w \<and> x div 2 ^ (w - p) = unat a div 2 ^ (w - p)"
proof -
  have "x < 2 ^ w" if "x div 2 ^ (w - p) = unat a div 2 ^ (w - p)"
  proof -
    have "unat a div 2 ^ (w - p) < 2 ^ p"
      using assms(1,2) by (simp add: div_less_iff_less_mult flip: power_add)
    with that have "x div 2 ^ (w - p) < 2 ^ p" by simp
    then show ?thesis using assms(1) by (simp add: div_less_iff_less_mult flip: power_add)
  qed
  then show ?thesis unfolding block_span_mask_base by blast
qed

lemma div_add_multiple:
  fixes m x v k :: nat
  assumes "k dvd m" and "0 < k"
  shows "(m + x) div k = (m + v) div k \<longleftrightarrow> x div k = v div k"
proof -
  obtain q where "m = k * q" using assms(1) ..
  then show ?thesis using assms(2) by simp
qed

lemma resolve_v4:
  assumes "cidr_address c = IpV4 ip" and "resolve c = Some (f, b)"
  shows "AddressBlock_wf f b" and "cidr_names c f' x \<longleftrightarrow> f' = f \<and> x \<in> AddressBlock_addrs f b"
proof -
  have p: "cidr_prefix c \<le> 32" "f = V4"
    and b: "b = \<lparr>ab_base = ucast ip AND NOT (mask (32 - cidr_prefix c)), ab_prefix = cidr_prefix c\<rparr>"
    using assms by (auto simp: resolve_def host_mask_eq Let_def split: if_splits)
  have lt: "unat (ucast ip :: u128) < 2 ^ 32"
    unfolding unat_ucast_u32 using unsigned_less [of ip] by simp
  show "AddressBlock_wf f b"
    using aligned_mask_base [OF p(1) lt] by (simp add: AddressBlock_wf_def b p)
  have "AddressBlock_addrs f b = block_span 32 (ucast ip AND NOT (mask (32 - cidr_prefix c))) (cidr_prefix c)"
    by (simp add: AddressBlock_addrs_def b p)
  then have "x \<in> AddressBlock_addrs f b \<longleftrightarrow>
      x < 2 ^ 32 \<and> x div 2 ^ (32 - cidr_prefix c) = unat ip div 2 ^ (32 - cidr_prefix c)"
    by (simp only: block_span_base [OF p(1) lt] unat_ucast_u32)
  then show "cidr_names c f' x \<longleftrightarrow> f' = f \<and> x \<in> AddressBlock_addrs f b"
    using p by (simp only: cidr_names_def assms(1) Let_def IpAddr.case) blast
qed

lemma resolve_v6_mapped:
  assumes "cidr_address c = IpV6 ip" and "resolve c = Some (f, b)"
    and "in_mapped_range (unat ip)" and "96 \<le> cidr_prefix c"
  shows "AddressBlock_wf f b" and "cidr_names c f' x \<longleftrightarrow> f' = f \<and> x \<in> AddressBlock_addrs f b"
proof -
  obtain v where v: "to_ipv4_mapped ip = Some v" using assms(3) to_ipv4_mapped_iff by blast
  then have uv: "unat (ucast v :: u128) = unat ip mod 2 ^ 32"
    using unat_low_u32 [of ip] by (auto simp: to_ipv4_mapped_def split: if_splits)
  define p where "p = cidr_prefix c - 96"
  have p: "p \<le> 32" "f = V4" "cidr_prefix c = p + 96"
    and b: "b = \<lparr>ab_base = ucast v AND NOT (mask (32 - p)), ab_prefix = p\<rparr>"
    using assms v by (auto simp: resolve_def host_mask_eq Let_def p_def split: if_splits)
  have lt: "unat (ucast v :: u128) < 2 ^ 32" unfolding uv by simp
  show "AddressBlock_wf f b"
    using aligned_mask_base [OF p(1) lt] by (simp add: AddressBlock_wf_def b p)
  have ip: "unat ip = 0xffff * 2 ^ 32 + unat ip mod 2 ^ 32"
    using assms(3) div_mult_mod_eq [of "unat ip" "2 ^ 32"] by (simp add: in_mapped_range_def)
  have "(2 :: nat) ^ (32 - p) dvd 2 ^ 32" by (rule le_imp_power_dvd) simp
  then have d: "(2 :: nat) ^ (32 - p) dvd 0xffff * 2 ^ 32" by (rule dvd_mult)
  have "(0xffff * 2 ^ 32 + x) div 2 ^ (32 - p) = unat ip div 2 ^ (32 - p) \<longleftrightarrow>
      x div 2 ^ (32 - p) = unat (ucast v :: u128) div 2 ^ (32 - p)"
    by (subst ip, subst uv) (rule div_add_multiple [OF d], simp)
  moreover have "AddressBlock_addrs f b = block_span 32 (ucast v AND NOT (mask (32 - p))) p"
    by (simp add: AddressBlock_addrs_def b p)
  moreover have "128 - cidr_prefix c = 32 - p" "cidr_prefix c \<le> 128" using p by simp_all
  ultimately show "cidr_names c f' x \<longleftrightarrow> f' = f \<and> x \<in> AddressBlock_addrs f b"
    using p(2) assms(3,4)
    by (simp only: cidr_names_def assms(1) Let_def IpAddr.case block_span_base [OF p(1) lt]) auto
qed

lemma resolve_v6_plain:
  assumes "cidr_address c = IpV6 ip" and "resolve c = Some (f, b)"
    and "\<not> (in_mapped_range (unat ip) \<and> 96 \<le> cidr_prefix c)"
  shows "AddressBlock_wf f b" and "cidr_names c f' x \<longleftrightarrow> f' = f \<and> x \<in> AddressBlock_addrs f b"
proof -
  have p: "cidr_prefix c \<le> 128" "f = V6"
    and b: "b = \<lparr>ab_base = ip AND NOT (mask (128 - cidr_prefix c)), ab_prefix = cidr_prefix c\<rparr>"
    using assms to_ipv4_mapped_iff [of ip]
    by (auto simp: resolve_def host_mask_eq Let_def split: if_splits option.splits)
  have lt: "unat ip < 2 ^ 128" using unsigned_less [of ip] by simp
  show "AddressBlock_wf f b"
    using aligned_mask_base [OF p(1) lt] by (simp add: AddressBlock_wf_def b p)
  have "AddressBlock_addrs f b = block_span 128 (ip AND NOT (mask (128 - cidr_prefix c))) (cidr_prefix c)"
    by (simp add: AddressBlock_addrs_def b p)
  with p assms(3) show "cidr_names c f' x \<longleftrightarrow> f' = f \<and> x \<in> AddressBlock_addrs f b"
    by (simp only: cidr_names_def assms(1) Let_def IpAddr.case block_span_base [OF p(1) lt]) auto
qed

lemma resolve_Some:
  assumes "resolve c = Some (f, b)"
  shows "AddressBlock_wf f b" and "cidr_names c f' x \<longleftrightarrow> f' = f \<and> x \<in> AddressBlock_addrs f b"
  using resolve_v4 [OF _ assms] resolve_v6_mapped [OF _ assms] resolve_v6_plain [OF _ assms]
  by (cases "cidr_address c"; blast)+

lemma resolve_in_family:
  assumes "\<exists>b. resolve c = Some (f, b)"
  shows "AddressBlock_wf f (snd (the (resolve c)))"
    and "cidr_names c f x \<longleftrightarrow> x \<in> AddressBlock_addrs f (snd (the (resolve c)))"
  using assms resolve_Some by auto

lemma resolve_None:
  "resolve c = None \<longleftrightarrow>
     cidr_prefix c > IpFamily_width (case cidr_address c of IpV4 _ \<Rightarrow> V4 | IpV6 _ \<Rightarrow> V6)"
  by (auto simp: resolve_def Let_def split: IpAddr.splits option.splits)

section \<open>The blocks of a peer\<close>

lemma check_widths_Ok_iff:
  "try_fold (check_exclusion_width peer) () xs = Ok u \<longleftrightarrow> (\<forall>e \<in> set xs. resolve e \<noteq> None)"
  by (induction xs) (auto simp: check_exclusion_width_def resolve_None Let_def result_simps
      split: IpAddr.splits if_splits)

lemma push_exclusions_Ok:
  assumes "try_fold (push_exclusion peer f) acc xs = Ok exclusions"
    and "\<forall>e \<in> set xs. resolve e \<noteq> None"
  shows "exclusions = acc @ map (snd \<circ> the \<circ> resolve) xs \<and>
    (\<forall>e \<in> set xs. \<exists>b. resolve e = Some (f, b))"
  using assms
proof (induction xs arbitrary: acc)
  case (Cons e xs)
  obtain f' b where r: "resolve e = Some (f', b)" using Cons.prems(2) by auto
  then have "push_exclusion peer f acc e =
      (if f' \<noteq> f then Err (exclusion_other_family peer e) else Ok (acc @ [b]))"
    by (simp add: push_exclusion_def)
  with Cons.prems(1) have f: "f' = f"
    and rest: "try_fold (push_exclusion peer f) (acc @ [b]) xs = Ok exclusions"
    by (auto split: if_splits)
  from Cons.IH [OF rest] Cons.prems(2) r f show ?case by simp
qed simp

lemma peer_blocks_Some:
  assumes "peer_blocks peer = Ok (Some (f, bs))"
  obtains b exclusions where "resolve (peer_cidr peer) = Some (f, b)"
    and "exclusions = map (snd \<circ> the \<circ> resolve) (peer_except peer)"
    and "\<forall>e \<in> set (peer_except peer). \<exists>c. resolve e = Some (f, c)"
    and "bs = ab.left_over f b exclusions" and "length bs \<le> MAX_BLOCKS_PER_PEER"
    and "refuse_mapped_crossing peer f b bs = Ok ()"
proof -
  obtain b exclusions rem where r: "resolve (peer_cidr peer) = Some (f, b)"
    and w: "\<forall>e \<in> set (peer_except peer). resolve e \<noteq> None"
    and x: "try_fold (push_exclusion peer f) [] (peer_except peer) = Ok exclusions"
    and s: "subtract b exclusions (IpFamily_width f) [] MAX_BLOCKS_PER_PEER = Ok (bs, rem)"
    and m: "refuse_mapped_crossing peer f b bs = Ok ()"
    using assms by (auto simp: peer_blocks_def result_simps check_widths_Ok_iff split: option.splits)
  note ex = push_exclusions_Ok [OF x w]
  have wf: "AddressBlock_wf f b" "\<forall>e \<in> set exclusions. AddressBlock_wf f e"
    using resolve_Some(1) [OF r] ex resolve_in_family(1) by auto
  have "bs = ab.left_over f b exclusions \<and> length bs \<le> MAX_BLOCKS_PER_PEER"
    using s ab.subtract_eq [of f b exclusions] wf by (auto split: if_splits)
  with that r ex m show ?thesis by auto
qed

lemma peer_blocks_addrs:
  assumes "peer_blocks peer = Ok (Some (f, bs))"
  shows "peer_names peer f' x \<longleftrightarrow> f' = f \<and> (\<exists>b \<in> set bs. x \<in> AddressBlock_addrs f b)"
proof -
  obtain b xs where r: "resolve (peer_cidr peer) = Some (f, b)"
    and xs: "xs = map (snd \<circ> the \<circ> resolve) (peer_except peer)"
    and e: "\<forall>e \<in> set (peer_except peer). \<exists>c. resolve e = Some (f, c)"
    and bs: "bs = ab.left_over f b xs" and "length bs \<le> MAX_BLOCKS_PER_PEER"
    and "refuse_mapped_crossing peer f b bs = Ok ()"
    using assms by (rule peer_blocks_Some)
  have u: "\<Union> (AddressBlock_addrs f ` set bs) = AddressBlock_addrs f b - \<Union> (AddressBlock_addrs f ` set xs)"
    using ab.left_over_addrs [of f b xs] resolve_Some(1) [OF r] bs by simp
  have n: "(\<exists>c \<in> set (peer_except peer). cidr_names c f x) \<longleftrightarrow>
      x \<in> \<Union> (AddressBlock_addrs f ` set xs)"
    using e by (simp add: xs resolve_in_family(2) cong: bex_cong)
  have m: "(\<exists>b \<in> set bs. x \<in> AddressBlock_addrs f b) \<longleftrightarrow>
      x \<in> AddressBlock_addrs f b \<and> \<not> (\<exists>c \<in> set (peer_except peer). cidr_names c f x)"
    unfolding n using eqset_imp_iff [OF u, of x] by simp
  show ?thesis
  proof (cases "f' = f")
    case True
    show ?thesis unfolding peer_names_def True m resolve_Some(2) [OF r] by blast
  next
    case False
    then show ?thesis unfolding peer_names_def resolve_Some(2) [OF r] by blast
  qed
qed

lemma peer_blocks_wf:
  assumes "peer_blocks peer = Ok (Some (f, bs))" and "c \<in> set bs"
  shows "AddressBlock_wf f c"
proof -
  obtain b xs where r: "resolve (peer_cidr peer) = Some (f, b)"
    and xs: "xs = map (snd \<circ> the \<circ> resolve) (peer_except peer)"
    and e: "\<forall>e \<in> set (peer_except peer). \<exists>c. resolve e = Some (f, c)"
    and bs: "bs = ab.left_over f b xs" and "length bs \<le> MAX_BLOCKS_PER_PEER"
    and "refuse_mapped_crossing peer f b bs = Ok ()"
    using assms(1) by (rule peer_blocks_Some)
  have "ab.wf_block f b" using resolve_Some(1) [OF r] by simp
  from ab.left_over_wf [OF this, of c xs] assms(2)
  have "ab.wf_block f c" unfolding bs by blast
  then show ?thesis by (simp only: ab_wf_block)
qed

lemma mapped_block_wf: "AddressBlock_wf V6 IPV4_MAPPED_BLOCK"
  by (simp add: AddressBlock_wf_def IPV4_MAPPED_BLOCK_def aligned_def)

lemma mapped_block_addrs: "AddressBlock_addrs V6 IPV4_MAPPED_BLOCK = {x. in_mapped_range x}"
proof -
  have "AddressBlock_addrs V6 IPV4_MAPPED_BLOCK = {2 ^ 32 * 0xffff..<2 ^ 32 * 0xffff + 2 ^ 32}"
    by (simp add: AddressBlock_addrs_def IPV4_MAPPED_BLOCK_def block_span_def span_def)
  then show ?thesis
    using interval_iff_div [of "2 ^ 32" _ "0xffff"] by (auto simp: in_mapped_range_def)
qed

lemma refuse_mapped_crossing_Ok:
  "refuse_mapped_crossing peer V6 block blocks = Ok () \<Longrightarrow>
   \<not> AddressBlock_contains IPV4_MAPPED_BLOCK block 128 \<Longrightarrow> c \<in> set blocks \<Longrightarrow>
   \<not> AddressBlock_contains IPV4_MAPPED_BLOCK c 128"
  by (auto simp: refuse_mapped_crossing_def find_None_iff split: option.splits)

lemmas block_eval = subtract.simps AddressBlock_contains_def AddressBlock_intersects_def
  AddressBlock_last_def host_mask_def resolve_def to_ipv4_mapped_def peer_blocks_def
  check_exclusion_width_def push_exclusion_def refuse_mapped_crossing_def IPV4_MAPPED_BLOCK_def
  MAX_BLOCKS_PER_PEER_def Let_def

section \<open>Properties\<close>

text \<open>
  C4: \<open>subtract\<close> computes the set difference. For a block and exclusions whose bases are aligned to
  their prefixes, a successful run returns aligned blocks that together cover exactly the addresses of
  the block that no exclusion covers, in strictly increasing address order (so pairwise disjoint),
  and uses up one unit of the budget per block returned.
\<close>

theorem subtract_exact:
  assumes "AddressBlock_wf f b" and "\<forall>e \<in> set xs. AddressBlock_wf f e"
    and "subtract b xs (IpFamily_width f) [] rem = Ok (bs, rem')"
  shows "\<Union> (AddressBlock_addrs f ` set bs) =
      AddressBlock_addrs f b - \<Union> (AddressBlock_addrs f ` set xs) \<and>
    (\<forall>c \<in> set bs. AddressBlock_wf f c) \<and>
    (\<forall>i j x y. i < j \<longrightarrow> j < length bs \<longrightarrow> x \<in> AddressBlock_addrs f (bs ! i) \<longrightarrow>
      y \<in> AddressBlock_addrs f (bs ! j) \<longrightarrow> x < y) \<and>
    length bs + rem' = rem"
proof (intro conjI)
  have wf: "ab.wf_block f b" "\<forall>e \<in> set xs. ab.wf_block f e" using assms(1,2) by simp_all
  have bs: "bs = ab.left_over f b xs" and len: "length bs + rem' = rem"
    using assms(3) ab.subtract_eq [OF wf, of "[]" rem] by (auto split: if_splits)
  show "length bs + rem' = rem" by (fact len)
  show "\<Union> (AddressBlock_addrs f ` set bs) =
      AddressBlock_addrs f b - \<Union> (AddressBlock_addrs f ` set xs)"
    using ab.left_over_addrs [OF wf(1), of xs] by (simp add: bs)
  show "\<forall>c \<in> set bs. AddressBlock_wf f c"
    using ab.left_over_wf [OF wf(1), of _ xs, unfolded ab_wf_block] unfolding bs by blast
  show "\<forall>i j x y. i < j \<longrightarrow> j < length bs \<longrightarrow> x \<in> AddressBlock_addrs f (bs ! i) \<longrightarrow>
      y \<in> AddressBlock_addrs f (bs ! j) \<longrightarrow> x < y"
    using ab.left_over_ordered [OF wf(1), of _ _ xs, unfolded ab_addrs] unfolding bs by blast
qed

theorem subtract_exact_witness:
  "AddressBlock_wf V4 \<lparr>ab_base = 0x0A000000, ab_prefix = 30\<rparr> \<and>
   AddressBlock_wf V4 \<lparr>ab_base = 0x0A000001, ab_prefix = 32\<rparr> \<and>
   AddressBlock_addrs V4 \<lparr>ab_base = 0x0A000000, ab_prefix = 32\<rparr> \<union>
   AddressBlock_addrs V4 \<lparr>ab_base = 0x0A000002, ab_prefix = 31\<rparr> =
   AddressBlock_addrs V4 \<lparr>ab_base = 0x0A000000, ab_prefix = 30\<rparr> -
   AddressBlock_addrs V4 \<lparr>ab_base = 0x0A000001, ab_prefix = 32\<rparr>"
proof -
  let ?b = "\<lparr>ab_base = 0x0A000000, ab_prefix = 30\<rparr> :: AddressBlock"
  let ?e = "\<lparr>ab_base = 0x0A000001, ab_prefix = 32\<rparr> :: AddressBlock"
  have wf: "AddressBlock_wf V4 ?b" "AddressBlock_wf V4 ?e"
    by (simp_all add: AddressBlock_wf_def aligned_def)
  have run: "subtract ?b [?e] (IpFamily_width V4) [] 4 =
      Ok ([\<lparr>ab_base = 0x0A000000, ab_prefix = 32\<rparr>, \<lparr>ab_base = 0x0A000002, ab_prefix = 31\<rparr>], 2)"
    by (simp add: block_eval)
  have "\<forall>e \<in> set [?e]. AddressBlock_wf V4 e" using wf(2) by simp
  from conjunct1 [OF subtract_exact [OF wf(1) this run]] show ?thesis using wf by simp
qed

text \<open>
  C22: \<open>subtract\<close> fails only when it must. It returns an error exactly when no list of at most
  \<open>rem\<close> aligned blocks covers the remaining addresses, so the block list it builds is a smallest one and
  the ceiling never refuses a policy that could have been expressed within it.
\<close>

theorem subtract_succeeds_iff:
  assumes "AddressBlock_wf f b" and "\<forall>e \<in> set xs. AddressBlock_wf f e"
  shows "is_ok (subtract b xs (IpFamily_width f) [] rem) \<longleftrightarrow>
    (\<exists>cs. length cs \<le> rem \<and> (\<forall>c \<in> set cs. AddressBlock_wf f c) \<and>
       \<Union> (AddressBlock_addrs f ` set cs) =
         AddressBlock_addrs f b - \<Union> (AddressBlock_addrs f ` set xs))"
  using ab.subtract_succeeds_iff_cover [of f b xs "[]" rem] assms by simp

theorem subtract_succeeds_iff_witness:
  "\<not> (\<exists>cs. length cs \<le> 1 \<and> (\<forall>c \<in> set cs. AddressBlock_wf V4 c) \<and>
     \<Union> (AddressBlock_addrs V4 ` set cs) =
       AddressBlock_addrs V4 \<lparr>ab_base = 0x0A000000, ab_prefix = 30\<rparr> -
       AddressBlock_addrs V4 \<lparr>ab_base = 0x0A000001, ab_prefix = 32\<rparr>)"
proof -
  let ?b = "\<lparr>ab_base = 0x0A000000, ab_prefix = 30\<rparr> :: AddressBlock"
  let ?e = "\<lparr>ab_base = 0x0A000001, ab_prefix = 32\<rparr> :: AddressBlock"
  have wf: "AddressBlock_wf V4 ?b" "\<forall>e \<in> set [?e]. AddressBlock_wf V4 e"
    by (simp_all add: AddressBlock_wf_def aligned_def)
  have "\<not> is_ok (subtract ?b [?e] (IpFamily_width V4) [] 1)" by (simp add: block_eval)
  then show ?thesis using subtract_succeeds_iff [OF wf, of 1] by simp
qed

text \<open>
  C23: \<open>resolve\<close> finds the right block. A CIDR resolves exactly when its prefix fits its family; the
  block is aligned and covers, in the family it is programmed in, exactly the addresses the CIDR
  names, with a CIDR inside \<open>::ffff:0:0/96\<close> naming the embedded IPv4 addresses.
\<close>

theorem resolve_denotes:
  "(resolve c = None \<longleftrightarrow>
      cidr_prefix c > (case cidr_address c of IpV4 _ \<Rightarrow> 32 | IpV6 _ \<Rightarrow> 128)) \<and>
   (\<forall>f b. resolve c = Some (f, b) \<longrightarrow> AddressBlock_wf f b \<and>
      (\<forall>f' x. cidr_names c f' x \<longleftrightarrow> f' = f \<and> x \<in> AddressBlock_addrs f b))"
proof (intro conjI allI impI)
  show "resolve c = None \<longleftrightarrow>
      cidr_prefix c > (case cidr_address c of IpV4 _ \<Rightarrow> 32 | IpV6 _ \<Rightarrow> 128)"
    by (simp add: resolve_None split: IpAddr.splits)
qed (rule resolve_Some, assumption)+

theorem resolve_denotes_witness:
  "resolve \<lparr>cidr_address = IpV6 0xffff0A000000, cidr_prefix = 104\<rparr> =
     Some (V4, \<lparr>ab_base = 0x0A000000, ab_prefix = 8\<rparr>) \<and>
   AddressBlock_wf V4 \<lparr>ab_base = 0x0A000000, ab_prefix = 8\<rparr>"
proof -
  have "resolve \<lparr>cidr_address = IpV6 0xffff0A000000, cidr_prefix = 104\<rparr> =
     Some (V4, \<lparr>ab_base = 0x0A000000, ab_prefix = 8\<rparr>)" by (simp add: block_eval)
  with resolve_denotes show ?thesis by blast
qed

text \<open>
  C21: \<open>peer_blocks\<close> lowers a peer to exactly what it names. When it succeeds, an address is covered by
  one of the returned blocks, in the returned family, exactly when the peer's CIDR names it and none
  of its exclusions does.
\<close>

theorem peer_blocks_denote:
  assumes "peer_blocks peer = Ok (Some (f, bs))"
  shows "peer_names peer f' x \<longleftrightarrow> f' = f \<and> (\<exists>b \<in> set bs. x \<in> AddressBlock_addrs f b)"
  using assms by (rule peer_blocks_addrs)

theorem peer_blocks_denote_witness:
  "peer_names
     \<lparr>peer_cidr = \<lparr>cidr_address = IpV4 0x0A000000, cidr_prefix = 30\<rparr>,
      peer_except = [\<lparr>cidr_address = IpV4 0x0A000001, cidr_prefix = 32\<rparr>]\<rparr> V4 0x0A000003 \<and>
   \<not> peer_names
     \<lparr>peer_cidr = \<lparr>cidr_address = IpV4 0x0A000000, cidr_prefix = 30\<rparr>,
      peer_except = [\<lparr>cidr_address = IpV4 0x0A000001, cidr_prefix = 32\<rparr>]\<rparr> V4 0x0A000001"
proof -
  have run: "peer_blocks
     \<lparr>peer_cidr = \<lparr>cidr_address = IpV4 0x0A000000, cidr_prefix = 30\<rparr>,
      peer_except = [\<lparr>cidr_address = IpV4 0x0A000001, cidr_prefix = 32\<rparr>]\<rparr> =
     Ok (Some (V4, [\<lparr>ab_base = 0x0A000000, ab_prefix = 32\<rparr>, \<lparr>ab_base = 0x0A000002, ab_prefix = 31\<rparr>]))"
    by (simp add: block_eval)
  show ?thesis
    using peer_blocks_denote [OF run, of V4 "0x0A000003"] peer_blocks_denote [OF run, of V4 "0x0A000001"]
    by (simp add: AddressBlock_addrs_def block_span_def span_def)
qed

text \<open>
  C24: \<open>peer_blocks\<close> keeps its two ceilings. A peer never expands into more than 256 blocks, and unless
  the peer itself lies inside \<open>::ffff:0:0/96\<close>, no block of an IPv6 peer does, so no generated
  block can be reprogrammed as IPv4.
\<close>

theorem peer_blocks_bounded:
  assumes "peer_blocks peer = Ok (Some (f, bs))"
  shows "length bs \<le> 256 \<and>
    (f = V6 \<and> resolve (peer_cidr peer) = Some (V6, b) \<and>
      (\<exists>x \<in> AddressBlock_addrs V6 b. \<not> in_mapped_range x) \<and> c \<in> set bs \<longrightarrow>
      (\<exists>x \<in> AddressBlock_addrs V6 c. \<not> in_mapped_range x))"
proof (intro conjI impI; (elim conjE)?)
  obtain b' xs where r: "resolve (peer_cidr peer) = Some (f, b')"
    and "xs = map (snd \<circ> the \<circ> resolve) (peer_except peer)"
    and "\<forall>e \<in> set (peer_except peer). \<exists>c. resolve e = Some (f, c)"
    and "bs = ab.left_over f b' xs" and len: "length bs \<le> MAX_BLOCKS_PER_PEER"
    and m: "refuse_mapped_crossing peer f b' bs = Ok ()"
    using assms by (rule peer_blocks_Some)
  show "length bs \<le> 256" using len by (simp add: MAX_BLOCKS_PER_PEER_def)
  assume f: "f = V6" and b: "resolve (peer_cidr peer) = Some (V6, b)"
    and out: "\<exists>x \<in> AddressBlock_addrs V6 b. \<not> in_mapped_range x" and c: "c \<in> set bs"
  have wf: "AddressBlock_wf V6 b" "AddressBlock_wf V6 c"
    using resolve_Some(1) [OF b] peer_blocks_wf [OF assms c] f by simp_all
  have bb: "b' = b" using r b f by simp
  have "\<not> AddressBlock_contains IPV4_MAPPED_BLOCK b 128"
    using AddressBlock_contains_iff [OF mapped_block_wf wf(1)] out
    by (auto simp: mapped_block_addrs)
  then have "\<not> AddressBlock_contains IPV4_MAPPED_BLOCK c 128"
    using refuse_mapped_crossing_Ok [of peer b bs c] m f bb c by simp
  then show "\<exists>x \<in> AddressBlock_addrs V6 c. \<not> in_mapped_range x"
    using AddressBlock_contains_iff [OF mapped_block_wf wf(2)] by (auto simp: mapped_block_addrs)
qed

theorem peer_blocks_bounded_witness:
  "length [\<lparr>ab_base = 0, ab_prefix = 1\<rparr> :: AddressBlock] \<le> 256 \<and>
   (\<exists>x \<in> AddressBlock_addrs V6 \<lparr>ab_base = 0, ab_prefix = 1\<rparr>. \<not> in_mapped_range x)"
proof -
  let ?c = "\<lparr>ab_base = 0, ab_prefix = 1\<rparr> :: AddressBlock"
  let ?peer = "\<lparr>peer_cidr = \<lparr>cidr_address = IpV6 0, cidr_prefix = 0\<rparr>,
      peer_except = [\<lparr>cidr_address = IpV6 0x80000000000000000000000000000000, cidr_prefix = 1\<rparr>]\<rparr>"
  have run: "peer_blocks ?peer = Ok (Some (V6, [?c]))" by (simp add: block_eval)
  have res: "resolve (peer_cidr ?peer) = Some (V6, \<lparr>ab_base = 0, ab_prefix = 0\<rparr>)" by (simp add: block_eval)
  have "\<exists>x \<in> AddressBlock_addrs V6 \<lparr>ab_base = 0, ab_prefix = 0\<rparr>. \<not> in_mapped_range x"
    by (intro bexI [of _ 0])
      (simp_all add: AddressBlock_addrs_def block_span_def span_def in_mapped_range_def)
  then show ?thesis
    using peer_blocks_bounded [OF run, of "\<lparr>ab_base = 0, ab_prefix = 0\<rparr>" ?c] res by simp
qed

end
