(* ===== verification/Net_Policy.thy ===== *)
theory Net_Policy
  imports Net_Blocks
begin

text \<open>
  The meaning of a directional egress policy, as the wire contract states it: which flows a rule
  covers, and which flows a policy admits (deny rules override allow rules, the default decides the
  rest). The interface \<open>rule_lowering\<close> is what both packet-filter back ends provide: lowering one policy
  rule appends filter rules that hit exactly the flows it covers. Its lemmas give, once for both, that
  a chain built from the deny rules and then the allow rules decides every flow as the policy does.
\<close>

section \<open>Flows and policies\<close>

record flow =
  fl_family :: IpFamily
  fl_dst :: nat
  fl_protocol :: string
  fl_port :: u16

definition flow_wf :: "flow \<Rightarrow> bool" where
  "flow_wf k \<longleftrightarrow> fl_dst k < 2 ^ IpFamily_width (fl_family k)"

text \<open>
  A selector for protocol \<open>any\<close> that names a port covers TCP and UDP, the protocols with ports; an ICMP
  selector covers all ICMP.
\<close>

definition port_covers :: "NetworkPort \<Rightarrow> flow \<Rightarrow> bool" where
  "port_covers p k \<longleftrightarrow>
     (case port_protocol p of
        Tcp \<Rightarrow> fl_protocol k = ''tcp''
      | Udp \<Rightarrow> fl_protocol k = ''udp''
      | Icmp \<Rightarrow> fl_protocol k = ''icmp''
      | AnyProtocol \<Rightarrow> port_port p = None \<or> fl_protocol k \<in> {''tcp'', ''udp''}) \<and>
     (port_protocol p = Icmp \<or>
      (case port_port p of
         None \<Rightarrow> True
       | Some s \<Rightarrow> s \<le> fl_port k \<and>
           fl_port k \<le> (case port_end_port p of Some e \<Rightarrow> e | None \<Rightarrow> s)))"

definition rule_covers :: "NetworkRule \<Rightarrow> flow \<Rightarrow> bool" where
  "rule_covers r k \<longleftrightarrow>
     (rule_to r = [] \<or> (\<exists>p \<in> set (rule_to r). peer_names p (fl_family k) (fl_dst k))) \<and>
     (rule_ports r = [] \<or> (\<exists>p \<in> set (rule_ports r). port_covers p k))"

definition policy_admits :: "NetworkEgressPolicy \<Rightarrow> flow \<Rightarrow> bool" where
  "policy_admits e k \<longleftrightarrow>
     \<not> (\<exists>r \<in> set (eg_deny e). rule_covers r k) \<and>
     ((\<exists>r \<in> set (eg_allow e). rule_covers r k) \<or> eg_default e = Allow)"

section \<open>The lowering interface\<close>

locale rule_lowering =
  fixes lower :: "bool \<Rightarrow> 's \<Rightarrow> NetworkRule \<Rightarrow> 'e + 's"
    and rules_of :: "'s \<Rightarrow> 'r list"
    and hits :: "'r \<Rightarrow> flow \<Rightarrow> bool"
    and accepts :: "'r \<Rightarrow> bool"
    and relevant :: "flow \<Rightarrow> bool"
  assumes lower_law:
    "lower v s r = Ok s' \<Longrightarrow>
       \<exists>new. rules_of s' = rules_of s @ new \<and> (\<forall>x \<in> set new. accepts x = v) \<and>
         (\<forall>k. relevant k \<longrightarrow> (\<exists>x \<in> set new. hits x k) = rule_covers r k)"
begin

definition first_match :: "'r list \<Rightarrow> bool \<Rightarrow> flow \<Rightarrow> bool" where
  "first_match rules terminal k =
     (case find (\<lambda>x. hits x k) rules of Some x \<Rightarrow> accepts x | None \<Rightarrow> terminal)"

lemma first_match_Nil [simp]: "first_match [] terminal k = terminal"
  by (simp add: first_match_def)

lemma first_match_same:
  "\<forall>x \<in> set xs. accepts x = v \<Longrightarrow>
     first_match (xs @ ys) terminal k = (if \<exists>x \<in> set xs. hits x k then v else first_match ys terminal k)"
  by (induction xs) (auto simp: first_match_def)

lemma lower_all:
  assumes "try_fold (lower v) s rs = Ok s'"
  shows "\<exists>new. rules_of s' = rules_of s @ new \<and> (\<forall>x \<in> set new. accepts x = v) \<and>
    (\<forall>k. relevant k \<longrightarrow> (\<exists>x \<in> set new. hits x k) = (\<exists>r \<in> set rs. rule_covers r k))"
  using assms
proof (induction rs arbitrary: s)
  case (Cons r rs)
  then obtain s1 where "lower v s r = Ok s1" and rest: "try_fold (lower v) s1 rs = Ok s'"
    by (auto simp: result_simps)
  from lower_law [OF this(1)] obtain n1 where 1: "rules_of s1 = rules_of s @ n1"
    "\<forall>x \<in> set n1. accepts x = v" "\<forall>k. relevant k \<longrightarrow> (\<exists>x \<in> set n1. hits x k) = rule_covers r k"
    by blast
  from Cons.IH [OF rest] obtain n2 where 2: "rules_of s' = rules_of s1 @ n2"
    "\<forall>x \<in> set n2. accepts x = v"
    "\<forall>k. relevant k \<longrightarrow> (\<exists>x \<in> set n2. hits x k) = (\<exists>r \<in> set rs. rule_covers r k)"
    by blast
  have "\<forall>k. relevant k \<longrightarrow> (\<exists>x \<in> set (n1 @ n2). hits x k) = (\<exists>r \<in> set (r # rs). rule_covers r k)"
    using 1(3) 2(3) by (simp add: bex_Un)
  with 1 2 show ?case by (intro exI [of _ "n1 @ n2"]) auto
qed auto

text \<open>
  The chain: rules placed ahead, all of which drop, then the lowered deny rules, then the lowered allow
  rules, closed by the default.
\<close>

lemma chain_decides:
  assumes "try_fold (lower False) s (eg_deny e) = Ok s1" and "try_fold (lower True) s1 (eg_allow e) = Ok s2"
    and "\<forall>x \<in> set (rules_of s). \<not> accepts x" and "relevant k"
  shows "first_match (rules_of s2) (eg_default e = Allow) k \<longleftrightarrow>
    \<not> (\<exists>x \<in> set (rules_of s). hits x k) \<and> policy_admits e k"
proof -
  obtain ds where ds: "rules_of s1 = rules_of s @ ds" "\<forall>x \<in> set ds. accepts x = False"
    "(\<exists>x \<in> set ds. hits x k) = (\<exists>r \<in> set (eg_deny e). rule_covers r k)"
    using lower_all [OF assms(1)] assms(4) by blast
  obtain as where as: "rules_of s2 = rules_of s1 @ as" "\<forall>x \<in> set as. accepts x = True"
    "(\<exists>x \<in> set as. hits x k) = (\<exists>r \<in> set (eg_allow e). rule_covers r k)"
    using lower_all [OF assms(2)] assms(4) by blast
  have "first_match (rules_of s2) t k =
      (if \<exists>x \<in> set (rules_of s). hits x k then False
       else if \<exists>x \<in> set ds. hits x k then False else if \<exists>x \<in> set as. hits x k then True else t)" for t
    using first_match_same [of "rules_of s" False] first_match_same [of ds False "as"]
      first_match_same [of "as" True "[]"] assms(3) ds(1,2) as(1,2) by simp
  then show ?thesis unfolding policy_admits_def ds(3) as(3) by auto
qed

end

end
