(* ===== verification/Bwrap_Rules.thy ===== *)
theory Bwrap_Rules
  imports Net_Policy
begin

text \<open>
  The egress and ingress rule model of the Bubblewrap back end, \<open>network_rules.rs\<close>: lowering a
  directional policy to an ordered list of packet-filter rules, rendering the rules as
  \<open>iptables-restore\<close> payloads, and the \<open>admits\<close> query on the lowered plan. The main results are that a
  plan admits exactly what the policy admits (deny rules first, then allow rules, then the default,
  with the host gateway closed when host loopback is denied) and that splitting the payloads keeps
  every rule in order with the hooks last.
\<close>

unbundle bit_operations_syntax

section \<open>Payload file names\<close>

datatype RuleFamily = Rule_V4 | Rule_V6

fun payload_prefix :: "RuleFamily \<Rightarrow> string" where
  "payload_prefix Rule_V4 = ''rules.v4.''"
| "payload_prefix Rule_V6 = ''rules.v6.''"

definition PAYLOAD_INDEX_MIN_WIDTH :: nat where
  "PAYLOAD_INDEX_MIN_WIDTH = 3"

text \<open>The loop of \<open>decimal_width\<close>, on the pair of the width so far and what remains.\<close>

fun decimal_width_loop :: "nat \<Rightarrow> nat \<Rightarrow> nat" where
  "decimal_width_loop width remaining =
     (if remaining \<ge> 10 then decimal_width_loop (width + 1) (remaining div 10) else width)"

declare decimal_width_loop.simps [simp del]

definition decimal_width :: "nat \<Rightarrow> nat" where
  "decimal_width v = decimal_width_loop 1 v"

definition payload_file_name :: "RuleFamily \<Rightarrow> nat \<Rightarrow> nat \<Rightarrow> string" where
  "payload_file_name family index count =
     payload_prefix family @
     show_padded (max (decimal_width (count - 1)) PAYLOAD_INDEX_MIN_WIDTH) index"

section \<open>Rules\<close>

datatype RuleVerdict = Accept | Drop

fun RuleVerdict_target :: "RuleVerdict \<Rightarrow> string" where
  "RuleVerdict_target Accept = ''ACCEPT''"
| "RuleVerdict_target Drop = ''DROP''"

record RuleAddress =
  ra_family :: RuleFamily
  ra_text :: string

definition RuleAddress_any :: "RuleFamily \<Rightarrow> RuleAddress" where
  "RuleAddress_any family =
     \<lparr>ra_family = family, ra_text = (case family of Rule_V4 \<Rightarrow> ''0.0.0.0/0'' | Rule_V6 \<Rightarrow> ''::/0'')\<rparr>"

definition RuleAddress_from_block :: "RuleFamily \<Rightarrow> IpAddr \<Rightarrow> nat \<Rightarrow> RuleAddress" where
  "RuleAddress_from_block family address prefix =
     \<lparr>ra_family = family, ra_text = show_ip address @ ''/'' @ show_nat prefix\<rparr>"

definition contains_v4 :: "RuleAddress \<Rightarrow> u32 \<Rightarrow> bool" where
  "contains_v4 self address =
     (if ra_family self \<noteq> Rule_V4 then False
      else
        (case (case split_once (CHR ''/'') (ra_text self) of
                 Some (base, prefix) \<Rightarrow>
                   (case parse_u8 prefix of
                      Some prefix \<Rightarrow> if prefix \<le> 32 then Some (base, prefix) else None
                    | None \<Rightarrow> None)
               | None \<Rightarrow> Some (ra_text self, 32)) of
           None \<Rightarrow> False
         | Some (base, prefix) \<Rightarrow>
             (case parse_ipv4 base of
                None \<Rightarrow> False
              | Some base \<Rightarrow>
                  let mask = (if prefix = 0 then 0 else push_bit (32 - prefix) (- 1))
                  in base AND mask = address AND mask)))"

section \<open>Blocks\<close>

definition mapped_v4_block :: "u128 \<Rightarrow> nat \<Rightarrow> (u32 \<times> nat) option" where
  "mapped_v4_block ip bits =
     (case to_ipv4_mapped ip of
        None \<Rightarrow> None
      | Some v4 \<Rightarrow> if bits < 96 then None else Some (v4, bits - 96))"

definition covers_ipv4_mapped_range :: "u128 \<Rightarrow> nat \<Rightarrow> bool" where
  "covers_ipv4_mapped_range ip bits =
     (if bits \<ge> 96 then False
      else
        let mask = (if bits = 0 then 0 else push_bit (128 - bits) (- 1));
            mapped_base = 0xffff00000000
        in ip AND mask = mapped_base AND mask)"

definition straddles_mapped_range :: "string \<Rightarrow> string" where
  "straddles_mapped_range entry =
     ''Bubblewrap: network rule '' @ quoted entry @
     '' is an IPv6 block shorter than /96 that contains the IPv4-mapped range '' @
     quoted ''::ffff:0:0/96'' @
     ''. Addresses in that range travel as IPv4 packets, so an ip6tables rule would not match '' @
     ''them and the rule would be silently unenforced. Write the IPv4 side explicitly instead: '' @
     ''keep the IPv6 block for native IPv6 traffic and add the IPv4 block you intend (for '' @
     ''example '' @ quoted ''0.0.0.0/0'' @ '' to cover all of IPv4).''"

record Block =
  blk_base :: u128
  blk_prefix :: nat

definition Bwrap_MAX_BLOCKS_PER_PEER :: nat where
  "Bwrap_MAX_BLOCKS_PER_PEER = 256"

definition MAX_EGRESS_RULES :: nat where
  "MAX_EGRESS_RULES = 65536"

fun Block_width :: "RuleFamily \<Rightarrow> nat" where
  "Block_width Rule_V4 = 32"
| "Block_width Rule_V6 = 128"

definition Block_host_mask :: "nat \<Rightarrow> u128" where
  "Block_host_mask bits = (if bits \<ge> 128 then - 1 else push_bit bits 1 - 1)"

definition Block_last :: "Block \<Rightarrow> nat \<Rightarrow> u128" where
  "Block_last b width = blk_base b OR Block_host_mask (width - blk_prefix b)"

definition Block_contains :: "Block \<Rightarrow> Block \<Rightarrow> nat \<Rightarrow> bool" where
  "Block_contains self other width \<longleftrightarrow>
     blk_base self \<le> blk_base other \<and> Block_last other width \<le> Block_last self width"

definition Block_intersects :: "Block \<Rightarrow> Block \<Rightarrow> nat \<Rightarrow> bool" where
  "Block_intersects self other width \<longleftrightarrow>
     blk_base self \<le> Block_last other width \<and> blk_base other \<le> Block_last self width"

definition Block_from_cidr :: "NetworkCidr \<Rightarrow> string + RuleFamily \<times> Block" where
  "Block_from_cidr cidr =
     (let source_width = (case cidr_address cidr of IpV4 _ \<Rightarrow> 32 | IpV6 _ \<Rightarrow> 128) in
      if cidr_prefix cidr > source_width then
        Err (''network rule address '' @ quoted (cidr_text cidr) @
          '' has a prefix wider than its address family (max /'' @ show_nat source_width @ '')'')
      else
      and_then
        (case cidr_address cidr of
           IpV4 ip \<Rightarrow> Ok (Rule_V4, IpV4 ip, cidr_prefix cidr)
         | IpV6 ip \<Rightarrow>
             (case mapped_v4_block ip (cidr_prefix cidr) of
                Some (v4, bits) \<Rightarrow> Ok (Rule_V4, IpV4 v4, bits)
              | None \<Rightarrow>
                  if covers_ipv4_mapped_range ip (cidr_prefix cidr)
                  then Err (straddles_mapped_range (cidr_text cidr))
                  else Ok (Rule_V6, IpV6 ip, cidr_prefix cidr)))
        (\<lambda>(family, address, prefix).
           let raw = (case address of IpV4 ip \<Rightarrow> ucast ip | IpV6 ip \<Rightarrow> ip);
               width = Block_width family;
               base = raw AND NOT (Block_host_mask (width - prefix))
           in Ok (family, \<lparr>blk_base = base, blk_prefix = prefix\<rparr>)))"

definition Block_address :: "Block \<Rightarrow> RuleFamily \<Rightarrow> IpAddr" where
  "Block_address b family =
     (case family of Rule_V4 \<Rightarrow> IpV4 (ucast (blk_base b)) | Rule_V6 \<Rightarrow> IpV6 (blk_base b))"

definition Bwrap_too_many_blocks :: string where
  "Bwrap_too_many_blocks =
     ''Bubblewrap: a network.egress peer expands into more than '' @
     show_nat Bwrap_MAX_BLOCKS_PER_PEER @
     '' address blocks once its 'except' entries are removed. Narrow the peer's CIDR or '' @
     ''use fewer exclusions.''"

function subtract_blocks ::
    "Block \<Rightarrow> Block list \<Rightarrow> RuleFamily \<Rightarrow> Block list \<Rightarrow> nat \<Rightarrow> string + Block list \<times> nat" where
  "subtract_blocks block excepts family out remaining =
     (let width = Block_width family in
      if list_ex (\<lambda>e. Block_contains e block width) excepts then Ok (out, remaining)
      else if \<not> list_ex (\<lambda>e. Block_intersects e block width) excepts then
        (if remaining = 0 then Err Bwrap_too_many_blocks else Ok (out @ [block], remaining - 1))
      else if blk_prefix block \<ge> width then Ok (out, remaining)
      else
        let child_prefix = blk_prefix block + 1;
            step = Block_host_mask (width - child_prefix) + 1
        in and_then
             (subtract_blocks \<lparr>blk_base = blk_base block, blk_prefix = child_prefix\<rparr>
                excepts family out remaining)
             (\<lambda>(out', remaining').
                subtract_blocks \<lparr>blk_base = blk_base block + step, blk_prefix = child_prefix\<rparr>
                  excepts family out' remaining'))"
  by pat_completeness auto
termination
  by (relation "measure (\<lambda>(b, _, family, _). Block_width family - blk_prefix b)") auto

declare subtract_blocks.simps [simp del]

section \<open>Lowering\<close>

record PortSpec =
  ps_protocol :: "string option"
  ps_range :: "(u16 \<times> u16) option"

definition PortSpec_ALL :: PortSpec where
  "PortSpec_ALL = \<lparr>ps_protocol = None, ps_range = None\<rparr>"

definition PortSpec_tcp_port :: "u16 \<Rightarrow> PortSpec" where
  "PortSpec_tcp_port port = \<lparr>ps_protocol = Some ''tcp'', ps_range = Some (port, port)\<rparr>"

record EgressRule =
  er_verdict :: RuleVerdict
  er_address :: RuleAddress
  er_port :: PortSpec

definition EgressRule_render :: "EgressRule \<Rightarrow> string" where
  "EgressRule_render self =
     (let protocol =
        (case ps_protocol (er_port self) of
           Some protocol \<Rightarrow>
             if protocol = ''icmp'' \<and> ra_family (er_address self) = Rule_V6 then ''-p icmpv6 ''
             else ''-p '' @ protocol @ '' ''
         | None \<Rightarrow> []);
        dport =
          (case ps_range (er_port self) of
             Some (start, end') \<Rightarrow>
               if start = end' then '' --dport '' @ show_nat (unat start)
               else '' --dport '' @ show_nat (unat start) @ '':'' @ show_nat (unat end')
           | None \<Rightarrow> [])
      in protocol @ ''-d '' @ ra_text (er_address self) @ dport @ '' -j '' @
         RuleVerdict_target (er_verdict self))"

definition EgressRule_matches :: "EgressRule \<Rightarrow> string \<Rightarrow> u32 \<Rightarrow> u16 \<Rightarrow> bool" where
  "EgressRule_matches self protocol destination port =
     (if ra_family (er_address self) \<noteq> Rule_V4 then False
      else if (case ps_protocol (er_port self) of Some named \<Rightarrow> named \<noteq> protocol | None \<Rightarrow> False)
      then False
      else if (case ps_range (er_port self) of
                 Some (start, end') \<Rightarrow> port < start \<or> port > end' | None \<Rightarrow> False)
      then False
      else contains_v4 (er_address self) destination)"

definition egress_budget_error :: string where
  "egress_budget_error =
     ''Bubblewrap: network.egress expands into more than '' @ show_nat MAX_EGRESS_RULES @
     '' firewall rules. A rule becomes every destination block it resolves to in every port it '' @
     ''names, so narrow the peers, the exclusions, or the ports.''"

text \<open>The inner loop over a peer's exclusions, then the loop over the peers.\<close>

definition lower_except ::
    "RuleFamily \<Rightarrow> Block list \<Rightarrow> NetworkCidr \<Rightarrow> string + Block list" where
  "lower_except family excepts except =
     and_then (Block_from_cidr except) (\<lambda>(except_family, block).
       Ok (if except_family = family then excepts @ [block] else excepts))"

definition lower_peer ::
    "nat \<Rightarrow> RuleAddress list \<Rightarrow> NetworkPeer \<Rightarrow> string + RuleAddress list" where
  "lower_peer budget addresses peer =
     and_then (Block_from_cidr (peer_cidr peer)) (\<lambda>(family, block).
     and_then (try_fold (lower_except family) [] (peer_except peer)) (\<lambda>excepts.
     and_then (subtract_blocks block excepts family [] Bwrap_MAX_BLOCKS_PER_PEER)
       (\<lambda>(blocks, remaining).
     let addresses = addresses @
           map (\<lambda>b. RuleAddress_from_block family (Block_address b family) (blk_prefix b)) blocks
     in if length addresses > budget then Err egress_budget_error else Ok addresses)))"

definition lower_peers :: "NetworkPeer list \<Rightarrow> nat \<Rightarrow> string + RuleAddress list" where
  "lower_peers peers budget =
     (if peers = [] then Ok [RuleAddress_any Rule_V4, RuleAddress_any Rule_V6]
      else try_fold (lower_peer budget) [] peers)"

definition lower_port :: "PortSpec list \<Rightarrow> NetworkPort \<Rightarrow> string + PortSpec list" where
  "lower_port specs port =
     (if port_port port = Some 0 \<or> port_end_port port = Some 0 then
        Err ''Bubblewrap: network.egress port values must be between 1 and 65535.''
      else
      and_then
        (case (port_port port, port_end_port port) of
           (Some start, Some end') \<Rightarrow>
             if end' < start then
               Err (''Bubblewrap: network.egress port range '' @ show_nat (unat start) @ ''-'' @
                 show_nat (unat end') @ '' ends before it starts.'')
             else Ok (Some (start, end'))
         | (Some start, None) \<Rightarrow> Ok (Some (start, start))
         | (None, Some end') \<Rightarrow>
             Err (''Bubblewrap: network.egress endPort '' @ show_nat (unat end') @
               '' needs a matching port.'')
         | (None, None) \<Rightarrow> Ok None)
        (\<lambda>rng.
           case port_protocol port of
             Tcp \<Rightarrow> Ok (specs @ [\<lparr>ps_protocol = Some ''tcp'', ps_range = rng\<rparr>])
           | Udp \<Rightarrow> Ok (specs @ [\<lparr>ps_protocol = Some ''udp'', ps_range = rng\<rparr>])
           | Icmp \<Rightarrow>
               if rng \<noteq> None then
                 Err (''Bubblewrap: network.egress protocol 'icmp' carries no ports, so a port '' @
                   ''selector cannot be honored. Drop the port, or name 'tcp'/'udp'.'')
               else Ok (specs @ [\<lparr>ps_protocol = Some ''icmp'', ps_range = None\<rparr>])
           | AnyProtocol \<Rightarrow>
               (case rng of
                  None \<Rightarrow> Ok (specs @ [PortSpec_ALL])
                | Some r \<Rightarrow>
                    Ok (specs @ [\<lparr>ps_protocol = Some ''tcp'', ps_range = Some r\<rparr>,
                                 \<lparr>ps_protocol = Some ''udp'', ps_range = Some r\<rparr>]))))"

definition lower_ports :: "NetworkPort list \<Rightarrow> string + PortSpec list" where
  "lower_ports ports =
     (if ports = [] then Ok [PortSpec_ALL] else try_fold lower_port [] ports)"

text \<open>\<open>usize::checked_mul\<close> on a 64-bit host.\<close>

definition checked_mul :: "nat \<Rightarrow> nat \<Rightarrow> nat option" where
  "checked_mul a b = (if a * b < 2 ^ 64 then Some (a * b) else None)"

definition Bwrap_lower_rule ::
    "RuleVerdict \<Rightarrow> EgressRule list \<Rightarrow> NetworkRule \<Rightarrow> string + EgressRule list" where
  "Bwrap_lower_rule verdict out rule =
     (let remaining = MAX_EGRESS_RULES - length out in
      and_then (lower_peers (rule_to rule) remaining) (\<lambda>addresses.
      and_then (lower_ports (rule_ports rule)) (\<lambda>ports.
      if (case checked_mul (length addresses) (length ports) of
            None \<Rightarrow> True | Some count \<Rightarrow> count > remaining)
      then Err egress_budget_error
      else Ok (out @ concat (map (\<lambda>address. map (\<lambda>port.
        \<lparr>er_verdict = verdict, er_address = address, er_port = port\<rparr>) ports) addresses)))))"

section \<open>Plans\<close>

record EgressPlan =
  ep_rules :: "EgressRule list"
  ep_v4_terminal :: RuleVerdict
  ep_v6_terminal :: RuleVerdict

definition EgressPlan_for_proxy :: "u32 \<Rightarrow> u16 \<Rightarrow> EgressPlan" where
  "EgressPlan_for_proxy ip port =
     \<lparr>ep_rules = [\<lparr>er_verdict = Accept,
        er_address = \<lparr>ra_family = Rule_V4, ra_text = show_ipv4 ip\<rparr>,
        er_port = PortSpec_tcp_port port\<rparr>],
      ep_v4_terminal = Drop, ep_v6_terminal = Drop\<rparr>"

definition SLIRP_HOST_GATEWAY_IP :: u32 where
  "SLIRP_HOST_GATEWAY_IP = 0x0A000202"

definition for_directional_policy_with_ingress ::
    "NetworkEgressPolicy \<Rightarrow> NetworkAction \<Rightarrow> string + EgressPlan" where
  "for_directional_policy_with_ingress egress host_loopback =
     (let terminal = (case eg_default egress of Allow \<Rightarrow> Accept | Deny \<Rightarrow> Drop);
          rules =
            (if host_loopback = Deny then
               [\<lparr>er_verdict = Drop,
                 er_address = RuleAddress_from_block Rule_V4 (IpV4 SLIRP_HOST_GATEWAY_IP) 32,
                 er_port = PortSpec_ALL\<rparr>]
             else [])
      in and_then (try_fold (Bwrap_lower_rule Drop) rules (eg_deny egress)) (\<lambda>rules.
         and_then (try_fold (Bwrap_lower_rule Accept) rules (eg_allow egress)) (\<lambda>rules.
         Ok \<lparr>ep_rules = rules, ep_v4_terminal = terminal, ep_v6_terminal = terminal\<rparr>)))"

definition EgressPlan_for_request :: "ExecutionRequest \<Rightarrow> string + EgressPlan" where
  "EgressPlan_for_request request =
     for_directional_policy_with_ingress
       (case network_egress (req_policy request) of
          Some e \<Rightarrow> e | None \<Rightarrow> \<lparr>eg_default = Deny, eg_allow = [], eg_deny = []\<rparr>)
       (case network_ingress (req_policy request) of
          None \<Rightarrow> Deny | Some ingress \<Rightarrow> in_host_loopback ingress)"

definition EgressPlan_chain_lines :: "EgressPlan \<Rightarrow> RuleFamily \<Rightarrow> string list" where
  "EgressPlan_chain_lines self family =
     (let terminal =
        (case family of Rule_V4 \<Rightarrow> ep_v4_terminal self | Rule_V6 \<Rightarrow> ep_v6_terminal self)
      in [''-o lo -j ACCEPT''] @
         map EgressRule_render (filter (\<lambda>rule. ra_family (er_address rule) = family) (ep_rules self)) @
         [''-j '' @ RuleVerdict_target terminal])"

text \<open>The loop of \<open>allowed_v6_targets\<close> over the targets so far; \<open>seen\<close> is the set of those.\<close>

fun allowed_v6_loop :: "string list \<Rightarrow> string set \<Rightarrow> EgressRule list \<Rightarrow> string list" where
  "allowed_v6_loop targets seen [] = targets"
| "allowed_v6_loop targets seen (rule # rules) =
     (let target = ra_text (er_address rule) in
      if er_verdict rule = Accept \<and> ra_family (er_address rule) = Rule_V6 \<and> target \<notin> seen
      then allowed_v6_loop (targets @ [target]) (insert target seen) rules
      else allowed_v6_loop targets seen rules)"

definition allowed_v6_targets :: "EgressPlan \<Rightarrow> string list" where
  "allowed_v6_targets self = allowed_v6_loop [] {} (ep_rules self)"

definition admits :: "EgressPlan \<Rightarrow> string \<Rightarrow> u32 \<Rightarrow> u16 \<Rightarrow> bool" where
  "admits self protocol destination port =
     ((case find (\<lambda>rule. EgressRule_matches rule protocol destination port) (ep_rules self) of
         Some rule \<Rightarrow> er_verdict rule
       | None \<Rightarrow> ep_v4_terminal self) = Accept)"

record IngressPlan =
  ip_new_inbound :: RuleVerdict

definition IngressPlan_for_policy :: "ContainerPolicy \<Rightarrow> IngressPlan" where
  "IngressPlan_for_policy policy =
     (let accepts_new_inbound =
        (case network_ingress policy of Some ingress \<Rightarrow> in_default ingress = Allow | None \<Rightarrow> False)
      in \<lparr>ip_new_inbound = (if accepts_new_inbound then Accept else Drop)\<rparr>)"

definition IngressPlan_chain_lines :: "IngressPlan \<Rightarrow> RuleFamily \<Rightarrow> string list" where
  "IngressPlan_chain_lines self family =
     [''-i lo -j ACCEPT'',
      ''-m conntrack --ctstate ESTABLISHED,RELATED -j ACCEPT'',
      ''-m conntrack --ctstate NEW -j '' @ RuleVerdict_target (ip_new_inbound self),
      ''-j DROP'']"

section \<open>Payloads\<close>

definition RESTORE_PAYLOAD_BUDGET :: nat where
  "RESTORE_PAYLOAD_BUDGET = 8 * 1024"

definition COMMIT :: string where
  "COMMIT = ''COMMIT'' @ [CHR 0x0A]"

record ChainSection =
  cs_chain :: string
  cs_hook :: string
  cs_lines :: "string list"

definition filter_header :: string where
  "filter_header = ''*filter'' @ [CHR 0x0A]"

text \<open>The loop over the body: the state is the payloads so far, the current text and its line count.\<close>

definition push_line ::
    "string list \<times> string \<times> nat \<Rightarrow> string \<Rightarrow> string list \<times> string \<times> nat" where
  "push_line st line =
     (let (payloads, current, lines_in_current) = st;
          (payloads, current, lines_in_current) =
            (if lines_in_current > 0 \<and>
                length current + length line + length COMMIT > RESTORE_PAYLOAD_BUDGET
             then (payloads @ [current @ COMMIT], filter_header, 0)
             else (payloads, current, lines_in_current))
      in (payloads, current @ line, lines_in_current + 1))"

definition render_filter_payloads ::
    "EgressPlan \<Rightarrow> IngressPlan \<Rightarrow> RuleFamily \<Rightarrow> string \<Rightarrow> string \<Rightarrow> string list" where
  "render_filter_payloads egress ingress family egress_chain ingress_chain =
     (let sections =
        [\<lparr>cs_chain = egress_chain, cs_hook = ''OUTPUT'',
          cs_lines = EgressPlan_chain_lines egress family\<rparr>,
         \<lparr>cs_chain = ingress_chain, cs_hook = ''INPUT'',
          cs_lines = IngressPlan_chain_lines ingress family\<rparr>];
        declarations =
          concat (map (\<lambda>s. '':'' @ cs_chain s @ '' - [0:0]'' @ [CHR 0x0A]) sections);
        hooks =
          concat (map (\<lambda>s. ''-A '' @ cs_hook s @ '' -j '' @ cs_chain s @ [CHR 0x0A]) sections);
        body =
          concat (map (\<lambda>s.
            map (\<lambda>line. ''-A '' @ cs_chain s @ '' '' @ line @ [CHR 0x0A]) (cs_lines s)) sections);
        (payloads, current, lines_in_current) =
          foldl push_line ([], filter_header @ declarations, 0) body;
        (payloads, current) =
          (if lines_in_current > 0 \<and>
              length current + length hooks + length COMMIT > RESTORE_PAYLOAD_BUDGET
           then (payloads @ [current @ COMMIT], filter_header)
           else (payloads, current))
      in payloads @ [current @ hooks @ COMMIT])"

section \<open>Splitting into payloads\<close>

text \<open>
  A family of payloads: payload \<open>i\<close> of \<open>chunks\<close> is the table header, the chain declarations in the
  first one only, the lines of chunk \<open>i\<close>, the trailer \<open>tl\<close> of chunk \<open>i\<close>, and the commit line.
\<close>

definition payload_of :: "string \<Rightarrow> nat \<Rightarrow> string list \<Rightarrow> string" where
  "payload_of decls i chunk = filter_header @ (if i = 0 then decls else []) @ concat chunk"

definition within_budget :: "string \<Rightarrow> string list \<Rightarrow> bool" where
  "within_budget payload chunk \<longleftrightarrow> length payload \<le> RESTORE_PAYLOAD_BUDGET \<or> length chunk \<le> 1"

definition payload_state ::
    "string \<Rightarrow> string list list \<Rightarrow> string list \<Rightarrow> string list \<times> string \<times> nat \<Rightarrow> bool" where
  "payload_state decls full cur st \<longleftrightarrow>
     st = (map (\<lambda>i. payload_of decls i (full ! i) @ COMMIT) [0..<length full],
           payload_of decls (length full) cur, length cur) \<and>
     (\<forall>i < length full. within_budget (payload_of decls i (full ! i) @ COMMIT) (full ! i)) \<and>
     within_budget (payload_of decls (length full) cur @ COMMIT) cur"

lemma map_nth_snoc:
  "map (\<lambda>i. g i ((cs @ [c]) ! i)) [0..<Suc (length cs)] = map (\<lambda>i. g i (cs ! i)) [0..<length cs] @ [g (length cs) c]"
  by (simp add: nth_append)

lemma push_line_state:
  assumes "payload_state decls full cur st"
  shows "\<exists>full' cur'. concat full' @ cur' = concat full @ cur @ [line] \<and>
    payload_state decls full' cur' (push_line st line)"
proof (cases "0 < length cur \<and> length (payload_of decls (length full) cur) + length line + length COMMIT >
    RESTORE_PAYLOAD_BUDGET")
  case True
  then have st': "push_line st line =
      (map (\<lambda>i. payload_of decls i (full ! i) @ COMMIT) [0..<length full] @ [payload_of decls (length full) cur @ COMMIT],
       filter_header @ line, 1)"
    using assms by (simp add: payload_state_def push_line_def)
  have "payload_state decls (full @ [cur]) [line] (push_line st line)"
    unfolding payload_state_def st'
    using assms by (auto simp: payload_state_def payload_of_def within_budget_def nth_append less_Suc_eq)
  then show ?thesis by (intro exI [of _ "full @ [cur]"] exI [of _ "[line]"]) simp
next
  case False
  then have st': "push_line st line =
      (map (\<lambda>i. payload_of decls i (full ! i) @ COMMIT) [0..<length full],
       payload_of decls (length full) (cur @ [line]), length cur + 1)"
    using assms by (auto simp: payload_state_def push_line_def payload_of_def)
  have "within_budget (payload_of decls (length full) (cur @ [line]) @ COMMIT) (cur @ [line])"
    using False by (auto simp: within_budget_def payload_of_def)
  then have "payload_state decls full (cur @ [line]) (push_line st line)"
    using assms unfolding payload_state_def st' by simp
  then show ?thesis by (intro exI [of _ full] exI [of _ "cur @ [line]"]) simp
qed

lemma push_lines_state:
  assumes "payload_state decls full cur st"
  shows "\<exists>full' cur'. concat full' @ cur' = concat full @ cur @ body \<and>
    payload_state decls full' cur' (foldl push_line st body)"
  using assms
proof (induction body arbitrary: full cur st)
  case Nil
  then show ?case by (intro exI [of _ full] exI [of _ cur]) simp
next
  case (Cons line body)
  from push_line_state [OF Cons.prems] obtain full1 cur1
    where 1: "concat full1 @ cur1 = concat full @ cur @ [line]" "payload_state decls full1 cur1 (push_line st line)"
    by blast
  from Cons.IH [OF 1(2)] obtain full2 cur2
    where 2: "concat full2 @ cur2 = concat full1 @ cur1 @ body"
      "payload_state decls full2 cur2 (foldl push_line (push_line st line) body)"
    by blast
  have "concat full2 @ cur2 = concat full @ cur @ line # body"
    using 1(1) 2(1) by (metis append.assoc append_Cons append_Nil)
  with 2(2) show ?case by auto
qed

definition split_payloads :: "string \<Rightarrow> string \<Rightarrow> string list \<Rightarrow> string list" where
  "split_payloads decls hooks body =
     (let (payloads, current, lines_in_current) = foldl push_line ([], filter_header @ decls, 0) body;
          (payloads, current) =
            (if lines_in_current > 0 \<and>
                length current + length hooks + length COMMIT > RESTORE_PAYLOAD_BUDGET
             then (payloads @ [current @ COMMIT], filter_header)
             else (payloads, current))
      in payloads @ [current @ hooks @ COMMIT])"

lemma split_payloads_chunks:
  "\<exists>chunks. chunks \<noteq> [] \<and> concat chunks = body \<and>
     split_payloads decls hooks body =
       map (\<lambda>i. payload_of decls i (chunks ! i) @ (if Suc i = length chunks then hooks else []) @ COMMIT)
         [0..<length chunks] \<and>
     list_all2 within_budget (split_payloads decls hooks body) chunks"
proof -
  have "payload_state decls [] [] ([], filter_header @ decls, 0)"
    by (simp add: payload_state_def payload_of_def within_budget_def)
  from push_lines_state [OF this, of body] obtain full cur where c: "concat full @ cur = body"
    and st: "payload_state decls full cur (foldl push_line ([], filter_header @ decls, 0) body)"
    by auto
  let ?n = "length full"
  let ?ps = "map (\<lambda>i. payload_of decls i (full ! i) @ COMMIT) [0..<?n]"
  have fold: "foldl push_line ([], filter_header @ decls, 0) body =
      (?ps, payload_of decls ?n cur, length cur)"
    and dw: "\<forall>i < ?n. within_budget (payload_of decls i (full ! i) @ COMMIT) (full ! i)"
    and cw: "within_budget (payload_of decls ?n cur @ COMMIT) cur"
    using st by (auto simp: payload_state_def)
  show ?thesis
  proof (cases "0 < length cur \<and> length (payload_of decls ?n cur) + length hooks + length COMMIT >
      RESTORE_PAYLOAD_BUDGET")
    case True
    then have run: "split_payloads decls hooks body =
        ?ps @ [payload_of decls ?n cur @ COMMIT, filter_header @ hooks @ COMMIT]"
      by (simp add: split_payloads_def fold)
    show ?thesis
      unfolding run by (rule exI [of _ "full @ [cur, []]"])
        (use c dw cw in \<open>auto simp: nth_append payload_of_def within_budget_def list_all2_conv_all_nth less_Suc_eq\<close>)
  next
    case False
    then have run: "split_payloads decls hooks body = ?ps @ [payload_of decls ?n cur @ hooks @ COMMIT]"
      by (auto simp: split_payloads_def fold)
    show ?thesis
      unfolding run by (rule exI [of _ "full @ [cur]"])
        (use c dw cw False in \<open>auto simp: nth_append within_budget_def list_all2_conv_all_nth less_Suc_eq\<close>)
  qed
qed

lemma render_split:
  "render_filter_payloads egress ingress family ec ic =
     split_payloads ('':'' @ ec @ '' - [0:0]'' @ [CHR 0x0A] @ '':'' @ ic @ '' - [0:0]'' @ [CHR 0x0A])
       (''-A OUTPUT -j '' @ ec @ [CHR 0x0A] @ ''-A INPUT -j '' @ ic @ [CHR 0x0A])
       (map (\<lambda>line. ''-A '' @ ec @ '' '' @ line @ [CHR 0x0A]) (EgressPlan_chain_lines egress family) @
        map (\<lambda>line. ''-A '' @ ic @ '' '' @ line @ [CHR 0x0A]) (IngressPlan_chain_lines ingress family))"
  by (simp add: render_filter_payloads_def split_payloads_def Let_def)

section \<open>Blocks as address sets\<close>

fun ip_family :: "RuleFamily \<Rightarrow> IpFamily" where
  "ip_family Rule_V4 = V4"
| "ip_family Rule_V6 = V6"

definition Block_wf :: "RuleFamily \<Rightarrow> Block \<Rightarrow> bool" where
  "Block_wf f b \<longleftrightarrow> aligned (Block_width f) (blk_base b) (blk_prefix b)"

definition Block_addrs :: "RuleFamily \<Rightarrow> Block \<Rightarrow> nat set" where
  "Block_addrs f b = block_span (Block_width f) (blk_base b) (blk_prefix b)"

lemma Block_host_mask_eq: "Block_host_mask = mask"
  using host_mask_eq by (auto simp: Block_host_mask_def host_mask_def)

lemma Block_width_le: "Block_width f \<le> 128"
  by (cases f) simp_all

lemma Block_width_eq: "Block_width f = IpFamily_width (ip_family f)"
  by (cases f) simp_all

text \<open>\<open>subtract_blocks\<close> provides the subtraction interface.\<close>

interpretation bb: block_subtraction "Block_width f" blk_base blk_prefix
  "\<lambda>a p. \<lparr>blk_base = a, blk_prefix = p\<rparr>"
  "\<lambda>e b. Block_contains e b (Block_width f)"
  "\<lambda>e b. Block_intersects e b (Block_width f)"
  Bwrap_too_many_blocks "\<lambda>b xs out rem. subtract_blocks b xs f out rem"
  for f
proof
  fix b :: Block and xs out rem
  show "subtract_blocks b xs f out rem =
     (if \<exists>e \<in> set xs. Block_contains e b (Block_width f) then Ok (out, rem)
      else if \<not> (\<exists>e \<in> set xs. Block_intersects e b (Block_width f))
      then if rem = 0 then Err Bwrap_too_many_blocks else Ok (out @ [b], rem - 1)
      else if Block_width f \<le> blk_prefix b then Ok (out, rem)
      else and_then
        (subtract_blocks \<lparr>blk_base = blk_base b, blk_prefix = blk_prefix b + 1\<rparr> xs f out rem)
        (\<lambda>(out', rem'). subtract_blocks
           \<lparr>blk_base = blk_base b + (mask (Block_width f - (blk_prefix b + 1)) + 1),
            blk_prefix = blk_prefix b + 1\<rparr> xs f out' rem'))"
    by (subst subtract_blocks.simps) (simp add: list_ex_iff Block_host_mask_eq Let_def)
qed (simp_all add: Block_width_le Block_contains_def Block_intersects_def Block_last_def
    Block_host_mask_eq contains_iff_span intersects_iff_span)

lemma bb_wf_block [simp]: "bb.wf_block f b \<longleftrightarrow> Block_wf f b"
  by (simp add: bb.wf_block_def Block_wf_def)

lemma bb_addrs [simp]: "bb.addrs f b = Block_addrs f b"
  by (simp add: bb.addrs_def Block_addrs_def)

lemma unat_drop_bit_div: "unat (drop_bit k (a :: 'a :: len word)) = unat a div 2 ^ k"
  unfolding unat_drop_bit_eq by (rule drop_bit_eq_div)

lemma and_high_mask_eq_iff:
  fixes a b :: "'a :: len word"
  shows "a AND push_bit k (- 1) = b AND push_bit k (- 1) \<longleftrightarrow> unat a div 2 ^ k = unat b div 2 ^ k"
proof -
  have "a AND push_bit k (- 1) = b AND push_bit k (- 1) \<longleftrightarrow> drop_bit k a = drop_bit k b"
  proof
    assume h: "a AND push_bit k (- 1) = b AND push_bit k (- 1)"
    show "drop_bit k a = drop_bit k b"
    proof (rule bit_eqI)
      fix n
      have "bit (a AND push_bit k (- 1)) (k + n) = bit (b AND push_bit k (- 1)) (k + n)" by (simp only: h)
      then show "bit (drop_bit k a) n = bit (drop_bit k b) n"
        by (auto simp: bit_simps dest: bit_imp_le_length)
    qed
  next
    assume h: "drop_bit k a = drop_bit k b"
    show "a AND push_bit k (- 1) = b AND push_bit k (- 1)"
    proof (rule bit_eqI)
      fix n
      have "bit (drop_bit k a) (n - k) = bit (drop_bit k b) (n - k)" by (simp only: h)
      then show "bit (a AND push_bit k (- 1)) n = bit (b AND push_bit k (- 1)) n"
        by (auto simp: bit_simps)
    qed
  qed
  also have "\<dots> \<longleftrightarrow> unat (drop_bit k a) = unat (drop_bit k b)" by (rule word_unat_eq_iff)
  also have "\<dots> \<longleftrightarrow> unat a div 2 ^ k = unat b div 2 ^ k" by (simp only: unat_drop_bit_div)
  finally show ?thesis .
qed

text \<open>A mask of the high \<open>w - p\<close> bits, written as the code does with the /0 case apart.\<close>

lemma prefix_mask_eq_iff:
  fixes a b :: "'a :: len word"
  assumes "w = LENGTH('a)" and "p \<le> w"
  shows "a AND (if p = 0 then 0 else push_bit (w - p) (- 1)) =
      b AND (if p = 0 then 0 else push_bit (w - p) (- 1)) \<longleftrightarrow>
    unat a div 2 ^ (w - p) = unat b div 2 ^ (w - p)"
proof (cases "p = 0")
  case True
  then show ?thesis using unsigned_less [of a] unsigned_less [of b] assms(1) by simp
next
  case False
  then show ?thesis by (simp only: if_False and_high_mask_eq_iff)
qed

lemma prefix_mask_u128:
  fixes a b :: u128
  assumes "p \<le> 128"
  shows "a AND (if p = 0 then 0 else push_bit (128 - p) (- 1)) =
      b AND (if p = 0 then 0 else push_bit (128 - p) (- 1)) \<longleftrightarrow>
    unat a div 2 ^ (128 - p) = unat b div 2 ^ (128 - p)"
  using assms by (intro prefix_mask_eq_iff) simp_all

lemma prefix_mask_u32:
  fixes a b :: u32
  assumes "p \<le> 32"
  shows "a AND (if p = 0 then 0 else push_bit (32 - p) (- 1)) =
      b AND (if p = 0 then 0 else push_bit (32 - p) (- 1)) \<longleftrightarrow>
    unat a div 2 ^ (32 - p) = unat b div 2 ^ (32 - p)"
  using assms by (intro prefix_mask_eq_iff) simp_all

section \<open>Resolution of a CIDR\<close>

lemma Block_from_cidr_resolve:
  assumes "Block_from_cidr c = Ok (f, b)"
  shows "resolve c = Some (ip_family f, \<lparr>ab_base = blk_base b, ab_prefix = blk_prefix b\<rparr>)"
proof (cases "cidr_address c")
  case (IpV4 ip)
  with assms show ?thesis
    by (auto simp: Block_from_cidr_def resolve_def Block_host_mask_eq host_mask_eq Let_def
        split: if_splits)
next
  case (IpV6 ip)
  with assms show ?thesis
    by (auto simp: Block_from_cidr_def resolve_def mapped_v4_block_def Block_host_mask_eq host_mask_eq
        Let_def split: if_splits option.splits)
qed

lemma Block_from_cidr_names:
  assumes "Block_from_cidr c = Ok (f, b)"
  shows "Block_wf f b" and "cidr_names c f' x \<longleftrightarrow> f' = ip_family f \<and> x \<in> Block_addrs f b"
  using resolve_Some [OF Block_from_cidr_resolve [OF assms]]
  by (simp_all add: Block_wf_def Block_addrs_def AddressBlock_wf_def AddressBlock_addrs_def Block_width_eq)

text \<open>A block kept as IPv6 has no address in \<open>::ffff:0:0/96\<close>.\<close>

lemma Block_v6_not_mapped:
  assumes "Block_from_cidr c = Ok (Rule_V6, b)" and "x \<in> Block_addrs Rule_V6 b"
  shows "\<not> in_mapped_range x"
proof
  assume x: "in_mapped_range x"
  obtain ip where ip: "cidr_address c = IpV6 ip" and m: "mapped_v4_block ip (cidr_prefix c) = None"
    and nc: "\<not> covers_ipv4_mapped_range ip (cidr_prefix c)" and p: "cidr_prefix c \<le> 128"
    using assms(1)
    by (auto simp: Block_from_cidr_def Let_def split: if_splits IpAddr.splits option.splits)
  have names: "cidr_names c V6 x" using Block_from_cidr_names(2) [OF assms(1)] assms(2) by simp
  then have pre: "x div 2 ^ (128 - cidr_prefix c) = unat ip div 2 ^ (128 - cidr_prefix c)"
    by (auto simp: cidr_names_def ip Let_def split: if_splits)
  show False
  proof (cases "96 \<le> cidr_prefix c")
    case True
    then have "x div 2 ^ 32 = unat ip div 2 ^ 32" using div_div_mono [OF pre, of 32] by simp
    then have "in_mapped_range (unat ip)" using x by (simp add: in_mapped_range_def)
    then have "to_ipv4_mapped ip \<noteq> None" using to_ipv4_mapped_iff by blast
    with m True show False by (auto simp: mapped_v4_block_def)
  next
    case False
    have "x div 2 ^ 32 = unat (0xffff00000000 :: u128) div 2 ^ 32" using x by (simp add: in_mapped_range_def)
    then have "x div 2 ^ (128 - cidr_prefix c) = unat (0xffff00000000 :: u128) div 2 ^ (128 - cidr_prefix c)"
      by (rule div_div_mono) (use False in simp)
    then have "unat ip div 2 ^ (128 - cidr_prefix c) = unat (0xffff00000000 :: u128) div 2 ^ (128 - cidr_prefix c)"
      using pre by simp
    then have "covers_ipv4_mapped_range ip (cidr_prefix c)"
      unfolding covers_ipv4_mapped_range_def Let_def if_not_P [OF False] by (simp only: prefix_mask_u128 [OF p])
    with nc show False by blast
  qed
qed

section \<open>What a lowered destination matches\<close>

lemma contains_v4_from_block:
  assumes "Block_wf Rule_V4 b"
  shows "contains_v4 (RuleAddress_from_block Rule_V4 (Block_address b Rule_V4) (blk_prefix b)) a \<longleftrightarrow>
    unat a \<in> Block_addrs Rule_V4 b"
proof -
  define base where "base = (ucast (blk_base b) :: u32)"
  define p where "p = blk_prefix b"
  have al: "aligned 32 (blk_base b) p" using assms by (simp add: Block_wf_def p_def)
  then have p: "p \<le> 32" and lt: "unat (blk_base b) < 2 ^ 32" by (simp_all add: aligned_def)
  have base: "unat base = unat (blk_base b)"
    using lt by (simp add: base_def unsigned_ucast_eq unsigned_take_bit_eq take_bit_nat_eq_self)
  define str where "str = show_ipv4 base @ CHR ''/'' # show_nat p"
  have ra: "RuleAddress_from_block Rule_V4 (Block_address b Rule_V4) (blk_prefix b) =
      \<lparr>ra_family = Rule_V4, ra_text = str\<rparr>"
    by (simp add: RuleAddress_from_block_def Block_address_def base_def p_def str_def)
  have s: "split_once (CHR ''/'') str = Some (show_ipv4 base, show_nat p)"
    unfolding str_def by (rule split_once_append [OF show_ipv4_no_slash])
  have u: "parse_u8 (show_nat p) = Some p" using p by (simp add: parse_unsigned_show_nat)
  have "contains_v4 (RuleAddress_from_block Rule_V4 (Block_address b Rule_V4) (blk_prefix b)) a \<longleftrightarrow>
      base AND (if p = 0 then 0 else push_bit (32 - p) (- 1)) =
      a AND (if p = 0 then 0 else push_bit (32 - p) (- 1))"
    unfolding ra contains_v4_def using s u p by (simp only: RuleAddress.simps Let_def simp_thms if_True
        if_False option.case prod.case parse_show_ipv4)
  also have "\<dots> \<longleftrightarrow> unat a div 2 ^ (32 - p) = unat (blk_base b) div 2 ^ (32 - p)"
    unfolding prefix_mask_u32 [OF p] base by (rule eq_commute)
  also have "\<dots> \<longleftrightarrow> unat a \<in> Block_addrs Rule_V4 b"
    using aligned_span_iff [OF al, of "unat a"] by (simp add: Block_addrs_def p_def)
  finally show ?thesis .
qed

lemma contains_v4_bare: "contains_v4 \<lparr>ra_family = Rule_V4, ra_text = show_ipv4 ip\<rparr> a \<longleftrightarrow> a = ip"
proof -
  have "split_once (CHR ''/'') (show_ipv4 ip) = None"
    by (rule split_once_None [OF show_ipv4_no_slash])
  then have "contains_v4 \<lparr>ra_family = Rule_V4, ra_text = show_ipv4 ip\<rparr> a \<longleftrightarrow>
      ip AND push_bit 0 (- 1) = a AND push_bit 0 (- 1)"
    by (simp add: contains_v4_def)
  then show ?thesis by auto
qed

lemma contains_v4_any: "contains_v4 (RuleAddress_any Rule_V4) a"
proof -
  have "split_once (CHR ''/'') ''0.0.0.0/0'' = Some (''0.0.0.0'', ''0'')" by code_simp
  moreover have "parse_u8 ''0'' = Some 0" by code_simp
  moreover have "\<exists>ip. parse_ipv4 ''0.0.0.0'' = Some ip"
  proof -
    have "show_ipv4 0 = ''0.0.0.0''"
      by (simp add: show_ipv4_def octets_def show_nat_def show_radix.simps digit_char_def) code_simp
    then show ?thesis using parse_show_ipv4 [of 0] by auto
  qed
  ultimately show ?thesis by (auto simp: contains_v4_def RuleAddress_any_def)
qed

lemma contains_v4_v6: "ra_family r = Rule_V6 \<Longrightarrow> \<not> contains_v4 r a"
  by (simp add: contains_v4_def)

lemma lower_excepts_Ok:
  assumes "try_fold (lower_except f) acc xs = Ok excepts" and "\<forall>b \<in> set acc. Block_wf f b"
  shows "\<forall>b \<in> set excepts. Block_wf f b"
    and "(\<exists>b \<in> set excepts. x \<in> Block_addrs f b) \<longleftrightarrow>
      (\<exists>b \<in> set acc. x \<in> Block_addrs f b) \<or> (\<exists>e \<in> set xs. cidr_names e (ip_family f) x)"
proof -
  have "(\<forall>b \<in> set excepts. Block_wf f b) \<and>
    ((\<exists>b \<in> set excepts. x \<in> Block_addrs f b) \<longleftrightarrow>
      (\<exists>b \<in> set acc. x \<in> Block_addrs f b) \<or> (\<exists>e \<in> set xs. cidr_names e (ip_family f) x))"
    using assms
  proof (induction xs arbitrary: acc)
    case (Cons e xs)
    obtain g b where b: "Block_from_cidr e = Ok (g, b)" using Cons.prems(1)
      by (cases "Block_from_cidr e") (auto simp: lower_except_def)
    define acc' where "acc' = (if g = f then acc @ [b] else acc)"
    have step: "lower_except f acc e = Ok acc'" using b by (simp add: lower_except_def acc'_def)
    have rest: "try_fold (lower_except f) acc' xs = Ok excepts" using Cons.prems(1) step by simp
    have wf: "\<forall>b \<in> set acc'. Block_wf f b"
      using Cons.prems(2) Block_from_cidr_names(1) [OF b] by (auto simp: acc'_def)
    have "cidr_names e (ip_family f) x \<longleftrightarrow> g = f \<and> x \<in> Block_addrs f b"
      using Block_from_cidr_names(2) [OF b, of "ip_family f" x] by (cases f; cases g) auto
    then have acc': "(\<exists>b \<in> set acc'. x \<in> Block_addrs f b) \<longleftrightarrow>
        (\<exists>b \<in> set acc. x \<in> Block_addrs f b) \<or> cidr_names e (ip_family f) x"
      by (auto simp: acc'_def)
    show ?case using Cons.IH [OF rest wf] acc' by simp
  qed simp
  then show "\<forall>b \<in> set excepts. Block_wf f b"
    and "(\<exists>b \<in> set excepts. x \<in> Block_addrs f b) \<longleftrightarrow>
      (\<exists>b \<in> set acc. x \<in> Block_addrs f b) \<or> (\<exists>e \<in> set xs. cidr_names e (ip_family f) x)"
    by simp_all
qed

text \<open>One peer: the blocks it adds cover exactly what it names.\<close>

lemma peer_subtract:
  assumes "Block_from_cidr (peer_cidr peer) = Ok (f, b)"
    and "try_fold (lower_except f) [] (peer_except peer) = Ok excepts"
    and "subtract_blocks b excepts f [] n = Ok (blocks, rem)"
  shows "\<forall>c \<in> set blocks. Block_wf f c"
    and "peer_names peer f' x \<longleftrightarrow> f' = ip_family f \<and> (\<exists>c \<in> set blocks. x \<in> Block_addrs f c)"
proof -
  note b = Block_from_cidr_names [OF assms(1)]
  have wf: "bb.wf_block f b" "\<forall>e \<in> set excepts. bb.wf_block f e"
    using b(1) lower_excepts_Ok(1) [OF assms(2)] by simp_all
  have blocks: "blocks = bb.left_over f b excepts"
    using assms(3) bb.subtract_eq [OF wf, of "[]" n] by (auto split: if_splits)
  show "\<forall>c \<in> set blocks. Block_wf f c"
    using bb.left_over_wf [OF wf(1), of _ excepts, unfolded bb_wf_block] unfolding blocks by blast
  have u: "\<Union> (Block_addrs f ` set blocks) = Block_addrs f b - \<Union> (Block_addrs f ` set excepts)"
    using bb.left_over_addrs [OF wf(1), of excepts] by (simp add: blocks)
  have e: "x \<in> \<Union> (Block_addrs f ` set excepts) \<longleftrightarrow>
      (\<exists>e \<in> set (peer_except peer). cidr_names e (ip_family f) x)"
    using lower_excepts_Ok(2) [OF assms(2), of x] by simp
  have m: "(\<exists>c \<in> set blocks. x \<in> Block_addrs f c) \<longleftrightarrow>
      x \<in> Block_addrs f b \<and> \<not> (\<exists>e \<in> set (peer_except peer). cidr_names e (ip_family f) x)"
  proof -
    have "(\<exists>c \<in> set blocks. x \<in> Block_addrs f c) \<longleftrightarrow> x \<in> \<Union> (Block_addrs f ` set blocks)" by simp
    also have "\<dots> \<longleftrightarrow> x \<in> Block_addrs f b \<and> x \<notin> \<Union> (Block_addrs f ` set excepts)"
      unfolding u by (rule Diff_iff)
    finally show ?thesis unfolding e .
  qed
  show "peer_names peer f' x \<longleftrightarrow> f' = ip_family f \<and> (\<exists>c \<in> set blocks. x \<in> Block_addrs f c)"
  proof (cases "f' = ip_family f")
    case True
    show ?thesis unfolding peer_names_def True m b(2) by blast
  next
    case False
    then show ?thesis unfolding peer_names_def b(2) by blast
  qed
qed

definition covered_v4 :: "RuleAddress list \<Rightarrow> u32 \<Rightarrow> bool" where
  "covered_v4 addresses a \<longleftrightarrow> (\<exists>r \<in> set addresses. contains_v4 r a)"

lemma lower_peer_Ok:
  assumes "lower_peer budget acc peer = Ok addresses"
  shows "\<exists>new. addresses = acc @ new \<and> (covered_v4 new a \<longleftrightarrow> peer_names peer V4 (unat a))"
    and "length addresses \<le> budget"
proof -
  obtain f b excepts blocks rem where s: "Block_from_cidr (peer_cidr peer) = Ok (f, b)"
    "try_fold (lower_except f) [] (peer_except peer) = Ok excepts"
    "subtract_blocks b excepts f [] Bwrap_MAX_BLOCKS_PER_PEER = Ok (blocks, rem)"
    and a: "addresses = acc @
      map (\<lambda>b. RuleAddress_from_block f (Block_address b f) (blk_prefix b)) blocks"
    and len: "length addresses \<le> budget"
    using assms by (auto simp: lower_peer_def result_simps Let_def not_less split: if_splits)
  show "length addresses \<le> budget" by (fact len)
  have "covered_v4 (map (\<lambda>b. RuleAddress_from_block f (Block_address b f) (blk_prefix b)) blocks) a \<longleftrightarrow>
      peer_names peer V4 (unat a)"
  proof (cases f)
    case Rule_V4
    then show ?thesis
      using peer_subtract(1) [OF s] peer_subtract(2) [OF s, of V4 "unat a"] contains_v4_from_block
      by (auto simp: covered_v4_def)
  next
    case Rule_V6
    then show ?thesis
      using peer_subtract(2) [OF s, of V4 "unat a"]
      by (auto simp: covered_v4_def RuleAddress_from_block_def contains_v4_v6)
  qed
  with a show "\<exists>new. addresses = acc @ new \<and> (covered_v4 new a \<longleftrightarrow> peer_names peer V4 (unat a))"
    by blast
qed

lemma lower_peers_loop:
  assumes "try_fold (lower_peer budget) acc peers = Ok addresses"
  shows "covered_v4 addresses a \<longleftrightarrow> covered_v4 acc a \<or> (\<exists>p \<in> set peers. peer_names p V4 (unat a))"
  using assms
proof (induction peers arbitrary: acc)
  case (Cons p peers)
  then obtain acc' where acc': "lower_peer budget acc p = Ok acc'"
    and rest: "try_fold (lower_peer budget) acc' peers = Ok addresses"
    by (auto simp: result_simps)
  obtain new where "acc' = acc @ new" "covered_v4 new a \<longleftrightarrow> peer_names p V4 (unat a)"
    using lower_peer_Ok(1) [OF acc'] by blast
  with Cons.IH [OF rest] show ?case by (auto simp: covered_v4_def)
qed simp

lemma lower_peers_covered:
  assumes "lower_peers peers budget = Ok addresses"
  shows "covered_v4 addresses a \<longleftrightarrow> peers = [] \<or> (\<exists>p \<in> set peers. peer_names p V4 (unat a))"
proof (cases "peers = []")
  case True
  with assms show ?thesis by (auto simp: lower_peers_def covered_v4_def contains_v4_any)
next
  case False
  with assms lower_peers_loop [of budget "[]" peers addresses a] show ?thesis
    by (simp add: lower_peers_def covered_v4_def)
qed

subsection \<open>Ports\<close>

definition spec_matches :: "PortSpec \<Rightarrow> string \<Rightarrow> u16 \<Rightarrow> bool" where
  "spec_matches s protocol port \<longleftrightarrow>
     (case ps_protocol s of None \<Rightarrow> True | Some named \<Rightarrow> named = protocol) \<and>
     (case ps_range s of None \<Rightarrow> True | Some (a, b) \<Rightarrow> a \<le> port \<and> port \<le> b)"

lemma EgressRule_matches_iff:
  "EgressRule_matches r protocol dst port \<longleftrightarrow>
     contains_v4 (er_address r) dst \<and> spec_matches (er_port r) protocol port"
  by (auto simp: EgressRule_matches_def spec_matches_def contains_v4_def not_less
      split: option.splits if_splits)

definition range_of :: "NetworkPort \<Rightarrow> (u16 \<times> u16) option" where
  "range_of p =
     map_option (\<lambda>s. (s, case port_end_port p of Some e \<Rightarrow> e | None \<Rightarrow> s)) (port_port p)"

definition specs_of :: "NetworkPort \<Rightarrow> PortSpec list" where
  "specs_of p =
     (case port_protocol p of
        Tcp \<Rightarrow> [\<lparr>ps_protocol = Some ''tcp'', ps_range = range_of p\<rparr>]
      | Udp \<Rightarrow> [\<lparr>ps_protocol = Some ''udp'', ps_range = range_of p\<rparr>]
      | Icmp \<Rightarrow> [\<lparr>ps_protocol = Some ''icmp'', ps_range = None\<rparr>]
      | AnyProtocol \<Rightarrow>
          (if range_of p = None then [PortSpec_ALL]
           else [\<lparr>ps_protocol = Some ''tcp'', ps_range = range_of p\<rparr>,
                 \<lparr>ps_protocol = Some ''udp'', ps_range = range_of p\<rparr>]))"

lemma lower_port_Ok: "lower_port specs p = Ok specs' \<Longrightarrow> specs' = specs @ specs_of p"
  by (cases "port_port p"; cases "port_end_port p"; cases "port_protocol p")
    (simp_all add: lower_port_def specs_of_def range_of_def split: if_splits)

lemma specs_of_covers:
  "(\<exists>s \<in> set (specs_of p). spec_matches s (fl_protocol k) (fl_port k)) \<longleftrightarrow> port_covers p k"
  by (cases "port_port p"; cases "port_protocol p")
    (auto simp: specs_of_def range_of_def spec_matches_def port_covers_def PortSpec_ALL_def)

lemma lower_ports_loop:
  assumes "try_fold lower_port acc ports = Ok specs"
  shows "(\<exists>s \<in> set specs. spec_matches s (fl_protocol k) (fl_port k)) \<longleftrightarrow>
    (\<exists>s \<in> set acc. spec_matches s (fl_protocol k) (fl_port k)) \<or> (\<exists>p \<in> set ports. port_covers p k)"
  using assms
proof (induction ports arbitrary: acc)
  case (Cons p ports)
  then obtain acc' where "lower_port acc p = Ok acc'"
    and rest: "try_fold lower_port acc' ports = Ok specs"
    by (auto simp: result_simps)
  then have "acc' = acc @ specs_of p" by (intro lower_port_Ok)
  then show ?case using Cons.IH [OF rest] specs_of_covers [of p k] by (simp add: bex_Un)
qed simp

lemma lower_ports_covered:
  assumes "lower_ports ports = Ok specs"
  shows "(\<exists>s \<in> set specs. spec_matches s (fl_protocol k) (fl_port k)) \<longleftrightarrow>
    ports = [] \<or> (\<exists>p \<in> set ports. port_covers p k)"
proof (cases "ports = []")
  case True
  with assms show ?thesis by (auto simp: lower_ports_def spec_matches_def PortSpec_ALL_def)
next
  case False
  with assms lower_ports_loop [of "[]" ports specs k] show ?thesis by (simp add: lower_ports_def)
qed

subsection \<open>Rules\<close>

definition rule_hits :: "EgressRule \<Rightarrow> flow \<Rightarrow> bool" where
  "rule_hits r k = EgressRule_matches r (fl_protocol k) (of_nat (fl_dst k)) (fl_port k)"

definition v4_flow :: "flow \<Rightarrow> bool" where
  "v4_flow k \<longleftrightarrow> fl_family k = V4 \<and> flow_wf k"

fun verdict_of :: "bool \<Rightarrow> RuleVerdict" where
  "verdict_of True = Accept"
| "verdict_of False = Drop"

lemma v4_flow_dst: "v4_flow k \<Longrightarrow> unat (of_nat (fl_dst k) :: u32) = fl_dst k"
  by (auto simp: v4_flow_def flow_wf_def unat_of_nat)

lemma lower_rule_Ok:
  assumes "Bwrap_lower_rule v out rule = Ok out'"
  obtains addresses ports where
    "lower_peers (rule_to rule) (MAX_EGRESS_RULES - length out) = Ok addresses"
    and "lower_ports (rule_ports rule) = Ok ports"
    and "length addresses * length ports \<le> MAX_EGRESS_RULES - length out"
    and "out' = out @ concat (map (\<lambda>address. map (\<lambda>port.
        \<lparr>er_verdict = v, er_address = address, er_port = port\<rparr>) ports) addresses)"
  using assms by (auto simp: Bwrap_lower_rule_def result_simps Let_def checked_mul_def split: if_splits)

lemma lower_rule_covers:
  assumes "Bwrap_lower_rule v out rule = Ok out'"
  shows "\<exists>new. out' = out @ new \<and> (\<forall>r \<in> set new. er_verdict r = v) \<and>
    (\<forall>k. v4_flow k \<longrightarrow> (\<exists>r \<in> set new. rule_hits r k) = rule_covers rule k)"
proof -
  obtain addresses ports where a: "lower_peers (rule_to rule) (MAX_EGRESS_RULES - length out) = Ok addresses"
    and p: "lower_ports (rule_ports rule) = Ok ports"
    and "length addresses * length ports \<le> MAX_EGRESS_RULES - length out"
    and out': "out' = out @ concat (map (\<lambda>address. map (\<lambda>port.
        \<lparr>er_verdict = v, er_address = address, er_port = port\<rparr>) ports) addresses)"
    using assms by (rule lower_rule_Ok)
  let ?new = "concat (map (\<lambda>address. map (\<lambda>port.
        \<lparr>er_verdict = v, er_address = address, er_port = port\<rparr>) ports) addresses)"
  have "(\<exists>r \<in> set ?new. rule_hits r k) = rule_covers rule k" if k: "v4_flow k" for k
  proof -
    have "(\<exists>r \<in> set ?new. rule_hits r k) \<longleftrightarrow> covered_v4 addresses (of_nat (fl_dst k)) \<and>
        (\<exists>s \<in> set ports. spec_matches s (fl_protocol k) (fl_port k))"
      by (auto simp: rule_hits_def EgressRule_matches_iff covered_v4_def)
    also have "\<dots> \<longleftrightarrow> rule_covers rule k"
      unfolding lower_peers_covered [OF a] lower_ports_covered [OF p] rule_covers_def v4_flow_dst [OF k]
      using k by (simp add: v4_flow_def)
    finally show ?thesis .
  qed
  moreover have "\<forall>r \<in> set ?new. er_verdict r = v" by auto
  ultimately show ?thesis using out' by blast
qed

interpretation bw: rule_lowering "\<lambda>v. Bwrap_lower_rule (verdict_of v)" "\<lambda>rs. rs" rule_hits
  "\<lambda>r. er_verdict r = Accept" v4_flow
proof
  fix v s r s'
  assume "Bwrap_lower_rule (verdict_of v) s r = Ok s'"
  from lower_rule_covers [OF this]
  show "\<exists>new. s' = s @ new \<and> (\<forall>x \<in> set new. (er_verdict x = Accept) = v) \<and>
      (\<forall>k. v4_flow k \<longrightarrow> (\<exists>x \<in> set new. rule_hits x k) = rule_covers r k)"
    by (cases v) auto
qed

lemma admits_first_match:
  "admits plan (fl_protocol k) (of_nat (fl_dst k)) (fl_port k) =
     bw.first_match (ep_rules plan) (ep_v4_terminal plan = Accept) k"
  by (simp add: admits_def bw.first_match_def rule_hits_def split: option.splits)

definition gateway_rule :: EgressRule where
  "gateway_rule = \<lparr>er_verdict = Drop,
     er_address = RuleAddress_from_block Rule_V4 (IpV4 SLIRP_HOST_GATEWAY_IP) 32,
     er_port = PortSpec_ALL\<rparr>"

lemma gateway_rule_hits:
  assumes "v4_flow k"
  shows "rule_hits gateway_rule k \<longleftrightarrow> fl_dst k = unat SLIRP_HOST_GATEWAY_IP"
proof -
  define b where "b = \<lparr>blk_base = ucast SLIRP_HOST_GATEWAY_IP, blk_prefix = 32\<rparr>"
  have b: "unat (blk_base b) = unat SLIRP_HOST_GATEWAY_IP" "blk_prefix b = 32"
    by (simp_all add: b_def unat_ucast_u32)
  have "unat SLIRP_HOST_GATEWAY_IP < 2 ^ 32" by (simp add: SLIRP_HOST_GATEWAY_IP_def)
  then have wf: "Block_wf Rule_V4 b" using b by (simp add: Block_wf_def aligned_def)
  have ip: "Block_address b Rule_V4 = IpV4 SLIRP_HOST_GATEWAY_IP"
    by (simp add: b_def Block_address_def SLIRP_HOST_GATEWAY_IP_def)
  have "rule_hits gateway_rule k \<longleftrightarrow>
      contains_v4 (RuleAddress_from_block Rule_V4 (IpV4 SLIRP_HOST_GATEWAY_IP) 32) (of_nat (fl_dst k))"
    by (simp add: rule_hits_def gateway_rule_def EgressRule_matches_iff spec_matches_def PortSpec_ALL_def)
  also have "\<dots> \<longleftrightarrow> fl_dst k \<in> Block_addrs Rule_V4 b"
    using contains_v4_from_block [OF wf, of "of_nat (fl_dst k)"]
    unfolding ip b(2) v4_flow_dst [OF assms] .
  also have "\<dots> \<longleftrightarrow> fl_dst k = unat SLIRP_HOST_GATEWAY_IP"
    by (simp add: Block_addrs_def block_span_def b)
  finally show ?thesis .
qed

lemma lower_rule_budget:
  assumes "Bwrap_lower_rule v out rule = Ok out'" and "length out \<le> MAX_EGRESS_RULES"
  shows "length out' \<le> MAX_EGRESS_RULES"
proof -
  obtain addresses ports where
    "lower_peers (rule_to rule) (MAX_EGRESS_RULES - length out) = Ok addresses"
    and "lower_ports (rule_ports rule) = Ok ports"
    and le: "length addresses * length ports \<le> MAX_EGRESS_RULES - length out"
    and out': "out' = out @ concat (map (\<lambda>address. map (\<lambda>port.
        \<lparr>er_verdict = v, er_address = address, er_port = port\<rparr>) ports) addresses)"
    using assms(1) by (rule lower_rule_Ok)
  have "length (concat (map (\<lambda>address. map (\<lambda>port.
        \<lparr>er_verdict = v, er_address = address, er_port = port\<rparr>) ports) addresses)) =
      length addresses * length ports"
    by (induction addresses) simp_all
  with le out' assms(2) show ?thesis by simp
qed

lemma lower_rules_budget:
  assumes "try_fold (Bwrap_lower_rule v) out rs = Ok out'" and "length out \<le> MAX_EGRESS_RULES"
  shows "length out' \<le> MAX_EGRESS_RULES"
  using assms
proof (induction rs arbitrary: out)
  case (Cons r rs)
  then obtain out1 where "Bwrap_lower_rule v out r = Ok out1"
    and rest: "try_fold (Bwrap_lower_rule v) out1 rs = Ok out'"
    by (auto simp: result_simps)
  then show ?case using Cons.IH lower_rule_budget Cons.prems(2) by blast
qed simp

lemma directional_Ok:
  assumes "for_directional_policy_with_ingress e host_loopback = Ok plan"
  obtains rs1 rs2 where
    "try_fold (Bwrap_lower_rule Drop) (if host_loopback = Deny then [gateway_rule] else []) (eg_deny e) = Ok rs1"
    and "try_fold (Bwrap_lower_rule Accept) rs1 (eg_allow e) = Ok rs2"
    and "ep_rules plan = rs2"
    and "ep_v4_terminal plan = (if eg_default e = Allow then Accept else Drop)"
  using assms
  by (cases "host_loopback = Deny"; cases "eg_default e")
    (auto simp: for_directional_policy_with_ingress_def gateway_rule_def Let_def result_simps)

lemma decimal_width_loop_bound: "n < 10 ^ (decimal_width_loop w n - w + 1) \<and> w \<le> decimal_width_loop w n"
proof (induction w n rule: decimal_width_loop.induct)
  case (1 w n)
  show ?case
  proof (cases "10 \<le> n")
    case True
    let ?d = "decimal_width_loop (w + 1) (n div 10)"
    from 1 [OF True] have lt: "n div 10 < 10 ^ (?d - (w + 1) + 1)" and le: "w + 1 \<le> ?d" by auto
    have "?d - w + 1 = Suc (?d - (w + 1) + 1)" using le by simp
    then have "n < 10 ^ (?d - w + 1)" using lt by (simp add: div_less_iff_less_mult mult.commute)
    then show ?thesis using True le by (simp add: decimal_width_loop.simps [of w n])
  qed (simp add: decimal_width_loop.simps [of w n])
qed

lemma decimal_width_bound: "n < 10 ^ decimal_width n"
proof -
  have "n < 10 ^ (decimal_width_loop 1 n - 1 + 1)" "1 \<le> decimal_width_loop 1 n"
    using decimal_width_loop_bound [of n 1] by blast+
  then show ?thesis by (simp only: decimal_width_def le_add_diff_inverse2)
qed

lemma digit_char_0: "digit_char 0 = CHR ''0''"
  by code_simp

text \<open>The fixed-width decimal numeral, and its lexicographic order.\<close>

fun fixed_decimal :: "nat \<Rightarrow> nat \<Rightarrow> string" where
  "fixed_decimal 0 n = []"
| "fixed_decimal (Suc w) n = fixed_decimal w (n div 10) @ [digit_char (n mod 10)]"

definition byte_less :: "(char \<times> char) set" where
  "byte_less = {(c, d). (of_char c :: nat) < of_char d}"

lemma fixed_decimal_length [simp]: "length (fixed_decimal w n) = w"
  by (induction w arbitrary: n) simp_all

lemma fixed_decimal_zero: "fixed_decimal w 0 = replicate w (CHR ''0'')"
  by (induction w) (simp_all add: digit_char_0 replicate_append_same)

lemma show_padded_fixed: "n < 10 ^ Suc w \<Longrightarrow> show_padded (Suc w) n = fixed_decimal (Suc w) n"
proof (induction w arbitrary: n)
  case 0
  then show ?case by (simp add: show_padded_def show_nat_small)
next
  case (Suc w)
  show ?case
  proof (cases "10 \<le> n")
    case True
    have "n div 10 < 10 ^ Suc w" using Suc.prems by (simp add: div_less_iff_less_mult mult.commute)
    from Suc.IH [OF this] show ?thesis
      by (simp add: show_padded_def show_nat_step [OF True])
  next
    case False
    then have "n div 10 = 0" by simp
    with False show ?thesis
      by (simp add: show_padded_def show_nat_small fixed_decimal_zero replicate_append_same [symmetric]
          digit_char_def)
  qed
qed

lemma fixed_decimal_lex: "i < j \<Longrightarrow> j < 10 ^ w \<Longrightarrow> (fixed_decimal w i, fixed_decimal w j) \<in> lexord byte_less"
proof (induction w arbitrary: i j)
  case (Suc w)
  show ?case
  proof (cases "i div 10 < j div 10")
    case True
    have "j div 10 < 10 ^ w" using Suc.prems(2) by (simp add: div_less_iff_less_mult mult.commute)
    from Suc.IH [OF True this] show ?thesis by (simp add: lexord_sufI)
  next
    case False
    then have eq: "i div 10 = j div 10" using Suc.prems(1) by (meson div_le_mono less_imp_le not_less_iff_gr_or_eq antisym_conv not_less)
    then have "i mod 10 < j mod 10" using Suc.prems(1) by (metis div_mult_mod_eq nat_add_left_cancel_less)
    then have "([digit_char (i mod 10)], [digit_char (j mod 10)]) \<in> lexord byte_less"
      by (simp add: byte_less_def digit_char_def)
    then show ?thesis by (simp add: eq lexord_append_leftI)
  qed
qed simp

text \<open>A policy that allows one peer with an exclusion on port 443 and denies everything else.\<close>

definition example_egress :: NetworkEgressPolicy where
  "example_egress =
     \<lparr>eg_default = Deny,
      eg_allow = [\<lparr>rule_to = [\<lparr>peer_cidr = \<lparr>cidr_address = IpV4 0x0A000200, cidr_prefix = 30\<rparr>,
                              peer_except = [\<lparr>cidr_address = IpV4 0x0A000201, cidr_prefix = 32\<rparr>]\<rparr>],
                   rule_ports = [\<lparr>port_protocol = Tcp, port_port = Some 443, port_end_port = None\<rparr>]\<rparr>],
      eg_deny = []\<rparr>"

lemmas bwrap_eval = for_directional_policy_with_ingress_def Bwrap_lower_rule_def lower_peers_def lower_peer_def
  lower_ports_def lower_port_def lower_except_def Block_from_cidr_def mapped_v4_block_def
  covers_ipv4_mapped_range_def to_ipv4_mapped_def subtract_blocks.simps Block_contains_def Block_intersects_def
  Block_last_def Block_host_mask_def Block_address_def Bwrap_MAX_BLOCKS_PER_PEER_def MAX_EGRESS_RULES_def
  checked_mul_def RuleAddress_any_def PortSpec_ALL_def Let_def

lemma example_plan_Ok: "\<exists>plan. for_directional_policy_with_ingress example_egress Deny = Ok plan"
  by (simp add: bwrap_eval example_egress_def)

lemma example_admits:
  "policy_admits example_egress
     \<lparr>fl_family = V4, fl_dst = unat (0x0A000200 :: u32) + n, fl_protocol = ''tcp'', fl_port = 443\<rparr> \<longleftrightarrow>
   n < 4 \<and> n \<noteq> 1"
proof -
  have "(0xA000200 + n) div 4 = (41943168 :: nat) \<longleftrightarrow> n < 4" by presburger
  then show ?thesis
    by (auto simp: policy_admits_def example_egress_def rule_covers_def port_covers_def peer_names_def
        cidr_names_def)
qed

text \<open>
  A prefix of 97 or more inside \<open>::ffff:0:0/96\<close> is in range for its family and becomes the IPv4 block of
  prefix minus 96; the comment in \<open>Block::from_cidr\<close> calls \<open>::ffff:0:0/97\<close> out of range.
\<close>

lemma mapped_97_accepted:
  "Block_from_cidr \<lparr>cidr_address = IpV6 0xffff00000000, cidr_prefix = 97\<rparr> =
     Ok (Rule_V4, \<lparr>blk_base = 0, blk_prefix = 1\<rparr>)"
  by (simp add: bwrap_eval)

section \<open>Properties\<close>

text \<open>
  C2: A Bubblewrap egress plan admits what the policy admits. For every IPv4 flow, the plan lowered
  from a directional policy admits it exactly when no deny rule covers it, an allow rule covers it
  or the default is allow, and it is not addressed to the host gateway while host loopback is denied.
\<close>

theorem directional_plan_admits:
  assumes "for_directional_policy_with_ingress e host_loopback = Ok plan" and "v4_flow k"
  shows "admits plan (fl_protocol k) (of_nat (fl_dst k)) (fl_port k) \<longleftrightarrow>
    \<not> (host_loopback = Deny \<and> fl_dst k = unat SLIRP_HOST_GATEWAY_IP) \<and> policy_admits e k"
proof -
  let ?ahead = "if host_loopback = Deny then [gateway_rule] else []"
  obtain rs1 rs2 where d: "try_fold (Bwrap_lower_rule Drop) ?ahead (eg_deny e) = Ok rs1"
    and a: "try_fold (Bwrap_lower_rule Accept) rs1 (eg_allow e) = Ok rs2"
    and plan: "ep_rules plan = rs2" "ep_v4_terminal plan = (if eg_default e = Allow then Accept else Drop)"
    using assms(1) by (rule directional_Ok)
  have "admits plan (fl_protocol k) (of_nat (fl_dst k)) (fl_port k) = bw.first_match rs2 (eg_default e = Allow) k"
    unfolding admits_first_match plan by simp
  also have "\<dots> \<longleftrightarrow> \<not> (\<exists>x \<in> set ?ahead. rule_hits x k) \<and> policy_admits e k"
    using bw.chain_decides [of ?ahead e rs1 rs2 k] d a assms(2) by (simp add: gateway_rule_def)
  also have "(\<exists>x \<in> set ?ahead. rule_hits x k) \<longleftrightarrow>
      host_loopback = Deny \<and> fl_dst k = unat SLIRP_HOST_GATEWAY_IP"
    using gateway_rule_hits [OF assms(2)] by simp
  finally show ?thesis .
qed

theorem directional_plan_admits_witness:
  "\<exists>plan. for_directional_policy_with_ingress example_egress Deny = Ok plan \<and>
     admits plan ''tcp'' 0x0A000203 443 \<and>
     \<not> admits plan ''tcp'' 0x0A000201 443 \<and> \<not> admits plan ''tcp'' 0x0A000202 443"
proof -
  obtain plan where plan: "for_directional_policy_with_ingress example_egress Deny = Ok plan"
    using example_plan_Ok by blast
  have "admits plan ''tcp'' (of_nat (0x0A000200 + n)) 443 \<longleftrightarrow>
      0x0A000200 + n \<noteq> (0x0A000202 :: nat) \<and> n < 4 \<and> n \<noteq> 1" if "n < 4" for n
    using that example_admits [of n] directional_plan_admits [OF plan, of
        "\<lparr>fl_family = V4, fl_dst = 0x0A000200 + n, fl_protocol = ''tcp'', fl_port = 443\<rparr>"]
    by (simp add: v4_flow_def flow_wf_def SLIRP_HOST_GATEWAY_IP_def)
  from this [of 3] this [of 1] this [of 2] show ?thesis using plan by simp
qed

text \<open>
  C26: The plan of a proxied sandbox opens one door: it admits exactly TCP to the proxy's address and
  port, and its terminal verdict for both families is to drop.
\<close>

theorem proxy_plan_admits:
  "(admits (EgressPlan_for_proxy ip port) protocol destination p \<longleftrightarrow>
     protocol = ''tcp'' \<and> destination = ip \<and> p = port) \<and>
   ep_v4_terminal (EgressPlan_for_proxy ip port) = Drop \<and>
   ep_v6_terminal (EgressPlan_for_proxy ip port) = Drop \<and>
   (\<forall>r. r \<in> set (ep_rules (EgressPlan_for_proxy ip port)) \<longrightarrow> ra_family (er_address r) = Rule_V4)"
  by (auto simp: admits_def EgressPlan_for_proxy_def EgressRule_matches_iff spec_matches_def
      PortSpec_tcp_port_def contains_v4_bare split: option.splits)

theorem proxy_plan_admits_witness:
  "admits (EgressPlan_for_proxy 0x0A000202 8080) ''tcp'' 0x0A000202 8080 \<and>
   \<not> admits (EgressPlan_for_proxy 0x0A000202 8080) ''udp'' 0x0A000202 8080"
  using proxy_plan_admits [of "0x0A000202" 8080] by simp

text \<open>
  The rule ceiling holds: a plan built from a directional policy never has more than
  \<open>MAX_EGRESS_RULES\<close> rules, the gateway rule included.
\<close>

lemma directional_plan_bounded:
  assumes "for_directional_policy_with_ingress e host_loopback = Ok plan"
  shows "length (ep_rules plan) \<le> MAX_EGRESS_RULES"
proof -
  obtain rs1 rs2 where d: "try_fold (Bwrap_lower_rule Drop)
      (if host_loopback = Deny then [gateway_rule] else []) (eg_deny e) = Ok rs1"
    and a: "try_fold (Bwrap_lower_rule Accept) rs1 (eg_allow e) = Ok rs2"
    and plan: "ep_rules plan = rs2"
    and "ep_v4_terminal plan = (if eg_default e = Allow then Accept else Drop)"
    using assms by (rule directional_Ok)
  have "length rs1 \<le> MAX_EGRESS_RULES"
    by (rule lower_rules_budget [OF d]) (simp add: MAX_EGRESS_RULES_def)
  then show ?thesis unfolding plan by (rule lower_rules_budget [OF a])
qed

lemma directional_plan_bounded_witness:
  "\<exists>plan. for_directional_policy_with_ingress example_egress Deny = Ok plan \<and>
     length (ep_rules plan) \<le> MAX_EGRESS_RULES"
  using example_plan_Ok directional_plan_bounded by blast

text \<open>
  Payload files sort as they must be applied. Their names, in the byte order a directory listing
  sorts by, follow the payload index: for any count of payloads, an earlier payload's name comes
  strictly before a later one's.
\<close>

lemma payload_names_ordered:
  assumes "i < j" and "j < count"
  shows "(payload_file_name family i count, payload_file_name family j count) \<in> lexord byte_less"
proof -
  define w where "w = max (decimal_width (count - 1)) PAYLOAD_INDEX_MIN_WIDTH"
  have "count - 1 < 10 ^ decimal_width (count - 1)" by (rule decimal_width_bound)
  also have "\<dots> \<le> 10 ^ w" by (rule power_increasing) (simp_all add: w_def)
  finally have j: "j < 10 ^ w" using assms(2) by simp
  obtain v where v: "w = Suc v" by (cases w) (simp_all add: w_def PAYLOAD_INDEX_MIN_WIDTH_def)
  have "show_padded w n = fixed_decimal w n" if "n \<le> j" for n
    unfolding v by (rule show_padded_fixed) (use that j v in simp)
  then have "(show_padded w i, show_padded w j) \<in> lexord byte_less"
    using fixed_decimal_lex [OF assms(1) j] assms(1) by simp
  then show ?thesis by (simp add: payload_file_name_def w_def lexord_append_leftI)
qed

lemma payload_names_ordered_witness:
  "(payload_file_name Rule_V4 9 1200, payload_file_name Rule_V4 1000 1200) \<in> lexord byte_less"
  by (rule payload_names_ordered) simp_all

text \<open>
  C25: Splitting a rule set into \<open>iptables-restore\<close> payloads loses and reorders nothing. The chain lines
  of the egress and then the ingress section, each appended to its own chain, are spread over the
  payloads in order; the chains are declared in the first payload only, both chains are hooked in the
  last payload only (so a chain is never live before it is complete), every payload is a complete
  \<open>*filter\<close> transaction, and each one is within the byte budget unless it holds at most one line.
\<close>

theorem payloads_keep_rules:
  "\<exists>chunks. chunks \<noteq> [] \<and>
     concat chunks =
       map (\<lambda>line. ''-A '' @ ec @ '' '' @ line @ [CHR 0x0A]) (EgressPlan_chain_lines egress family) @
       map (\<lambda>line. ''-A '' @ ic @ '' '' @ line @ [CHR 0x0A]) (IngressPlan_chain_lines ingress family) \<and>
     render_filter_payloads egress ingress family ec ic =
       map (\<lambda>i. filter_header @
           (if i = 0 then '':'' @ ec @ '' - [0:0]'' @ [CHR 0x0A] @ '':'' @ ic @ '' - [0:0]'' @ [CHR 0x0A] else []) @
           concat (chunks ! i) @
           (if Suc i = length chunks
            then ''-A OUTPUT -j '' @ ec @ [CHR 0x0A] @ ''-A INPUT -j '' @ ic @ [CHR 0x0A] else []) @
           COMMIT) [0..<length chunks] \<and>
     list_all2 (\<lambda>payload chunk. length payload \<le> RESTORE_PAYLOAD_BUDGET \<or> length chunk \<le> 1)
       (render_filter_payloads egress ingress family ec ic) chunks"
  using split_payloads_chunks unfolding render_split payload_of_def within_budget_def append.assoc by blast

end
