(* ===== verification/Lxc_Egress.thy ===== *)
theory Lxc_Egress
  imports Net_Policy
begin

text \<open>
  The pure half of the LXC firewall, \<open>network_iptables.rs\<close>: the network plan, chain names, lowering of
  a directional policy to ordered entries, and the \<open>iptables\<close> argument lists. SHA-256 is a parameter.
  The lemmas show that the entries, read first match first, decide every IPv4 and IPv6 flow as the
  policy does, that the argument lists are the entries of each family in order, and that chain names
  fit the kernel's limit. The half that runs commands is in \<open>Lxc_Firewall\<close>.
\<close>

unbundle bit_operations_syntax

section \<open>The network plan\<close>

datatype NetworkPlan = Isolated | Filtered

fun omits_interface :: "NetworkPlan \<Rightarrow> bool" where
  "omits_interface Isolated = True"
| "omits_interface Filtered = False"

fun installs_firewall :: "NetworkPlan \<Rightarrow> bool" where
  "installs_firewall Isolated = False"
| "installs_firewall Filtered = True"

definition plan_network :: "ContainerPolicy \<Rightarrow> NetworkPlan" where
  "plan_network policy =
     (let egress_permits_nothing =
        (case network_egress policy of
           Some egress \<Rightarrow> eg_default egress = Deny \<and> eg_allow egress = []
         | None \<Rightarrow> True);
        ingress_permits_nothing =
          (case network_ingress policy of
             Some ingress \<Rightarrow> in_default ingress = Deny \<and> in_host_loopback ingress = Deny
           | None \<Rightarrow> True)
      in if egress_permits_nothing \<and> ingress_permits_nothing then Isolated else Filtered)"

definition needs_network :: "ContainerPolicy \<Rightarrow> bool" where
  "needs_network policy = (\<not> omits_interface (plan_network policy))"

section \<open>Entries\<close>

datatype RuleAction = RA_Allow | RA_Deny

datatype TransportProtocol = TP_Tcp | TP_Udp

fun TransportProtocol_as_arg :: "TransportProtocol \<Rightarrow> string" where
  "TransportProtocol_as_arg TP_Tcp = ''tcp''"
| "TransportProtocol_as_arg TP_Udp = ''udp''"

record PortRange =
  pr_start :: u16
  pr_end :: u16

datatype RuleMatch =
    AnyTraffic
  | IcmpTraffic
  | Transport TransportProtocol "PortRange option"

record EgressEntry =
  ee_destination :: NetworkCidr
  ee_action :: RuleAction
  ee_matching :: RuleMatch

record FirewallRuleArgs =
  fa_ipv4 :: "string list list"
  fa_ipv6 :: "string list list"

definition FirewallRuleArgs_default :: FirewallRuleArgs where
  "FirewallRuleArgs_default = \<lparr>fa_ipv4 = [], fa_ipv6 = []\<rparr>"

definition FirewallRuleArgs_extend :: "FirewallRuleArgs \<Rightarrow> FirewallRuleArgs \<Rightarrow> FirewallRuleArgs" where
  "FirewallRuleArgs_extend self other =
     \<lparr>fa_ipv4 = fa_ipv4 self @ fa_ipv4 other, fa_ipv6 = fa_ipv6 self @ fa_ipv6 other\<rparr>"

section \<open>Chain names\<close>

definition CHAIN_NAME_MAX_LEN :: nat where
  "CHAIN_NAME_MAX_LEN = 28"

definition CHAIN_HASH_BYTES :: nat where
  "CHAIN_HASH_BYTES = 10"

definition CHAIN_SLUG_LEN :: nat where
  "CHAIN_SLUG_LEN = 7"

definition INGRESS_CHAIN_SLUG_LEN :: nat where
  "INGRESS_CHAIN_SLUG_LEN = 6"

definition BASE32_LOWER :: string where
  "BASE32_LOWER = ''abcdefghijklmnopqrstuvwxyz234567''"

text \<open>
  The state of the loop is the output, the accumulator and the count of pending bits. The inner loop
  is \<open>base32_drain\<close>, then one round of the outer loop.
\<close>

fun base32_drain :: "u16 \<Rightarrow> string \<Rightarrow> nat \<Rightarrow> string \<times> nat" where
  "base32_drain acc out pending =
     (if pending \<ge> 5 then
        base32_drain acc (out @ [BASE32_LOWER ! unat (drop_bit (pending - 5) acc AND 0x1f)]) (pending - 5)
      else (out, pending))"

declare base32_drain.simps [simp del]

definition base32_byte :: "string \<times> u16 \<times> nat \<Rightarrow> 8 word \<Rightarrow> string \<times> u16 \<times> nat" where
  "base32_byte st byte =
     (let (out, accumulator, pending_bits) = st;
          accumulator = push_bit 8 accumulator OR ucast byte;
          (out, pending_bits) = base32_drain accumulator out (pending_bits + 8)
      in (out, accumulator, pending_bits))"

definition base32_lower :: "8 word list \<Rightarrow> string" where
  "base32_lower bytes =
     (let (out, accumulator, pending_bits) = foldl base32_byte ([], 0, 0) bytes
      in if pending_bits > 0
         then out @ [BASE32_LOWER ! unat (push_bit (5 - pending_bits) accumulator AND 0x1f)]
         else out)"

text \<open>\<open>sha\<close> is \<open>hashing::sha256\<close>, a call into the \<open>sha2\<close> crate.\<close>

definition chain_name_with_prefix :: "(string \<Rightarrow> 8 word list) \<Rightarrow> string \<Rightarrow> nat \<Rightarrow> string \<Rightarrow> string" where
  "chain_name_with_prefix sha prefix slug_len container_name =
     (let digest = sha container_name;
          hash = base32_lower (take CHAIN_HASH_BYTES digest);
          slug = take slug_len
            (filter (\<lambda>c. is_ascii_alphanumeric c \<or> c = CHR ''-'' \<or> c = CHR ''_'') container_name)
      in if slug = [] then prefix @ hash else prefix @ slug @ ''-'' @ hash)"

definition chain_name_for :: "(string \<Rightarrow> 8 word list) \<Rightarrow> string \<Rightarrow> string" where
  "chain_name_for sha container_name = chain_name_with_prefix sha ''MXC-'' CHAIN_SLUG_LEN container_name"

definition ingress_chain_name_for :: "(string \<Rightarrow> 8 word list) \<Rightarrow> string \<Rightarrow> string" where
  "ingress_chain_name_for sha container_name =
     chain_name_with_prefix sha ''MXCI-'' INGRESS_CHAIN_SLUG_LEN container_name"

section \<open>Rule arguments\<close>

fun rule_action_arg :: "RuleAction \<Rightarrow> string" where
  "rule_action_arg RA_Allow = ''ACCEPT''"
| "rule_action_arg RA_Deny = ''DROP''"

definition build_loopback_accept_rule_args :: "string \<Rightarrow> string list" where
  "build_loopback_accept_rule_args chain_name = [''-A'', chain_name, ''-o'', ''lo'', ''-j'', ''ACCEPT'']"

definition build_base_chain_rule_args :: "string \<Rightarrow> string list list" where
  "build_base_chain_rule_args chain_name =
     [build_loopback_accept_rule_args chain_name,
      [''-A'', chain_name, ''-m'', ''conntrack'', ''--ctstate'', ''ESTABLISHED,RELATED'', ''-j'', ''ACCEPT'']]"

fun default_policy_action :: "NetworkAction \<Rightarrow> string" where
  "default_policy_action Deny = ''DROP''"
| "default_policy_action Allow = ''ACCEPT''"

definition build_default_policy_rule_arg :: "string \<Rightarrow> NetworkAction \<Rightarrow> string list" where
  "build_default_policy_rule_arg chain_name policy =
     [''-A'', chain_name, ''-j'', default_policy_action policy]"

definition build_match_args :: "RuleMatch \<Rightarrow> IpFamily \<Rightarrow> string list" where
  "build_match_args matching family =
     (case (case matching of
              AnyTraffic \<Rightarrow> None
            | IcmpTraffic \<Rightarrow> Some ((case family of V4 \<Rightarrow> ''icmp'' | V6 \<Rightarrow> ''icmpv6''), None)
            | Transport protocol ports \<Rightarrow> Some (TransportProtocol_as_arg protocol, ports)) of
        None \<Rightarrow> []
      | Some (protocol, ports) \<Rightarrow>
          [''-p'', protocol] @
          (case ports of
             None \<Rightarrow> []
           | Some r \<Rightarrow>
               [''--dport'',
                if pr_start r = pr_end r then show_nat (unat (pr_start r))
                else show_nat (unat (pr_start r)) @ '':'' @ show_nat (unat (pr_end r))]))"

definition build_single_rule_args ::
    "string \<Rightarrow> string \<Rightarrow> RuleAction \<Rightarrow> RuleMatch \<Rightarrow> IpFamily \<Rightarrow> string list" where
  "build_single_rule_args chain_name destination action matching family =
     [''-A'', chain_name, ''-d'', destination] @ build_match_args matching family @
     [''-j'', rule_action_arg action]"

definition build_destination_rule_args ::
    "string \<Rightarrow> NetworkCidr \<Rightarrow> RuleAction \<Rightarrow> RuleMatch \<Rightarrow> FirewallRuleArgs" where
  "build_destination_rule_args chain_name destination action matching =
     (case resolve destination of
        None \<Rightarrow> FirewallRuleArgs_default
      | Some (family, block) \<Rightarrow>
          let destination = show_ip (AddressBlock_address block family) @ ''/'' @ show_nat (ab_prefix block);
              rule = build_single_rule_args chain_name destination action matching family
          in (case family of
                V4 \<Rightarrow> \<lparr>fa_ipv4 = [rule], fa_ipv6 = []\<rparr>
              | V6 \<Rightarrow> \<lparr>fa_ipv4 = [], fa_ipv6 = [rule]\<rparr>))"

section \<open>Lowering\<close>

definition effective_default_policy :: "ContainerPolicy \<Rightarrow> NetworkAction" where
  "effective_default_policy policy =
     (case network_egress policy of None \<Rightarrow> Deny | Some egress \<Rightarrow> eg_default egress)"

definition peer_destinations :: "NetworkPeer \<Rightarrow> string + NetworkCidr list" where
  "peer_destinations peer =
     and_then (peer_blocks peer) (\<lambda>r.
       case r of
         None \<Rightarrow> Ok [peer_cidr peer]
       | Some (family, blocks) \<Rightarrow>
           Ok (map (\<lambda>block. \<lparr>cidr_address = AddressBlock_address block family,
                             cidr_prefix = ab_prefix block\<rparr>) blocks))"

definition every_destination_peers :: "NetworkPeer list" where
  "every_destination_peers =
     [\<lparr>peer_cidr = \<lparr>cidr_address = IpV4 0, cidr_prefix = 0\<rparr>, peer_except = []\<rparr>,
      \<lparr>peer_cidr = \<lparr>cidr_address = IpV6 0, cidr_prefix = 0\<rparr>, peer_except = []\<rparr>]"

definition lower_port_selector :: "NetworkPort \<Rightarrow> RuleMatch list" where
  "lower_port_selector port =
     (let ports = map_option (\<lambda>start. \<lparr>pr_start = start,
            pr_end = (case port_end_port port of Some e \<Rightarrow> e | None \<Rightarrow> start)\<rparr>) (port_port port)
      in case port_protocol port of
           Icmp \<Rightarrow> [IcmpTraffic]
         | Tcp \<Rightarrow> [Transport TP_Tcp ports]
         | Udp \<Rightarrow> [Transport TP_Udp ports]
         | AnyProtocol \<Rightarrow>
             (case ports of
                None \<Rightarrow> [AnyTraffic]
              | Some _ \<Rightarrow> [Transport TP_Tcp ports, Transport TP_Udp ports]))"

definition lower_port_selectors :: "NetworkPort list \<Rightarrow> RuleMatch list" where
  "lower_port_selectors ports =
     (if ports = [] then [AnyTraffic] else concat (map lower_port_selector ports))"

definition too_many_entries :: string where
  "too_many_entries =
     ''network.egress expands into more than '' @ show_nat MAX_EGRESS_ENTRIES @
     '' firewall rules. A rule becomes every destination block it resolves to in '' @
     ''every port it names, so narrow the peers, the exclusions, or the ports.''"

text \<open>The three nested loops of \<open>lower_rule\<close>; the state is the entries and the remaining budget.\<close>

definition push_entry ::
    "RuleAction \<Rightarrow> NetworkCidr \<Rightarrow> EgressEntry list \<times> nat \<Rightarrow> RuleMatch \<Rightarrow> string + EgressEntry list \<times> nat" where
  "push_entry action destination st matching =
     (let (entries, remaining) = st in
      if remaining = 0 then Err too_many_entries
      else Ok (entries @ [\<lparr>ee_destination = destination, ee_action = action, ee_matching = matching\<rparr>],
               remaining - 1))"

definition push_peer ::
    "RuleAction \<Rightarrow> RuleMatch list \<Rightarrow> EgressEntry list \<times> nat \<Rightarrow> NetworkPeer \<Rightarrow> string + EgressEntry list \<times> nat" where
  "push_peer action matches st peer =
     and_then (peer_destinations peer) (\<lambda>destinations.
       try_fold (\<lambda>st destination. try_fold (push_entry action destination) st matches) st destinations)"

definition Lxc_lower_rule ::
    "RuleAction \<Rightarrow> EgressEntry list \<times> nat \<Rightarrow> NetworkRule \<Rightarrow> string + EgressEntry list \<times> nat" where
  "Lxc_lower_rule action st rule =
     (let matches = lower_port_selectors (rule_ports rule);
          peers = (if rule_to rule = [] then every_destination_peers else rule_to rule)
      in try_fold (push_peer action matches) st peers)"

definition lower_directional_egress :: "NetworkEgressPolicy \<Rightarrow> string + EgressEntry list" where
  "lower_directional_egress egress =
     and_then (try_fold (Lxc_lower_rule RA_Deny) ([], MAX_EGRESS_ENTRIES) (eg_deny egress)) (\<lambda>st.
     and_then (try_fold (Lxc_lower_rule RA_Allow) st (eg_allow egress)) (\<lambda>(entries, remaining).
     Ok entries))"

definition lower_egress :: "ContainerPolicy \<Rightarrow> string + EgressEntry list" where
  "lower_egress policy =
     (case network_egress policy of
        Some egress \<Rightarrow> lower_directional_egress egress
      | None \<Rightarrow> Ok [])"

definition validate_egress_lowering :: "ContainerPolicy \<Rightarrow> string + unit" where
  "validate_egress_lowering policy = and_then (lower_egress policy) (\<lambda>_. Ok ())"

section \<open>Destinations\<close>

lemma block_span_bound:
  assumes "aligned w a p" and "x \<in> block_span w a p"
  shows "x < 2 ^ w"
proof -
  obtain q where q: "unat a = 2 ^ (w - p) * q" using assms(1) by (auto simp: aligned_def)
  have w: "(2::nat) ^ w = 2 ^ (w - p) * 2 ^ p" using assms(1) by (simp add: aligned_def flip: power_add)
  have "2 ^ (w - p) * q < 2 ^ (w - p) * (2 ^ p :: nat)" using assms(1) q w by (simp add: aligned_def)
  then have "Suc q \<le> 2 ^ p" by simp
  then have "2 ^ (w - p) * Suc q \<le> 2 ^ (w - p) * (2 ^ p :: nat)" by (rule mult_le_mono2)
  then show ?thesis using assms(2) w by (simp add: block_span_def span_def q)
qed

lemma block_outside_iff:
  assumes "AddressBlock_wf V6 b"
  shows "(\<exists>x \<in> AddressBlock_addrs V6 b. \<not> in_mapped_range x) \<longleftrightarrow>
    \<not> (in_mapped_range (unat (ab_base b)) \<and> 96 \<le> ab_prefix b)"
proof -
  have mem: "x \<in> AddressBlock_addrs V6 b \<longleftrightarrow>
      x div 2 ^ (128 - ab_prefix b) = unat (ab_base b) div 2 ^ (128 - ab_prefix b)" for x
    using aligned_span_iff assms by (simp add: AddressBlock_addrs_def AddressBlock_wf_def)
  have base: "unat (ab_base b) \<in> AddressBlock_addrs V6 b" by (rule iffD2 [OF mem refl])
  show ?thesis
  proof (cases "96 \<le> ab_prefix b")
    case True
    have "x div 2 ^ 32 = unat (ab_base b) div 2 ^ 32" if "x \<in> AddressBlock_addrs V6 b" for x
      by (rule div_div_mono [OF iffD1 [OF mem that]]) (use True in linarith)
    then have "in_mapped_range x \<longleftrightarrow> in_mapped_range (unat (ab_base b))" if "x \<in> AddressBlock_addrs V6 b" for x
      unfolding in_mapped_range_def using that by metis
    with base True show ?thesis by blast
  next
    case False
    have "(2::nat) ^ 32 < 2 ^ (128 - ab_prefix b)" by (rule power_strict_increasing) (use False in linarith)+
    then have next_in: "unat (ab_base b) + 2 ^ 32 \<in> AddressBlock_addrs V6 b"
      unfolding AddressBlock_addrs_def block_span_def span_def IpFamily_width.simps atLeastLessThan_iff by linarith
    have "(unat (ab_base b) + 2 ^ 32) div 2 ^ 32 = Suc (unat (ab_base b) div 2 ^ 32)" by simp
    then have "\<not> (in_mapped_range (unat (ab_base b)) \<and> in_mapped_range (unat (ab_base b) + 2 ^ 32))"
      unfolding in_mapped_range_def by linarith
    with base next_in False show ?thesis by blast
  qed
qed

text \<open>A block written back as a CIDR names the block's addresses.\<close>

lemma block_cidr_names:
  assumes wf: "AddressBlock_wf f b"
    and out: "f = V6 \<longrightarrow> (\<exists>x \<in> AddressBlock_addrs V6 b. \<not> in_mapped_range x)"
  shows "cidr_names \<lparr>cidr_address = AddressBlock_address b f, cidr_prefix = ab_prefix b\<rparr> f' x \<longleftrightarrow>
    f' = f \<and> x \<in> AddressBlock_addrs f b"
proof -
  have al: "aligned (IpFamily_width f) (ab_base b) (ab_prefix b)" using wf by (simp add: AddressBlock_wf_def)
  have mem: "x \<in> AddressBlock_addrs f b \<longleftrightarrow> x < 2 ^ IpFamily_width f \<and>
      x div 2 ^ (IpFamily_width f - ab_prefix b) = unat (ab_base b) div 2 ^ (IpFamily_width f - ab_prefix b)"
    using aligned_span_iff [OF al, of x] block_span_bound [OF al] by (auto simp: AddressBlock_addrs_def)
  have p: "ab_prefix b \<le> IpFamily_width f" "unat (ab_base b) < 2 ^ IpFamily_width f"
    using al by (auto simp: aligned_def)
  show ?thesis
  proof (cases f)
    case V4
    have "unat (ucast (ab_base b) :: u32) = unat (ab_base b)"
      using p(2) V4 by (simp add: unsigned_ucast_eq take_bit_nat_eq_self)
    then show ?thesis using mem p V4 by (auto simp: cidr_names_def AddressBlock_address_def)
  next
    case V6
    then have "\<not> (in_mapped_range (unat (ab_base b)) \<and> 96 \<le> ab_prefix b)"
      using out block_outside_iff wf by blast
    then show ?thesis using mem p V6 by (auto simp: cidr_names_def AddressBlock_address_def Let_def)
  qed
qed

lemma resolve_V6_outside:
  assumes "resolve c = Some (V6, b)"
  shows "\<exists>x \<in> AddressBlock_addrs V6 b. \<not> in_mapped_range x"
proof -
  have wf: "AddressBlock_wf V6 b" by (rule resolve_Some(1) [OF assms])
  have p: "ab_prefix b = cidr_prefix c"
    using assms by (auto simp: resolve_def Let_def split: if_splits IpAddr.splits option.splits)
  have "unat (ab_base b) \<in> AddressBlock_addrs V6 b" by (simp add: AddressBlock_addrs_def block_span_def)
  then have n: "cidr_names c V6 (unat (ab_base b))" using resolve_Some(2) [OF assms] by blast
  then obtain ip where ip: "cidr_address c = IpV6 ip" "\<not> (in_mapped_range (unat ip) \<and> 96 \<le> cidr_prefix c)"
    and eq: "unat (ab_base b) div 2 ^ (128 - cidr_prefix c) = unat ip div 2 ^ (128 - cidr_prefix c)"
    by (auto simp: cidr_names_def Let_def split: IpAddr.splits if_splits)
  have "\<not> (in_mapped_range (unat (ab_base b)) \<and> 96 \<le> ab_prefix b)"
  proof
    assume h: "in_mapped_range (unat (ab_base b)) \<and> 96 \<le> ab_prefix b"
    then have "96 \<le> cidr_prefix c" using p by simp
    then have "unat (ab_base b) div 2 ^ 32 = unat ip div 2 ^ 32" by (intro div_div_mono [OF eq]) simp
    with h ip p show False by (simp add: in_mapped_range_def)
  qed
  then show ?thesis using block_outside_iff [OF wf] by blast
qed

lemma peer_blocks_outside:
  assumes "peer_blocks peer = Ok (Some (V6, bs))" and "c \<in> set bs"
  shows "\<exists>x \<in> AddressBlock_addrs V6 c. \<not> in_mapped_range x"
proof -
  obtain b xs where r: "resolve (peer_cidr peer) = Some (V6, b)"
    and "xs = map (snd \<circ> the \<circ> resolve) (peer_except peer)"
    and "\<forall>e \<in> set (peer_except peer). \<exists>c. resolve e = Some (V6, c)"
    and "bs = ab.left_over V6 b xs" and "length bs \<le> MAX_BLOCKS_PER_PEER"
    and m: "refuse_mapped_crossing peer V6 b bs = Ok ()"
    using assms(1) by (rule peer_blocks_Some)
  have wf: "AddressBlock_wf V6 b" "AddressBlock_wf V6 c"
    using resolve_Some(1) [OF r] peer_blocks_wf [OF assms] by simp_all
  have "\<not> AddressBlock_contains IPV4_MAPPED_BLOCK b 128"
    using AddressBlock_contains_iff [OF mapped_block_wf wf(1)] resolve_V6_outside [OF r]
    by (auto simp: mapped_block_addrs)
  from refuse_mapped_crossing_Ok [OF m this assms(2)] show ?thesis
    using AddressBlock_contains_iff [OF mapped_block_wf wf(2)] by (auto simp: mapped_block_addrs)
qed

lemma peer_blocks_None: "peer_blocks peer = Ok None \<Longrightarrow> resolve (peer_cidr peer) = None"
  by (auto simp: peer_blocks_def result_simps split: option.splits)

lemma resolve_None_names: "resolve c = None \<Longrightarrow> \<not> cidr_names c f x"
  unfolding resolve_None by (auto simp: cidr_names_def Let_def split: IpAddr.splits if_splits)

lemma peer_destinations_names:
  assumes "peer_destinations peer = Ok ds"
  shows "(\<exists>d \<in> set ds. cidr_names d f x) \<longleftrightarrow> peer_names peer f x"
proof -
  obtain r where r: "peer_blocks peer = Ok r" using assms by (auto simp: peer_destinations_def result_simps)
  show ?thesis
  proof (cases r)
    case None
    then have "ds = [peer_cidr peer]" "resolve (peer_cidr peer) = None"
      using assms r peer_blocks_None by (auto simp: peer_destinations_def)
    then show ?thesis using resolve_None_names by (simp add: peer_names_def)
  next
    case (Some fb)
    obtain g bs where fb: "fb = (g, bs)" by (cases fb)
    have ds: "ds = map (\<lambda>b. \<lparr>cidr_address = AddressBlock_address b g, cidr_prefix = ab_prefix b\<rparr>) bs"
      using assms r Some fb by (simp add: peer_destinations_def)
    have pb: "peer_blocks peer = Ok (Some (g, bs))" using r Some fb by simp
    have "cidr_names \<lparr>cidr_address = AddressBlock_address b g, cidr_prefix = ab_prefix b\<rparr> f x \<longleftrightarrow>
        f = g \<and> x \<in> AddressBlock_addrs g b" if b: "b \<in> set bs" for b
      by (rule block_cidr_names [OF peer_blocks_wf [OF pb b]]) (use peer_blocks_outside pb b in blast)
    then have "(\<exists>d \<in> set ds. cidr_names d f x) \<longleftrightarrow> f = g \<and> (\<exists>b \<in> set bs. x \<in> AddressBlock_addrs g b)"
      unfolding ds by auto
    then show ?thesis using peer_blocks_addrs [OF pb] by simp
  qed
qed

section \<open>Lowering a rule\<close>

definition entries_for :: "RuleAction \<Rightarrow> RuleMatch list \<Rightarrow> NetworkCidr list \<Rightarrow> EgressEntry list" where
  "entries_for action matches ds =
     concat (map (\<lambda>d. map (\<lambda>m. \<lparr>ee_destination = d, ee_action = action, ee_matching = m\<rparr>) matches) ds)"

lemma entries_for_append [simp]:
  "entries_for action matches (ds @ ds') = entries_for action matches ds @ entries_for action matches ds'"
  by (simp add: entries_for_def)

lemma entries_for_Cons: "entries_for action matches (d # ds) = entries_for action matches [d] @ entries_for action matches ds"
  by (simp add: entries_for_def)

lemma push_entry_Ok:
  "push_entry action d (es, n) m = Ok st \<longleftrightarrow>
     0 < n \<and> st = (es @ [\<lparr>ee_destination = d, ee_action = action, ee_matching = m\<rparr>], n - 1)"
  by (auto simp: push_entry_def)

lemma push_entries_Ok:
  assumes "try_fold (push_entry action d) (es, n) matches = Ok (es', n')"
  shows "es' = es @ entries_for action matches [d] \<and> length es' + n' = length es + n"
  using assms
proof (induction matches arbitrary: es n)
  case (Cons m matches)
  then have n: "0 < n" and "try_fold (push_entry action d)
      (es @ [\<lparr>ee_destination = d, ee_action = action, ee_matching = m\<rparr>], n - 1) matches = Ok (es', n')"
    by (auto simp: push_entry_Ok result_simps)
  from Cons.IH [OF this(2)] n show ?case by (auto simp: entries_for_def)
qed (simp add: entries_for_def)

lemma push_destinations_Ok:
  assumes "try_fold (\<lambda>st d. try_fold (push_entry action d) st matches) (es, n) ds = Ok (es', n')"
  shows "es' = es @ entries_for action matches ds" and "length es' + n' = length es + n"
proof -
  from assms have "es' = es @ entries_for action matches ds \<and> length es' + n' = length es + n"
  proof (induction ds arbitrary: es n)
    case Nil
    then show ?case by (simp add: entries_for_def)
  next
    case (Cons d ds)
    then obtain es1 n1 where 1: "try_fold (push_entry action d) (es, n) matches = Ok (es1, n1)"
      and 2: "try_fold (\<lambda>st d. try_fold (push_entry action d) st matches) (es1, n1) ds = Ok (es', n')"
      by (auto simp: result_simps)
    show ?case
      unfolding entries_for_Cons [of _ _ d ds] using push_entries_Ok [OF 1] Cons.IH [OF 2] by auto
  qed
  then show "es' = es @ entries_for action matches ds" and "length es' + n' = length es + n" by blast+
qed

lemma push_peers_Ok:
  assumes "try_fold (push_peer action matches) (es, n) peers = Ok (es', n')"
  shows "\<exists>ds. es' = es @ entries_for action matches ds \<and> length es' + n' = length es + n \<and>
    (\<forall>f x. (\<exists>d \<in> set ds. cidr_names d f x) \<longleftrightarrow> (\<exists>p \<in> set peers. peer_names p f x))"
  using assms
proof (induction peers arbitrary: es n)
  case Nil
  then show ?case by (intro exI [of _ "[]"]) (simp add: entries_for_def)
next
  case (Cons p peers)
  then obtain es1 n1 where 1: "push_peer action matches (es, n) p = Ok (es1, n1)"
    and 2: "try_fold (push_peer action matches) (es1, n1) peers = Ok (es', n')"
    by (auto simp: result_simps)
  from 1 obtain ds1 where d: "peer_destinations p = Ok ds1"
    and f: "try_fold (\<lambda>st d. try_fold (push_entry action d) st matches) (es, n) ds1 = Ok (es1, n1)"
    by (auto simp: push_peer_def result_simps)
  from Cons.IH [OF 2] obtain ds2 where ds2: "es' = es1 @ entries_for action matches ds2"
    "length es' + n' = length es1 + n1"
    "\<forall>f x. (\<exists>d \<in> set ds2. cidr_names d f x) \<longleftrightarrow> (\<exists>p \<in> set peers. peer_names p f x)"
    by blast
  show ?case
    using push_destinations_Ok [OF f] ds2 peer_destinations_names [OF d]
    by (intro exI [of _ "ds1 @ ds2"]) (simp add: bex_Un)
qed

fun match_covers :: "RuleMatch \<Rightarrow> flow \<Rightarrow> bool" where
  "match_covers AnyTraffic k = True"
| "match_covers IcmpTraffic k = (fl_protocol k = ''icmp'')"
| "match_covers (Transport p r) k =
     (fl_protocol k = TransportProtocol_as_arg p \<and>
      (case r of None \<Rightarrow> True | Some r \<Rightarrow> pr_start r \<le> fl_port k \<and> fl_port k \<le> pr_end r))"

definition entry_hits :: "EgressEntry \<Rightarrow> flow \<Rightarrow> bool" where
  "entry_hits en k \<longleftrightarrow>
     cidr_names (ee_destination en) (fl_family k) (fl_dst k) \<and> match_covers (ee_matching en) k"

lemma lower_port_selector_covers:
  "(\<exists>m \<in> set (lower_port_selector p). match_covers m k) \<longleftrightarrow> port_covers p k"
  by (cases "port_port p"; cases "port_protocol p") (auto simp: lower_port_selector_def port_covers_def Let_def)

lemma lower_port_selectors_covers:
  "(\<exists>m \<in> set (lower_port_selectors ports). match_covers m k) \<longleftrightarrow>
     ports = [] \<or> (\<exists>p \<in> set ports. port_covers p k)"
  unfolding lower_port_selectors_def using lower_port_selector_covers [of _ k] by auto

lemma every_destination_names:
  assumes "flow_wf k"
  shows "\<exists>p \<in> set every_destination_peers. peer_names p (fl_family k) (fl_dst k)"
  using assms by (cases "fl_family k")
    (auto simp: every_destination_peers_def peer_names_def cidr_names_def flow_wf_def in_mapped_range_def)

lemma Lxc_lower_rule_Ok:
  assumes "Lxc_lower_rule action (es, n) rule = Ok (es', n')"
  shows "\<exists>new. es' = es @ new \<and> length es' + n' = length es + n \<and>
    (\<forall>en \<in> set new. ee_action en = action) \<and>
    (\<forall>k. flow_wf k \<longrightarrow> (\<exists>en \<in> set new. entry_hits en k) = rule_covers rule k)"
proof -
  let ?peers = "if rule_to rule = [] then every_destination_peers else rule_to rule"
  let ?ms = "lower_port_selectors (rule_ports rule)"
  have "try_fold (push_peer action ?ms) (es, n) ?peers = Ok (es', n')"
    using assms by (simp add: Lxc_lower_rule_def Let_def)
  from push_peers_Ok [OF this] obtain ds where ds: "es' = es @ entries_for action ?ms ds"
    "length es' + n' = length es + n"
    "\<And>f x. (\<exists>d \<in> set ds. cidr_names d f x) \<longleftrightarrow> (\<exists>p \<in> set ?peers. peer_names p f x)"
    by blast
  have "(\<exists>en \<in> set (entries_for action ?ms ds). entry_hits en k) = rule_covers rule k" if "flow_wf k" for k
  proof -
    have "(\<exists>en \<in> set (entries_for action ?ms ds). entry_hits en k) \<longleftrightarrow>
        (\<exists>d \<in> set ds. cidr_names d (fl_family k) (fl_dst k)) \<and> (\<exists>m \<in> set ?ms. match_covers m k)"
      by (auto simp: entries_for_def entry_hits_def)
    also have "\<dots> \<longleftrightarrow> rule_covers rule k"
      unfolding ds(3) lower_port_selectors_covers rule_covers_def
      using every_destination_names [OF that] by simp
    finally show ?thesis .
  qed
  then show ?thesis using ds(1,2) by (intro exI [of _ "entries_for action ?ms ds"]) (auto simp: entries_for_def)
qed

fun action_of :: "bool \<Rightarrow> RuleAction" where
  "action_of True = RA_Allow"
| "action_of False = RA_Deny"

interpretation lx: rule_lowering "\<lambda>v. Lxc_lower_rule (action_of v)" fst entry_hits
  "\<lambda>en. ee_action en = RA_Allow" flow_wf
proof
  fix v s r s'
  assume h: "Lxc_lower_rule (action_of v) s r = Ok s'"
  obtain es n es' n' where s: "s = (es, n)" "s' = (es', n')" by (cases s; cases s')
  from Lxc_lower_rule_Ok [OF h [unfolded s]]
  show "\<exists>new. fst s' = fst s @ new \<and> (\<forall>x \<in> set new. (ee_action x = RA_Allow) = v) \<and>
      (\<forall>k. flow_wf k \<longrightarrow> (\<exists>x \<in> set new. entry_hits x k) = rule_covers r k)"
    unfolding s by (cases v) auto
qed

lemma lower_directional_Ok:
  assumes "lower_directional_egress e = Ok entries"
  obtains st n where "try_fold (Lxc_lower_rule RA_Deny) ([], MAX_EGRESS_ENTRIES) (eg_deny e) = Ok st"
    and "try_fold (Lxc_lower_rule RA_Allow) st (eg_allow e) = Ok (entries, n)"
  using assms by (auto simp: lower_directional_egress_def result_simps)

lemma Lxc_lower_rules_budget:
  assumes "try_fold (Lxc_lower_rule action) (es, n) rules = Ok (es', n')"
  shows "length es' + n' = length es + n"
  using assms
proof (induction rules arbitrary: es n)
  case (Cons r rules)
  then obtain es1 n1 where 1: "Lxc_lower_rule action (es, n) r = Ok (es1, n1)"
    and 2: "try_fold (Lxc_lower_rule action) (es1, n1) rules = Ok (es', n')"
    by (auto simp: result_simps)
  show ?case using Lxc_lower_rule_Ok [OF 1] Cons.IH [OF 2] by auto
qed simp

section \<open>Chain names\<close>

definition name_char :: "char \<Rightarrow> bool" where
  "name_char c \<longleftrightarrow> is_ascii_alphanumeric c \<or> c = CHR ''-'' \<or> c = CHR ''_''"

lemma base32_digit: "BASE32_LOWER ! unat (x AND 0x1f :: u16) \<in> set BASE32_LOWER"
proof -
  have "x AND 0x1f \<le> (0x1f :: u16)" by (rule word_and_le1)
  then have "unat (x AND 0x1f :: u16) \<le> 31" by (simp add: word_le_nat_alt)
  then show ?thesis by (intro nth_mem) (simp add: BASE32_LOWER_def)
qed

lemma BASE32_LOWER_chars: "list_all name_char BASE32_LOWER"
  by code_simp

lemma base32_drain_spec:
  "\<exists>new. base32_drain acc out p = (out @ new, p mod 5) \<and> length new = p div 5 \<and> set new \<subseteq> set BASE32_LOWER"
proof (induction acc out p rule: base32_drain.induct)
  case (1 acc out p)
  show ?case
  proof (cases "5 \<le> p")
    case True
    let ?c = "BASE32_LOWER ! unat (drop_bit (p - 5) acc AND 0x1f)"
    from 1 [OF True] obtain new where "base32_drain acc (out @ [?c]) (p - 5) = ((out @ [?c]) @ new, (p - 5) mod 5)"
      "length new = (p - 5) div 5" "set new \<subseteq> set BASE32_LOWER" by blast
    then show ?thesis
      using True base32_digit [of "drop_bit (p - 5) acc"]
      by (intro exI [of _ "?c # new"]) (simp add: base32_drain.simps [of acc out p] le_mod_geq le_div_geq)
  qed (simp add: base32_drain.simps [of acc out p])
qed

lemma base32_fold_spec:
  "\<exists>out acc p. foldl base32_byte ([], 0, 0) bytes = (out, acc, p) \<and>
     5 * length out + p = 8 * length bytes \<and> p < 5 \<and> set out \<subseteq> set BASE32_LOWER"
proof (induction bytes rule: rev_induct)
  case (snoc byte bytes)
  then obtain out acc p where f: "foldl base32_byte ([], 0, 0) bytes = (out, acc, p)"
    and n: "5 * length out + p = 8 * length bytes" and s: "set out \<subseteq> set BASE32_LOWER" by blast
  obtain new where d: "base32_drain (push_bit 8 acc OR ucast byte) out (p + 8) = (out @ new, (p + 8) mod 5)"
    and l: "length new = (p + 8) div 5" and c: "set new \<subseteq> set BASE32_LOWER"
    using base32_drain_spec by blast
  have step: "base32_byte (out, acc, p) byte = (out @ new, push_bit 8 acc OR ucast byte, (p + 8) mod 5)"
    by (simp add: base32_byte_def d)
  have "5 * ((p + 8) div 5) + (p + 8) mod 5 = p + 8" by simp
  then have "5 * length (out @ new) + (p + 8) mod 5 = 8 * length (bytes @ [byte])" using n l by simp
  moreover have "foldl base32_byte ([], 0, 0) (bytes @ [byte]) =
      (out @ new, push_bit 8 acc OR ucast byte, (p + 8) mod 5)"
    by (simp only: foldl_append foldl_Cons foldl_Nil f step)
  moreover have "set (out @ new) \<subseteq> set BASE32_LOWER" "(p + 8) mod 5 < 5" using s c by simp_all
  ultimately show ?case by blast
qed simp

lemma base32_lower_spec:
  "length (base32_lower bytes) = (8 * length bytes + 4) div 5 \<and> set (base32_lower bytes) \<subseteq> set BASE32_LOWER"
proof -
  obtain out acc p where f: "foldl base32_byte ([], 0, 0) bytes = (out, acc, p)"
    and n: "5 * length out + p = 8 * length bytes" "p < 5" and s: "set out \<subseteq> set BASE32_LOWER"
    using base32_fold_spec [of bytes] by blast
  show ?thesis using n s base32_digit [of "push_bit (5 - p) acc"] by (auto simp: base32_lower_def f)
qed

lemma chain_name_spec:
  assumes "length prefix + slug_len \<le> 11" and "list_all name_char prefix"
  shows "length (chain_name_with_prefix sha prefix slug_len n) \<le> CHAIN_NAME_MAX_LEN \<and>
    list_all name_char (chain_name_with_prefix sha prefix slug_len n)"
proof -
  define hash where "hash = base32_lower (take CHAIN_HASH_BYTES (sha n))"
  define slug where "slug = take slug_len (filter name_char n)"
  have h: "length hash \<le> 16" "list_all name_char hash"
    using base32_lower_spec [of "take CHAIN_HASH_BYTES (sha n)"] BASE32_LOWER_chars
    by (auto simp: hash_def CHAIN_HASH_BYTES_def list_all_iff)
  have s: "length slug \<le> slug_len" "list_all name_char slug"
    by (auto simp: slug_def list_all_iff dest: in_set_takeD)
  have "chain_name_with_prefix sha prefix slug_len n =
      (if slug = [] then prefix @ hash else prefix @ slug @ ''-'' @ hash)"
    by (simp add: chain_name_with_prefix_def hash_def slug_def name_char_def [abs_def] Let_def)
  moreover have "name_char (CHR ''-'')" by (simp add: name_char_def)
  ultimately show ?thesis using h s assms by (auto simp: CHAIN_NAME_MAX_LEN_def)
qed

section \<open>Properties\<close>

definition entries_admit :: "EgressEntry list \<Rightarrow> NetworkAction \<Rightarrow> flow \<Rightarrow> bool" where
  "entries_admit entries closing k =
     (case find (\<lambda>en. entry_hits en k) entries of
        Some en \<Rightarrow> ee_action en = RA_Allow
      | None \<Rightarrow> closing = Allow)"

text \<open>
  C13: The LXC chain decides every flow as the policy does. The entries lowered from a directional
  policy, read first match first and closed by the default action, admit an IPv4 or IPv6 flow exactly
  when the policy admits it, and there are at most \<open>MAX_EGRESS_ENTRIES\<close> of them.
\<close>

theorem lxc_entries_admit:
  assumes "lower_directional_egress e = Ok entries" and "flow_wf k"
  shows "(entries_admit entries (eg_default e) k \<longleftrightarrow> policy_admits e k) \<and>
    length entries \<le> MAX_EGRESS_ENTRIES"
proof -
  obtain st n where d: "try_fold (Lxc_lower_rule RA_Deny) ([], MAX_EGRESS_ENTRIES) (eg_deny e) = Ok st"
    and a: "try_fold (Lxc_lower_rule RA_Allow) st (eg_allow e) = Ok (entries, n)"
    using assms(1) by (rule lower_directional_Ok)
  obtain es1 n1 where st: "st = (es1, n1)" by (cases st)
  have "entries_admit entries (eg_default e) k = lx.first_match entries (eg_default e = Allow) k"
    by (simp add: entries_admit_def lx.first_match_def)
  also have "\<dots> = policy_admits e k"
    using lx.chain_decides [of "([], MAX_EGRESS_ENTRIES)" e st "(entries, n)" k] d a assms(2) by simp
  finally show ?thesis
    using Lxc_lower_rules_budget [OF d [unfolded st]] Lxc_lower_rules_budget [OF a [unfolded st]] by simp
qed

theorem lxc_entries_admit_witness:
  "\<exists>entries. lower_directional_egress
     \<lparr>eg_default = Allow, eg_allow = [],
      eg_deny = [\<lparr>rule_to = [\<lparr>peer_cidr = \<lparr>cidr_address = IpV4 0x0A000000, cidr_prefix = 30\<rparr>,
                             peer_except = [\<lparr>cidr_address = IpV4 0x0A000001, cidr_prefix = 32\<rparr>]\<rparr>],
                  rule_ports = []\<rparr>]\<rparr> = Ok entries \<and>
     entries_admit entries Allow \<lparr>fl_family = V4, fl_dst = 0x0A000001, fl_protocol = ''tcp'', fl_port = 80\<rparr> \<and>
     \<not> entries_admit entries Allow \<lparr>fl_family = V4, fl_dst = 0x0A000003, fl_protocol = ''tcp'', fl_port = 80\<rparr>"
proof -
  let ?e = "\<lparr>eg_default = Allow, eg_allow = [],
      eg_deny = [\<lparr>rule_to = [\<lparr>peer_cidr = \<lparr>cidr_address = IpV4 0x0A000000, cidr_prefix = 30\<rparr>,
                             peer_except = [\<lparr>cidr_address = IpV4 0x0A000001, cidr_prefix = 32\<rparr>]\<rparr>],
                  rule_ports = []\<rparr>]\<rparr> :: NetworkEgressPolicy"
  have "\<exists>entries. lower_directional_egress ?e = Ok entries"
    by (simp add: lower_directional_egress_def Lxc_lower_rule_def push_peer_def peer_destinations_def
        push_entry_def lower_port_selectors_def MAX_EGRESS_ENTRIES_def block_eval)
  then obtain entries where run: "lower_directional_egress ?e = Ok entries" by blast
  have "policy_admits ?e \<lparr>fl_family = V4, fl_dst = 0x0A000001, fl_protocol = ''tcp'', fl_port = 80\<rparr>"
    "\<not> policy_admits ?e \<lparr>fl_family = V4, fl_dst = 0x0A000003, fl_protocol = ''tcp'', fl_port = 80\<rparr>"
    by (simp_all add: policy_admits_def rule_covers_def peer_names_def cidr_names_def)
  then show ?thesis
    using run lxc_entries_admit [OF run, of "\<lparr>fl_family = V4, fl_dst = 0x0A000001, fl_protocol = ''tcp'', fl_port = 80\<rparr>"]
      lxc_entries_admit [OF run, of "\<lparr>fl_family = V4, fl_dst = 0x0A000003, fl_protocol = ''tcp'', fl_port = 80\<rparr>"]
    by (simp add: flow_wf_def)
qed

text \<open>
  Chain names are always acceptable to \<open>iptables\<close>. Whatever the container is called and whatever
  its digest, the egress and the ingress chain name have at most 28 characters, all of them letters,
  digits, hyphens or underscores, and an egress chain never has the name of an ingress chain.
\<close>

lemma chain_names_fit:
  "length (chain_name_for sha n) \<le> CHAIN_NAME_MAX_LEN \<and>
   length (ingress_chain_name_for sha n) \<le> CHAIN_NAME_MAX_LEN \<and>
   list_all name_char (chain_name_for sha n) \<and> list_all name_char (ingress_chain_name_for sha n) \<and>
   chain_name_for sha n \<noteq> ingress_chain_name_for sha m"
proof -
  have "list_all name_char ''MXC-''" "list_all name_char ''MXCI-''"
    by (simp_all add: name_char_def is_ascii_alphanumeric_def is_ascii_alphabetic_def)
  then have "length (chain_name_for sha n) \<le> CHAIN_NAME_MAX_LEN \<and> list_all name_char (chain_name_for sha n)"
    "length (ingress_chain_name_for sha n) \<le> CHAIN_NAME_MAX_LEN \<and> list_all name_char (ingress_chain_name_for sha n)"
    unfolding chain_name_for_def ingress_chain_name_for_def
    by (intro chain_name_spec; simp add: CHAIN_SLUG_LEN_def INGRESS_CHAIN_SLUG_LEN_def)+
  moreover have "chain_name_for sha n \<noteq> ingress_chain_name_for sha m"
    by (simp add: chain_name_for_def ingress_chain_name_for_def chain_name_with_prefix_def Let_def)
  ultimately show ?thesis by blast
qed

end
