(* ===== verification/Rust_Text.thy ===== *)
theory Rust_Text
  imports Models
begin

text \<open>
  More of \<open>str\<close>: trimming, splitting at white space and into lines, on UTF-8 byte strings. White
  space is the Unicode \<open>White_Space\<close> property, recognised by its encodings.
\<close>

section \<open>White space\<close>

text \<open>The number of bytes of the white-space character at the start of a string, 0 if there is none.\<close>

definition ws_len :: "string \<Rightarrow> nat" where
  "ws_len s =
     (case map of_char s :: nat list of
        [] \<Rightarrow> 0
      | a # bs \<Rightarrow>
          if (9 \<le> a \<and> a \<le> 13) \<or> a = 32 then 1
          else (case bs of
              [] \<Rightarrow> 0
            | b # cs \<Rightarrow>
                if a = 194 \<and> (b = 133 \<or> b = 160) then 2
                else (case cs of
                    [] \<Rightarrow> 0
                  | c # ds \<Rightarrow>
                      if (a = 225 \<and> b = 154 \<and> c = 128)
                        \<or> (a = 226 \<and> b = 128 \<and> ((128 \<le> c \<and> c \<le> 138) \<or> c = 168 \<or> c = 169 \<or> c = 175))
                        \<or> (a = 226 \<and> b = 129 \<and> c = 159)
                        \<or> (a = 227 \<and> b = 128 \<and> c = 128)
                      then 3 else 0)))"

lemma ws_len_le: "ws_len s \<le> length s"
  by (cases s; cases "tl s"; cases "tl (tl s)") (auto simp: ws_len_def)

text \<open>The same at the end of a string; \<open>r\<close> is the reversed string.\<close>

definition ws_len_rev :: "string \<Rightarrow> nat" where
  "ws_len_rev r =
     (if r \<noteq> [] \<and> ws_len (rev (take 1 r)) = 1 then 1
      else if 2 \<le> length r \<and> ws_len (rev (take 2 r)) = 2 then 2
      else if 3 \<le> length r \<and> ws_len (rev (take 3 r)) = 3 then 3
      else 0)"

lemma ws_len_rev_le: "ws_len_rev r \<le> length r"
  by (cases r) (auto simp: ws_len_rev_def)

function trim_start :: "string \<Rightarrow> string" where
  "trim_start s = (if ws_len s = 0 then s else trim_start (drop (ws_len s) s))"
  by pat_completeness auto
termination
proof (relation "measure length")
  fix s assume "ws_len s \<noteq> 0"
  then show "(drop (ws_len s) s, s) \<in> measure length" using ws_len_le [of s] by simp
qed simp

function trim_start_rev :: "string \<Rightarrow> string" where
  "trim_start_rev r = (if ws_len_rev r = 0 then r else trim_start_rev (drop (ws_len_rev r) r))"
  by pat_completeness auto
termination
proof (relation "measure length")
  fix r assume "ws_len_rev r \<noteq> 0"
  then show "(drop (ws_len_rev r) r, r) \<in> measure length" using ws_len_rev_le [of r] by simp
qed simp

declare trim_start.simps [simp del] trim_start_rev.simps [simp del]

definition trim_end :: "string \<Rightarrow> string" where
  "trim_end s = rev (trim_start_rev (rev s))"

definition str_trim :: "string \<Rightarrow> string" where
  "str_trim s = trim_end (trim_start s)"

text \<open>\<open>str::split_whitespace\<close>: the maximal runs without white space; \<open>cur\<close> is the run being read.\<close>

function split_ws :: "string \<Rightarrow> string \<Rightarrow> string list" where
  "split_ws cur s =
     (case s of
        [] \<Rightarrow> (if cur = [] then [] else [cur])
      | x # xs \<Rightarrow>
          if ws_len s = 0 then split_ws (cur @ [x]) xs
          else (if cur = [] then [] else [cur]) @ split_ws [] (drop (ws_len s) s))"
  by pat_completeness auto
termination
proof (relation "measure (\<lambda>(_, s). length s)")
  fix cur s :: string and x xs assume "s = x # xs" "ws_len s \<noteq> 0"
  then show "(([], drop (ws_len s) s), cur, s) \<in> measure (\<lambda>(_, s). length s)"
    using ws_len_le [of s] by simp
qed simp_all

declare split_ws.simps [simp del]

definition split_whitespace :: "string \<Rightarrow> string list" where
  "split_whitespace s = split_ws [] s"

text \<open>
  \<open>str::lines\<close>: split at line feeds, each with the carriage return before it; no line after the last
  feed, and a last line without one is kept as it is.
\<close>

definition lines :: "string \<Rightarrow> string list" where
  "lines s =
     (let parts = split_char (CHR 0x0A) s
      in map (\<lambda>l. case strip_suffix (CHR 0x0D) l of Some l' \<Rightarrow> l' | None \<Rightarrow> l) (butlast parts) @
         (if last parts = [] then [] else [last parts]))"

section \<open>UTF-8\<close>

text \<open>\<open>Path::to_str\<close> succeeds on well-formed UTF-8.\<close>

definition utf8_tail :: "nat \<Rightarrow> bool" where
  "utf8_tail b \<longleftrightarrow> 0x80 \<le> b \<and> b \<le> 0xBF"

fun utf8_bytes :: "nat list \<Rightarrow> bool" where
  "utf8_bytes [] \<longleftrightarrow> True"
| "utf8_bytes (a # s) \<longleftrightarrow>
     (if a < 0x80 then utf8_bytes s
      else if 0xC2 \<le> a \<and> a \<le> 0xDF then
        (case s of b # t \<Rightarrow> utf8_tail b \<and> utf8_bytes t | [] \<Rightarrow> False)
      else if 0xE0 \<le> a \<and> a \<le> 0xEF then
        (case s of
           b # c # t \<Rightarrow>
             utf8_tail b \<and> (a = 0xE0 \<longrightarrow> 0xA0 \<le> b) \<and> (a = 0xED \<longrightarrow> b \<le> 0x9F) \<and> utf8_tail c \<and> utf8_bytes t
         | _ \<Rightarrow> False)
      else if 0xF0 \<le> a \<and> a \<le> 0xF4 then
        (case s of
           b # c # d # t \<Rightarrow>
             utf8_tail b \<and> (a = 0xF0 \<longrightarrow> 0x90 \<le> b) \<and> (a = 0xF4 \<longrightarrow> b \<le> 0x8F) \<and> utf8_tail c \<and> utf8_tail d \<and>
             utf8_bytes t
         | _ \<Rightarrow> False)
      else False)"

definition valid_utf8 :: "string \<Rightarrow> bool" where
  "valid_utf8 s \<longleftrightarrow> utf8_bytes (map of_char s)"

text \<open>
  \<open>Path::display\<close> replaces each ill-formed stretch by one replacement character: a byte that starts no
  sequence, or the beginning of a sequence up to the byte that breaks it.
\<close>

definition utf8_second :: "nat \<Rightarrow> nat \<Rightarrow> bool" where
  "utf8_second a b \<longleftrightarrow>
     utf8_tail b \<and> (a = 0xE0 \<longrightarrow> 0xA0 \<le> b) \<and> (a = 0xED \<longrightarrow> b \<le> 0x9F) \<and> (a = 0xF0 \<longrightarrow> 0x90 \<le> b) \<and> (a = 0xF4 \<longrightarrow> b \<le> 0x8F)"

fun utf8_lossy :: "nat list \<Rightarrow> nat list" where
  "utf8_lossy [] = []"
| "utf8_lossy (a # s) =
     (if a < 0x80 then a # utf8_lossy s
      else if a < 0xC2 \<or> 0xF4 < a then [0xEF, 0xBF, 0xBD] @ utf8_lossy s
      else (case s of
         b # t \<Rightarrow>
           if \<not> utf8_second a b then [0xEF, 0xBF, 0xBD] @ utf8_lossy s
           else if a < 0xE0 then [a, b] @ utf8_lossy t
           else (case t of
              c # u \<Rightarrow>
                if \<not> utf8_tail c then [0xEF, 0xBF, 0xBD] @ utf8_lossy t
                else if a < 0xF0 then [a, b, c] @ utf8_lossy u
                else (case u of
                   d # v \<Rightarrow>
                     if \<not> utf8_tail d then [0xEF, 0xBF, 0xBD] @ utf8_lossy u
                     else [a, b, c, d] @ utf8_lossy v
                 | [] \<Rightarrow> [0xEF, 0xBF, 0xBD])
            | [] \<Rightarrow> [0xEF, 0xBF, 0xBD])
       | [] \<Rightarrow> [0xEF, 0xBF, 0xBD]))"

definition path_display :: "string \<Rightarrow> string" where
  "path_display s = map char_of (utf8_lossy (map of_char s))"

lemma utf8_lossy_id: "utf8_bytes s \<Longrightarrow> utf8_lossy s = s"
proof (induction "length s" arbitrary: s rule: less_induct)
  case less
  note shorter = less(1) and valid = less(2)
  show ?case
  proof (cases s)
    case (Cons a r)
    consider "a < 0x80" | "0xC2 \<le> a" "a \<le> 0xDF" | "0xE0 \<le> a" "a \<le> 0xEF" | "0xF0 \<le> a" "a \<le> 0xF4"
      using valid unfolding Cons by (auto split: if_splits)
    then show ?thesis
    proof cases
      case 1
      then show ?thesis using valid shorter [of r] unfolding Cons by simp
    next
      case 2
      then obtain b t where "r = b # t" "utf8_tail b" "utf8_bytes t" using valid unfolding Cons by (auto split: list.splits)
      then show ?thesis using 2 shorter [of t] unfolding Cons by (simp add: utf8_second_def)
    next
      case 3
      then obtain b c t where "r = b # c # t" "utf8_second a b" "utf8_tail c" "utf8_bytes t"
        using valid unfolding Cons by (auto simp: utf8_second_def split: list.splits)
      then show ?thesis using 3 shorter [of t] unfolding Cons by simp
    next
      case 4
      then obtain b c d t where "r = b # c # d # t" "utf8_second a b" "utf8_tail c" "utf8_tail d" "utf8_bytes t"
        using valid unfolding Cons by (auto simp: utf8_second_def split: list.splits)
      then show ?thesis using 4 shorter [of t] unfolding Cons by simp
    qed
  qed simp
qed

lemma path_display_valid: "valid_utf8 s \<Longrightarrow> path_display s = s"
  by (simp add: path_display_def valid_utf8_def utf8_lossy_id comp_def)

end
