(* ===== verification/Lxc_Firewall.thy ===== *)
theory Lxc_Firewall
  imports Lxc_Egress Rust_Text
begin

text \<open>
  The half of \<open>network_iptables.rs\<close> that runs commands: IPv6 detection, the installation of the egress
  chain, its removal, and the manager's ownership record. Every effect is an event of a trace: a
  command with its outcome, a log line, or a publication of the ownership record to the signal
  handler. The outcome of a command, the contents of \<open>/proc\<close> files and the existence of directories
  are functions of the trace so far, so the theorems hold for every behaviour of the host.
\<close>

section \<open>Host and trace\<close>

record FamilyResources =
  fr_chain :: bool
  fr_hook :: bool

record CreatedResources =
  cr_v4 :: FamilyResources
  cr_v6 :: FamilyResources

definition CreatedResources_default :: CreatedResources where
  "CreatedResources_default =
     \<lparr>cr_v4 = \<lparr>fr_chain = False, fr_hook = False\<rparr>, cr_v6 = \<lparr>fr_chain = False, fr_hook = False\<rparr>\<rparr>"

definition FamilyResources_is_empty :: "FamilyResources \<Rightarrow> bool" where
  "FamilyResources_is_empty r \<longleftrightarrow> \<not> fr_chain r \<and> \<not> fr_hook r"

definition CreatedResources_is_empty :: "CreatedResources \<Rightarrow> bool" where
  "CreatedResources_is_empty r \<longleftrightarrow>
     FamilyResources_is_empty (cr_v4 r) \<and> FamilyResources_is_empty (cr_v6 r)"

text \<open>\<open>Command::output\<close>: the process could not be started, or it exited, with its standard error.\<close>

datatype exec_result = SpawnError string | Exited bool string

datatype io_error = NotFound | OtherError

datatype fw_event =
    Ran "string list" exec_result
  | LogLine string
  | PublishedCreated CreatedResources
  | NamespaceGone

type_synonym fw_trace = "fw_event list"

record fw_host =
  fh_exec :: "fw_trace \<Rightarrow> string list \<Rightarrow> exec_result"
  fh_read :: "fw_trace \<Rightarrow> string \<Rightarrow> io_error + string"
  fh_is_dir :: "fw_trace \<Rightarrow> string \<Rightarrow> bool"

definition log_line :: "string \<Rightarrow> fw_trace \<Rightarrow> fw_trace" where
  "log_line line tr = tr @ [LogLine line]"

definition publish_created :: "CreatedResources \<Rightarrow> fw_trace \<Rightarrow> fw_trace" where
  "publish_created created tr = tr @ [PublishedCreated created]"

section \<open>The manager\<close>

datatype Ip6tablesStatus = Available | KernelIpv6Disabled | UnusableButIpv6Active

datatype HostIpv6State = Ipv6Active | Ipv6Inactive | Ipv6Unknown

datatype EgressHookPoint = ContainerNetns u32 | Unhooked

record NetworkIptablesManager =
  im_chain_name :: string
  im_rules_applied :: bool
  im_preserve_policy :: bool
  im_hook_point :: EgressHookPoint
  im_created :: CreatedResources

definition NetworkIptablesManager_new ::
    "(string \<Rightarrow> 8 word list) \<Rightarrow> string \<Rightarrow> EgressHookPoint \<Rightarrow> NetworkIptablesManager" where
  "NetworkIptablesManager_new sha container_name hook_point =
     \<lparr>im_chain_name = chain_name_for sha container_name, im_rules_applied = False,
      im_preserve_policy = False, im_hook_point = hook_point, im_created = CreatedResources_default\<rparr>"

definition is_hooked :: "NetworkIptablesManager \<Rightarrow> bool" where
  "is_hooked self = (case im_hook_point self of ContainerNetns _ \<Rightarrow> True | Unhooked \<Rightarrow> False)"

definition set_preserve_policy :: "bool \<Rightarrow> NetworkIptablesManager \<Rightarrow> NetworkIptablesManager" where
  "set_preserve_policy preserve self = self\<lparr>im_preserve_policy := preserve\<rparr>"

definition forget :: "NetworkIptablesManager \<Rightarrow> NetworkIptablesManager" where
  "forget self = self\<lparr>im_created := CreatedResources_default, im_rules_applied := False\<rparr>"

text \<open>The runner's call when the container, and with it its network namespace, is gone.\<close>

definition note_namespace_gone :: "NetworkIptablesManager \<Rightarrow> NetworkIptablesManager" where
  "note_namespace_gone self = (if is_hooked self then forget self else self)"

section \<open>Commands\<close>

definition command_argv :: "NetworkIptablesManager \<Rightarrow> string \<Rightarrow> string list \<Rightarrow> string list" where
  "command_argv self binary args =
     (case im_hook_point self of
        ContainerNetns pid \<Rightarrow> [''nsenter'', ''-t'', show_nat (unat pid), ''-n'', binary]
      | Unhooked \<Rightarrow> [binary]) @ args"

definition log_command_failure :: "string \<Rightarrow> string list \<Rightarrow> string \<Rightarrow> fw_trace \<Rightarrow> string \<times> fw_trace" where
  "log_command_failure command args stderr tr =
     (let msg = command @ '' '' @ join '' '' args @ '' failed: '' @ stderr
      in (msg, log_line msg tr))"

definition run_firewall_command ::
    "fw_host \<Rightarrow> NetworkIptablesManager \<Rightarrow> string \<Rightarrow> string list \<Rightarrow> fw_trace \<Rightarrow> (string + bool) \<times> fw_trace" where
  "run_firewall_command host self command args tr =
     (let argv = command_argv self command args;
          output = fh_exec host tr argv;
          tr = tr @ [Ran argv output]
      in case output of
           SpawnError e \<Rightarrow> (Err (''Failed to run '' @ command @ '': '' @ e), tr)
         | Exited success stderr \<Rightarrow>
             if \<not> success then
               (let (msg, tr) = log_command_failure command args stderr tr in (Err msg, tr))
             else (Ok True, tr))"

definition run_iptables ::
    "fw_host \<Rightarrow> NetworkIptablesManager \<Rightarrow> string list \<Rightarrow> fw_trace \<Rightarrow> (string + bool) \<times> fw_trace" where
  "run_iptables host self args tr = run_firewall_command host self ''iptables'' args tr"

definition run_ip6tables ::
    "fw_host \<Rightarrow> NetworkIptablesManager \<Rightarrow> string list \<Rightarrow> fw_trace \<Rightarrow> (string + bool) \<times> fw_trace" where
  "run_ip6tables host self args tr = run_firewall_command host self ''ip6tables'' args tr"

fun run_iptables_rule_args ::
    "fw_host \<Rightarrow> NetworkIptablesManager \<Rightarrow> string list list \<Rightarrow> fw_trace \<Rightarrow> (string + unit) \<times> fw_trace" where
  "run_iptables_rule_args host self [] tr = (Ok (), tr)"
| "run_iptables_rule_args host self (rule # rules) tr =
     (case run_iptables host self rule tr of
        (Inl e, tr) \<Rightarrow> (Err e, tr)
      | (Inr _, tr) \<Rightarrow> run_iptables_rule_args host self rules tr)"

fun run_ip6tables_rule_args ::
    "fw_host \<Rightarrow> NetworkIptablesManager \<Rightarrow> string list list \<Rightarrow> fw_trace \<Rightarrow> (string + unit) \<times> fw_trace" where
  "run_ip6tables_rule_args host self [] tr = (Ok (), tr)"
| "run_ip6tables_rule_args host self (rule # rules) tr =
     (case run_ip6tables host self rule tr of
        (Inl e, tr) \<Rightarrow> (Err e, tr)
      | (Inr _, tr) \<Rightarrow> run_ip6tables_rule_args host self rules tr)"

section \<open>IPv6 detection\<close>

fun classify_ip6tables_status :: "bool \<Rightarrow> bool \<Rightarrow> Ip6tablesStatus" where
  "classify_ip6tables_status True host_ipv6_active = Available"
| "classify_ip6tables_status False True = UnusableButIpv6Active"
| "classify_ip6tables_status False False = KernelIpv6Disabled"

definition egress_capable_line :: "string \<Rightarrow> bool" where
  "egress_capable_line line =
     (let line = str_trim line in
      if line = [] then False
      else (case rev (split_whitespace line) of
              device # _ \<Rightarrow> device \<noteq> ''lo''
            | [] \<Rightarrow> False))"

definition classify_host_ipv6_state :: "io_error + string \<Rightarrow> bool \<Rightarrow> HostIpv6State" where
  "classify_host_ipv6_state read_result proc_net_present =
     (case read_result of
        Inr contents \<Rightarrow> if list_ex egress_capable_line (lines contents) then Ipv6Active else Ipv6Inactive
      | Inl NotFound \<Rightarrow> if proc_net_present then Ipv6Inactive else Ipv6Unknown
      | Inl OtherError \<Rightarrow> Ipv6Unknown)"

definition host_ipv6_state :: "fw_host \<Rightarrow> fw_trace \<Rightarrow> HostIpv6State" where
  "host_ipv6_state host tr =
     classify_host_ipv6_state (fh_read host tr ''/proc/net/if_inet6'') (fh_is_dir host tr ''/proc/net'')"

definition classify_container_ipv6_state :: "io_error + string \<Rightarrow> bool \<Rightarrow> HostIpv6State" where
  "classify_container_ipv6_state read_result proc_net_present =
     (case read_result of
        Inr _ \<Rightarrow> Ipv6Active
      | Inl NotFound \<Rightarrow> if proc_net_present then Ipv6Inactive else Ipv6Unknown
      | Inl OtherError \<Rightarrow> Ipv6Unknown)"

definition namespace_ipv6_state :: "fw_host \<Rightarrow> NetworkIptablesManager \<Rightarrow> fw_trace \<Rightarrow> HostIpv6State" where
  "namespace_ipv6_state host self tr =
     (case im_hook_point self of
        ContainerNetns pid \<Rightarrow>
          let if_inet6 = ''/proc/'' @ show_nat (unat pid) @ ''/net/if_inet6'';
              proc_net = ''/proc/'' @ show_nat (unat pid) @ ''/net''
          in classify_container_ipv6_state (fh_read host tr if_inet6) (fh_is_dir host tr proc_net)
      | Unhooked \<Rightarrow> host_ipv6_state host tr)"

fun ipv6_state_treated_as_active :: "HostIpv6State \<Rightarrow> bool" where
  "ipv6_state_treated_as_active Ipv6Active = True"
| "ipv6_state_treated_as_active Ipv6Unknown = True"
| "ipv6_state_treated_as_active Ipv6Inactive = False"

definition ipv6_egress_possible ::
    "fw_host \<Rightarrow> NetworkIptablesManager \<Rightarrow> fw_trace \<Rightarrow> bool \<times> fw_trace" where
  "ipv6_egress_possible host self tr =
     (let state = namespace_ipv6_state host self tr;
          tr = (if state = Ipv6Unknown then
                  log_line (''Could not read if_inet6 to determine the IPv6 state of the namespace '' @
                    ''being filtered; treating IPv6 as potentially active and refusing to fail open.'') tr
                else tr)
      in (ipv6_state_treated_as_active state, tr))"

definition ip6tables_probe_succeeded ::
    "fw_host \<Rightarrow> NetworkIptablesManager \<Rightarrow> fw_trace \<Rightarrow> bool \<times> fw_trace" where
  "ip6tables_probe_succeeded host self tr =
     (let argv = command_argv self ''ip6tables'' [''-S''];
          output = fh_exec host tr argv;
          tr = tr @ [Ran argv output]
      in case output of
           Exited True _ \<Rightarrow> (True, tr)
         | Exited False stderr \<Rightarrow>
             (False, log_line (''ip6tables probe failed ('' @ str_trim stderr @ '')'') tr)
         | SpawnError e \<Rightarrow> (False, log_line (''ip6tables not found ('' @ e @ '')'') tr))"

definition ip6tables_status ::
    "fw_host \<Rightarrow> NetworkIptablesManager \<Rightarrow> fw_trace \<Rightarrow> Ip6tablesStatus \<times> fw_trace" where
  "ip6tables_status host self tr =
     (let (probe_succeeded, tr) = ip6tables_probe_succeeded host self tr;
          (possible, tr) = ipv6_egress_possible host self tr;
          status = classify_ip6tables_status probe_succeeded possible
      in (status,
          (case status of
             Available \<Rightarrow> tr
           | KernelIpv6Disabled \<Rightarrow>
               log_line (''Kernel IPv6 is not active; skipping IPv6 firewall rules '' @
                 ''(no IPv6 egress to filter).'') tr
           | UnusableButIpv6Active \<Rightarrow>
               log_line (''ip6tables is unusable but the host has active IPv6; '' @
                 ''failing firewall setup to avoid leaving IPv6 egress unfiltered.'') tr)))"

section \<open>Policy rules\<close>

text \<open>
  The loop over the entries; its state is the arguments so far, the denies without an address, the
  allows that match every address, and the trace.
\<close>

record policy_rules_state =
  ps_args :: FirewallRuleArgs
  ps_unresolved_denies :: "string list"
  ps_catch_all_allows :: "string list"
  ps_trace :: fw_trace

definition unresolved_deny_error :: "string \<Rightarrow> string" where
  "unresolved_deny_error host =
     ''network.egress deny destination '' @ quoted host @ '' resolved to no address, so no rule can be '' @
     ''programmed to deny it, and the default network policy accepts '' @
     ''what no rule matches; refusing to apply a policy that would leave it reachable''"

definition deny_precedence_error :: "string list \<Rightarrow> string list \<Rightarrow> string" where
  "deny_precedence_error unresolved_denies catch_all_allows =
     ''network.egress deny destination(s) '' @ join '', '' (map quoted unresolved_denies) @
     '' resolved to no address, so no rule can be programmed '' @
     ''to deny them, while allow destination(s) '' @ join '', '' (map quoted catch_all_allows) @
     '' accept every address and are '' @
     ''evaluated before the chain's closing DROP; whatever the blocked host '' @
     ''resolves to for the container is therefore accepted, so deny precedence '' @
     ''cannot hold. Fix or remove the unresolvable blocked host, or narrow the catch-all allow''"

definition program_entry ::
    "string \<Rightarrow> bool \<Rightarrow> policy_rules_state \<Rightarrow> EgressEntry \<Rightarrow> (string + unit) \<times> policy_rules_state" where
  "program_entry chain_name default_permits st entry =
     (let host = cidr_text (ee_destination entry);
          action = ee_action entry;
          unresolved = resolve (ee_destination entry) = None
      in if unresolved \<and> default_permits \<and> action = RA_Deny then (Err (unresolved_deny_error host), st)
         else
           let st =
             (if unresolved then
                st\<lparr>ps_unresolved_denies :=
                     ps_unresolved_denies st @ (if action = RA_Deny then [host] else []),
                   ps_trace := log_line (''Warning: could not resolve destination '' @ quoted host) (ps_trace st)\<rparr>
              else if action = RA_Allow \<and> ee_matching entry = AnyTraffic \<and>
                  cidr_prefix (ee_destination entry) = 0
              then st\<lparr>ps_catch_all_allows := ps_catch_all_allows st @ [host]\<rparr>
              else st);
               rule_args =
                 build_destination_rule_args chain_name (ee_destination entry) action (ee_matching entry);
               tr = foldl (\<lambda>tr rule. log_line (''Programmed iptables rule: '' @ join '' '' rule) tr)
                      (ps_trace st) (fa_ipv4 rule_args);
               tr = foldl (\<lambda>tr rule. log_line (''Programmed ip6tables rule: '' @ join '' '' rule) tr)
                      tr (fa_ipv6 rule_args)
           in (Ok (), st\<lparr>ps_args := FirewallRuleArgs_extend (ps_args st) rule_args, ps_trace := tr\<rparr>))"

fun program_entries ::
    "string \<Rightarrow> bool \<Rightarrow> policy_rules_state \<Rightarrow> EgressEntry list \<Rightarrow> (string + unit) \<times> policy_rules_state" where
  "program_entries chain_name default_permits st [] = (Ok (), st)"
| "program_entries chain_name default_permits st (entry # entries) =
     (case program_entry chain_name default_permits st entry of
        (Inl e, st) \<Rightarrow> (Err e, st)
      | (Inr _, st) \<Rightarrow> program_entries chain_name default_permits st entries)"

definition build_policy_rules_logged ::
    "string \<Rightarrow> ContainerPolicy \<Rightarrow> fw_trace \<Rightarrow> (string + FirewallRuleArgs) \<times> fw_trace" where
  "build_policy_rules_logged chain_name policy tr =
     (let default_permits = effective_default_policy policy = Allow in
      case lower_egress policy of
        Inl e \<Rightarrow> (Err e, tr)
      | Inr entries \<Rightarrow>
          (case program_entries chain_name default_permits
             \<lparr>ps_args = FirewallRuleArgs_default, ps_unresolved_denies = [], ps_catch_all_allows = [],
              ps_trace = tr\<rparr> entries of
             (Inl e, st) \<Rightarrow> (Err e, ps_trace st)
           | (Inr _, st) \<Rightarrow>
               if ps_unresolved_denies st \<noteq> [] \<and> ps_catch_all_allows st \<noteq> []
               then (Err (deny_precedence_error (ps_unresolved_denies st) (ps_catch_all_allows st)), ps_trace st)
               else (Ok (ps_args st), ps_trace st)))"

section \<open>Installation\<close>

text \<open>
  \<open>on_ok\<close> continues after a command that succeeded and returns early with its error otherwise, keeping
  the ownership record as it is at that point. The three parts of \<open>install_firewall_rules\<close> follow its
  text: the chains, their rules, the hooks.
\<close>

type_synonym install_result = "(string + unit) \<times> CreatedResources \<times> fw_trace"

fun on_ok :: "(string + 'a) \<times> fw_trace \<Rightarrow> CreatedResources \<Rightarrow> ('a \<Rightarrow> fw_trace \<Rightarrow> install_result) \<Rightarrow> install_result" where
  "on_ok (Inl e, tr) created k = (Err e, created, tr)"
| "on_ok (Inr x, tr) created k = k x tr"

definition hook_args :: "NetworkIptablesManager \<Rightarrow> string list" where
  "hook_args self = [''-I'', ''OUTPUT'', ''1'', ''-j'', im_chain_name self]"

definition unhook_args :: "string \<Rightarrow> string list" where
  "unhook_args chain_name = [''-D'', ''OUTPUT'', ''-j'', chain_name]"

definition install_hooks ::
    "fw_host \<Rightarrow> NetworkIptablesManager \<Rightarrow> bool \<Rightarrow> CreatedResources \<Rightarrow> fw_trace \<Rightarrow> install_result" where
  "install_hooks host self ipv6_enabled created tr =
     (if \<not> is_hooked self then
        (Ok (), created, log_line (''Warning: no container network namespace to enforce in. '' @
           ''Skipping the OUTPUT hook; this policy is not enforced.'') tr)
      else
        let created = created\<lparr>cr_v4 := (cr_v4 created)\<lparr>fr_hook := True\<rparr>\<rparr>;
            tr = publish_created created tr
        in case run_iptables host self (hook_args self) tr of
             (Inl e, tr) \<Rightarrow>
               (let (_, tr) = run_iptables host self (unhook_args (im_chain_name self)) tr;
                    created = created\<lparr>cr_v4 := (cr_v4 created)\<lparr>fr_hook := False\<rparr>\<rparr>
                in (Err e, created, publish_created created tr))
           | (Inr _, tr) \<Rightarrow>
               let tr = log_line (''OUTPUT hook installed in the container namespace for chain '' @
                     im_chain_name self @ '' (iptables).'') tr
               in if \<not> ipv6_enabled then (Ok (), created, tr)
                  else
                    let created = created\<lparr>cr_v6 := (cr_v6 created)\<lparr>fr_hook := True\<rparr>\<rparr>;
                        tr = publish_created created tr
                    in case run_ip6tables host self (hook_args self) tr of
                         (Inl e, tr) \<Rightarrow>
                           (let (_, tr) = run_ip6tables host self (unhook_args (im_chain_name self)) tr;
                                created = created\<lparr>cr_v6 := (cr_v6 created)\<lparr>fr_hook := False\<rparr>\<rparr>
                            in (Err e, created, publish_created created tr))
                       | (Inr _, tr) \<Rightarrow>
                           (Ok (), created, log_line (''OUTPUT hook installed in the container namespace for chain '' @
                              im_chain_name self @ '' (ip6tables).'') tr))"

definition install_rules ::
    "fw_host \<Rightarrow> NetworkIptablesManager \<Rightarrow> ContainerPolicy \<Rightarrow> bool \<Rightarrow> CreatedResources \<Rightarrow> fw_trace
      \<Rightarrow> install_result" where
  "install_rules host self policy ipv6_enabled created tr =
     (let base_rules = build_base_chain_rule_args (im_chain_name self) in
      on_ok (run_iptables_rule_args host self base_rules tr) created (\<lambda>_ tr.
      on_ok (if ipv6_enabled then run_ip6tables_rule_args host self base_rules tr else (Ok (), tr)) created (\<lambda>_ tr.
      on_ok (build_policy_rules_logged (im_chain_name self) policy tr) created (\<lambda>policy_rules tr.
      on_ok (run_iptables_rule_args host self (fa_ipv4 policy_rules) tr) created (\<lambda>_ tr.
      on_ok (if ipv6_enabled then run_ip6tables_rule_args host self (fa_ipv6 policy_rules) tr
             else (Ok (), if fa_ipv6 policy_rules \<noteq> []
               then log_line (''Warning: '' @ show_nat (length (fa_ipv6 policy_rules)) @
                 '' IPv6 firewall rule(s) not applied because ip6tables '' @
                 ''is unavailable; IPv6 egress is unfiltered on this host.'') tr
               else tr)) created (\<lambda>_ tr.
      let default_args = build_default_policy_rule_arg (im_chain_name self) (effective_default_policy policy);
          tr = log_line (''Default network policy: '' @ last default_args) tr
      in on_ok (run_iptables host self default_args tr) created (\<lambda>_ tr.
         on_ok (if ipv6_enabled then run_ip6tables host self default_args tr else (Ok True, tr)) created (\<lambda>_ tr.
         install_hooks host self ipv6_enabled created tr))))))))"

definition install_firewall_rules ::
    "fw_host \<Rightarrow> NetworkIptablesManager \<Rightarrow> ContainerPolicy \<Rightarrow> CreatedResources \<Rightarrow> fw_trace \<Rightarrow> install_result" where
  "install_firewall_rules host self policy created tr =
     (let tr = log_line (''Creating iptables/ip6tables chain: '' @ im_chain_name self) tr;
          (status, tr) = ip6tables_status host self tr
      in if status = UnusableButIpv6Active then
           (Err (''ip6tables is unusable but the namespace being filtered has active '' @
              ''IPv6; refusing to apply an IPv4-only policy that would leave IPv6 egress unfiltered''),
            created, tr)
         else
           let ipv6_enabled = status = Available in
           on_ok (run_iptables host self [''-N'', im_chain_name self] tr) created (\<lambda>_ tr.
           let created = created\<lparr>cr_v4 := (cr_v4 created)\<lparr>fr_chain := True\<rparr>\<rparr>;
               tr = publish_created created tr
           in if \<not> ipv6_enabled then install_rules host self policy ipv6_enabled created tr
              else
                on_ok (run_ip6tables host self [''-N'', im_chain_name self] tr) created (\<lambda>_ tr.
                let created = created\<lparr>cr_v6 := (cr_v6 created)\<lparr>fr_chain := True\<rparr>\<rparr>;
                    tr = publish_created created tr
                in install_rules host self policy ipv6_enabled created tr)))"

section \<open>Removal\<close>

text \<open>\<open>flush\<close> and \<open>delete\<close> are the closures the caller passes, on the trace; the result is whether the chain remains.\<close>

definition teardown_chain ::
    "bool \<Rightarrow> bool \<Rightarrow> (fw_trace \<Rightarrow> fw_trace) \<Rightarrow> (fw_trace \<Rightarrow> bool \<times> fw_trace) \<Rightarrow> fw_trace \<Rightarrow> bool \<times> fw_trace" where
  "teardown_chain created_chain hooks_remain flush delete tr =
     (if \<not> created_chain then (False, tr)
      else if hooks_remain then (True, tr)
      else let (deleted, tr) = delete (flush tr) in (\<not> deleted, tr))"

definition teardown_created ::
    "fw_host \<Rightarrow> NetworkIptablesManager \<Rightarrow> string \<Rightarrow> CreatedResources \<Rightarrow> fw_trace \<Rightarrow> CreatedResources \<times> fw_trace" where
  "teardown_created host self chain_name created tr =
     (let (unhooked4, tr) =
        (if fr_hook (cr_v4 created)
         then (let (r, tr) = run_iptables host self (unhook_args chain_name) tr in (is_ok r, tr))
         else (False, tr));
          hook4 = fr_hook (cr_v4 created) \<and> \<not> unhooked4;
          (unhooked6, tr) =
            (if fr_hook (cr_v6 created)
             then (let (r, tr) = run_ip6tables host self (unhook_args chain_name) tr in (is_ok r, tr))
             else (False, tr));
          hook6 = fr_hook (cr_v6 created) \<and> \<not> unhooked6;
          (chain4, tr) = teardown_chain (fr_chain (cr_v4 created)) hook4
            (\<lambda>tr. snd (run_iptables host self [''-F'', chain_name] tr))
            (\<lambda>tr. let (r, tr) = run_iptables host self [''-X'', chain_name] tr in (is_ok r, tr)) tr;
          (chain6, tr) = teardown_chain (fr_chain (cr_v6 created)) hook6
            (\<lambda>tr. snd (run_ip6tables host self [''-F'', chain_name] tr))
            (\<lambda>tr. let (r, tr) = run_ip6tables host self [''-X'', chain_name] tr in (is_ok r, tr)) tr;
          residual = \<lparr>cr_v4 = \<lparr>fr_chain = chain4, fr_hook = hook4\<rparr>,
                      cr_v6 = \<lparr>fr_chain = chain6, fr_hook = hook6\<rparr>\<rparr>
      in (residual, publish_created residual tr))"

section \<open>The operations of the manager\<close>

definition retain_residual_ownership ::
    "NetworkIptablesManager \<Rightarrow> CreatedResources \<Rightarrow> bool \<times> NetworkIptablesManager" where
  "retain_residual_ownership self residual =
     (\<not> CreatedResources_is_empty residual,
      self\<lparr>im_created := residual, im_rules_applied := \<not> CreatedResources_is_empty residual\<rparr>)"

definition apply_firewall_rules_inner ::
    "fw_host \<Rightarrow> NetworkIptablesManager \<Rightarrow> ContainerPolicy \<Rightarrow> fw_trace
      \<Rightarrow> (string \<times> CreatedResources + CreatedResources) \<times> fw_trace" where
  "apply_firewall_rules_inner host self policy tr =
     (case install_firewall_rules host self policy CreatedResources_default tr of
        (Inr _, created, tr) \<Rightarrow> (Ok created, tr)
      | (Inl e, created, tr) \<Rightarrow>
          let (residual, tr) = teardown_created host self (im_chain_name self) created tr
          in (Err (e, residual), tr))"

definition record_apply_outcome ::
    "NetworkIptablesManager \<Rightarrow> string \<times> CreatedResources + CreatedResources \<Rightarrow> fw_trace
      \<Rightarrow> (string + bool) \<times> NetworkIptablesManager \<times> fw_trace" where
  "record_apply_outcome self outcome tr =
     (case outcome of
        Inr created \<Rightarrow> (Ok True, self\<lparr>im_created := created, im_rules_applied := True\<rparr>, tr)
      | Inl (e, residual) \<Rightarrow>
          let (retained, self) = retain_residual_ownership self residual
          in (Err e, self,
              if retained
              then log_line (''Firewall setup failed: '' @ e @ ''. Rollback left iptables state behind; '' @
                ''retained ownership so teardown retries it.'') tr
              else log_line (''Firewall setup failed: '' @ e @ ''. Partial iptables state rolled back.'') tr))"

definition apply_firewall_rules ::
    "fw_host \<Rightarrow> NetworkIptablesManager \<Rightarrow> ContainerPolicy \<Rightarrow> fw_trace
      \<Rightarrow> (string + bool) \<times> NetworkIptablesManager \<times> fw_trace" where
  "apply_firewall_rules host self policy tr =
     (if \<not> installs_firewall (plan_network policy) then
        (Ok True, self, log_line ''Network policy requests no firewall; skipping iptables.'' tr)
      else if im_rules_applied self then
        (Err (''Firewall rules are already applied for chain '' @ im_chain_name self @
           ''; remove them before applying again. '' @
           ''Re-applying would replace the record of what this process created and '' @
           ''strand whatever the earlier attempt left behind.''), self, tr)
      else
        let (outcome, tr) = apply_firewall_rules_inner host self policy tr
        in record_apply_outcome self outcome tr)"

definition remove_firewall_rules ::
    "fw_host \<Rightarrow> NetworkIptablesManager \<Rightarrow> fw_trace \<Rightarrow> (string + unit) \<times> NetworkIptablesManager \<times> fw_trace" where
  "remove_firewall_rules host self tr =
     (if \<not> im_rules_applied self then (Ok (), self, tr)
      else
        let tr = log_line (''Removing iptables/ip6tables chain: '' @ im_chain_name self) tr;
            (residual, tr) = teardown_created host self (im_chain_name self) (im_created self) tr;
            (_, self) = retain_residual_ownership self residual
        in (Ok (), self, tr))"

definition allow_ping_sockets ::
    "fw_host \<Rightarrow> NetworkIptablesManager \<Rightarrow> fw_trace \<Rightarrow> (string + bool) \<times> fw_trace" where
  "allow_ping_sockets host self tr =
     run_firewall_command host self ''sysctl'' [''-w'', ''net.ipv4.ping_group_range=0 2147483647''] tr"

definition force_cleanup ::
    "(string \<Rightarrow> 8 word list) \<Rightarrow> fw_host \<Rightarrow> string \<Rightarrow> EgressHookPoint \<Rightarrow> CreatedResources \<Rightarrow> fw_trace \<Rightarrow> fw_trace" where
  "force_cleanup sha host container_name hook_point created tr =
     (if CreatedResources_is_empty created then tr
      else
        let mgr = (NetworkIptablesManager_new sha container_name hook_point)
              \<lparr>im_rules_applied := True, im_created := created\<rparr>
        in snd (snd (remove_firewall_rules host mgr tr)))"

text \<open>\<open>Drop\<close> logs to a buffer of its own, which is discarded with the manager.\<close>

definition drop_manager :: "fw_host \<Rightarrow> NetworkIptablesManager \<Rightarrow> fw_trace \<Rightarrow> fw_trace" where
  "drop_manager host self tr =
     (if im_rules_applied self \<and> \<not> im_preserve_policy self
      then snd (snd (remove_firewall_rules host self tr)) else tr)"

section \<open>What a trace ran\<close>

text \<open>
  The command lines of a trace, each with whether it reported success. The end of the container's
  network namespace stands among them as the empty command line, which no command has.
\<close>

definition succeeded :: "exec_result \<Rightarrow> bool" where
  "succeeded r = (case r of Exited ok _ \<Rightarrow> ok | SpawnError _ \<Rightarrow> False)"

fun runs :: "fw_trace \<Rightarrow> (string list \<times> bool) list" where
  "runs [] = []"
| "runs (Ran argv r # tr) = (argv, succeeded r) # runs tr"
| "runs (LogLine _ # tr) = runs tr"
| "runs (PublishedCreated _ # tr) = runs tr"
| "runs (NamespaceGone # tr) = ([], True) # runs tr"

lemma runs_append [simp]: "runs (tr @ tr') = runs tr @ runs tr'"
  by (induction tr rule: runs.induct) simp_all

lemma runs_log_line [simp]: "runs (log_line l tr) = runs tr"
  by (simp add: log_line_def)

lemma runs_publish_created [simp]: "runs (publish_created c tr) = runs tr"
  by (simp add: publish_created_def)

definition all_ok :: "string list list \<Rightarrow> (string list \<times> bool) list" where
  "all_ok cmds = map (\<lambda>a. (a, True)) cmds"

lemma all_ok_simps [simp]:
  "all_ok [] = []" "all_ok (a # as) = (a, True) # all_ok as" "all_ok (as @ bs) = all_ok as @ all_ok bs"
  by (simp_all add: all_ok_def)

lemma command_argv_inj [simp]:
  "command_argv self b args = command_argv self b' args' \<longleftrightarrow> b = b' \<and> args = args'"
  by (auto simp: command_argv_def split: EgressHookPoint.splits)

lemma runs_command:
  "runs (snd (run_firewall_command host self b args tr)) =
     runs tr @ [(command_argv self b args, is_ok (fst (run_firewall_command host self b args tr)))]"
  by (simp add: run_firewall_command_def log_command_failure_def succeeded_def Let_def
      split: exec_result.splits)

lemma command_cases:
  obtains e tr' where "run_firewall_command host self b args tr = (Err e, tr')"
    and "runs tr' = runs tr @ [(command_argv self b args, False)]"
  | x tr' where "run_firewall_command host self b args tr = (Ok x, tr')"
    and "runs tr' = runs tr @ [(command_argv self b args, True)]"
  using runs_command [of host self b args tr]
  by (cases "run_firewall_command host self b args tr"; cases "fst (run_firewall_command host self b args tr)") auto

lemmas run_defs = run_iptables_def run_ip6tables_def

text \<open>The two rule loops are one loop on the binary.\<close>

fun run_rules ::
    "fw_host \<Rightarrow> NetworkIptablesManager \<Rightarrow> string \<Rightarrow> string list list \<Rightarrow> fw_trace \<Rightarrow> (string + unit) \<times> fw_trace" where
  "run_rules host self b [] tr = (Ok (), tr)"
| "run_rules host self b (rule # rules) tr =
     (case run_firewall_command host self b rule tr of
        (Inl e, tr) \<Rightarrow> (Err e, tr)
      | (Inr _, tr) \<Rightarrow> run_rules host self b rules tr)"

lemma rule_args_run_rules:
  "run_iptables_rule_args host self rules tr = run_rules host self ''iptables'' rules tr"
  "run_ip6tables_rule_args host self rules tr = run_rules host self ''ip6tables'' rules tr"
  by (induction rules arbitrary: tr) (simp_all add: run_defs split: prod.splits sum.splits)

section \<open>Stages of the installation\<close>

definition is_add :: "NetworkIptablesManager \<Rightarrow> string list \<Rightarrow> bool" where
  "is_add self a \<longleftrightarrow> (\<exists>b xs. a = command_argv self b (''-A'' # xs))"

text \<open>
  \<open>ran\<close>: a stage that succeeds ran exactly \<open>cmds\<close>, all successfully, and a stage that fails ran only
  commands that append to the chain. \<open>stages\<close>: an installation either failed so, without touching the
  ownership record, or completed \<open>cmds\<close> and went on as \<open>k\<close>.
\<close>

definition ran :: "NetworkIptablesManager \<Rightarrow> fw_trace \<Rightarrow> string list list \<Rightarrow> (string + 'a) \<times> fw_trace \<Rightarrow> bool" where
  "ran self tr cmds p \<longleftrightarrow> list_all (is_add self) cmds \<and>
     (case fst p of
        Inr _ \<Rightarrow> runs (snd p) = runs tr @ all_ok cmds
      | Inl _ \<Rightarrow> \<exists>rs. runs (snd p) = runs tr @ rs \<and> list_all (is_add self \<circ> fst) rs)"

definition stages ::
    "NetworkIptablesManager \<Rightarrow> CreatedResources \<Rightarrow> fw_trace \<Rightarrow> string list list \<Rightarrow> install_result
      \<Rightarrow> (fw_trace \<Rightarrow> install_result) \<Rightarrow> bool" where
  "stages self created tr cmds result k \<longleftrightarrow>
     (\<exists>e tr' rs. result = (Err e, created, tr') \<and> runs tr' = runs tr @ rs \<and> list_all (is_add self \<circ> fst) rs) \<or>
     (\<exists>tr'. runs tr' = runs tr @ all_ok cmds \<and> result = k tr')"

lemma stages_done: "runs tr' = runs tr \<Longrightarrow> stages self created tr [] (k tr') k"
  by (auto simp: stages_def)

lemma all_ok_is_add: "list_all (is_add self \<circ> fst) (all_ok cmds) = list_all (is_add self) cmds"
  by (simp add: all_ok_def list_all_iff)

lemma stages_on_ok:
  assumes "ran self tr c1 p"
    and "\<And>x tr1. p = (Ok x, tr1) \<Longrightarrow> stages self created tr1 c2 (g x tr1) k"
  shows "stages self created tr (c1 @ c2) (on_ok p created g) k"
proof (cases p)
  case (Pair r tr1)
  show ?thesis
  proof (cases r)
    case (Inl e)
    then show ?thesis using assms(1) Pair by (auto simp: ran_def stages_def)
  next
    case (Inr x)
    then have r: "runs tr1 = runs tr @ all_ok c1" "list_all (is_add self) c1"
      using assms(1) Pair by (auto simp: ran_def)
    have "stages self created tr1 c2 (g x tr1) k" using assms(2) Pair Inr by simp
    then consider e tr' rs where "g x tr1 = (Err e, created, tr')" "runs tr' = runs tr1 @ rs"
        "list_all (is_add self \<circ> fst) rs"
      | tr' where "runs tr' = runs tr1 @ all_ok c2" "g x tr1 = k tr'"
      by (auto simp: stages_def)
    then show ?thesis
    proof cases
      case 1
      have "runs tr' = runs tr @ (all_ok c1 @ rs)" using 1 r by simp
      moreover have "list_all (is_add self \<circ> fst) (all_ok c1 @ rs)"
        using 1 r by (simp add: all_ok_is_add)
      ultimately show ?thesis unfolding stages_def Pair Inr on_ok.simps using 1(1) by blast
    next
      case 2
      have "runs tr' = runs tr @ all_ok (c1 @ c2)" using 2 r by simp
      then show ?thesis unfolding stages_def Pair Inr on_ok.simps using 2(2) by blast
    qed
  qed
qed

lemma ran_skip: "runs tr' = runs tr \<Longrightarrow> ran self tr [] (Ok x, tr')"
  by (simp add: ran_def)

lemma ran_command: "ran self tr [command_argv self b (''-A'' # xs)] (run_firewall_command host self b (''-A'' # xs) tr)"
  by (rule command_cases [of host self b "''-A'' # xs" tr]) (auto simp: ran_def is_add_def)

lemma ran_rules:
  "list_all (\<lambda>r. r \<noteq> [] \<and> hd r = ''-A'') rules \<Longrightarrow>
   ran self tr (map (command_argv self b) rules) (run_rules host self b rules tr)"
proof (induction rules arbitrary: tr)
  case (Cons rule rules)
  obtain xs where rule: "rule = ''-A'' # xs" using Cons.prems by (cases rule) auto
  have add: "is_add self (command_argv self b rule)" by (auto simp: is_add_def rule)
  show ?case
  proof (rule command_cases [of host self b rule tr])
    fix e tr' assume "run_firewall_command host self b rule tr = (Err e, tr')"
      "runs tr' = runs tr @ [(command_argv self b rule, False)]"
    then show ?case using add Cons ran_def [of self tr] by (auto simp: ran_def list_all_iff is_add_def)
  next
    fix x tr1 assume 1: "run_firewall_command host self b rule tr = (Ok x, tr1)"
      "runs tr1 = runs tr @ [(command_argv self b rule, True)]"
    have "ran self tr1 (map (command_argv self b) rules) (run_rules host self b rules tr1)"
      using Cons by simp
    then show ?case using 1 add by (auto simp: ran_def split: sum.splits)
  qed
qed (simp add: ran_def)

definition family_rules :: "string \<Rightarrow> IpFamily \<Rightarrow> EgressEntry list \<Rightarrow> string list list" where
  "family_rules chain f entries =
     concat (map (\<lambda>en. (case f of V4 \<Rightarrow> fa_ipv4 | V6 \<Rightarrow> fa_ipv6)
       (build_destination_rule_args chain (ee_destination en) (ee_action en) (ee_matching en))) entries)"

lemma runs_foldl_log: "runs (foldl (\<lambda>tr r. log_line (g r) tr) tr rs) = runs tr"
  by (induction rs arbitrary: tr) simp_all

lemma program_entry_runs: "runs (ps_trace (snd (program_entry c d st en))) = runs (ps_trace st)"
  by (simp add: program_entry_def Let_def runs_foldl_log)

lemma program_entry_Ok:
  "program_entry c d st en = (Ok u, st') \<Longrightarrow>
   fa_ipv4 (ps_args st') = fa_ipv4 (ps_args st) @ family_rules c V4 [en] \<and>
   fa_ipv6 (ps_args st') = fa_ipv6 (ps_args st) @ family_rules c V6 [en]"
  by (auto simp: program_entry_def Let_def family_rules_def FirewallRuleArgs_extend_def split: if_splits)

lemma program_entries_runs: "runs (ps_trace (snd (program_entries c d st ens))) = runs (ps_trace st)"
proof (induction ens arbitrary: st)
  case (Cons en ens)
  then show ?case
    using program_entry_runs [of c d st en]
    by (cases "program_entry c d st en"; cases "fst (program_entry c d st en)") auto
qed simp

lemma family_rules_Cons: "family_rules c f (en # ens) = family_rules c f [en] @ family_rules c f ens"
  by (simp add: family_rules_def)

lemma program_entries_Ok:
  "program_entries c d st ens = (Ok u, st') \<Longrightarrow>
   fa_ipv4 (ps_args st') = fa_ipv4 (ps_args st) @ family_rules c V4 ens \<and>
   fa_ipv6 (ps_args st') = fa_ipv6 (ps_args st) @ family_rules c V6 ens"
proof (induction ens arbitrary: st)
  case (Cons en ens)
  from Cons.prems obtain v st1 where 1: "program_entry c d st en = (Ok v, st1)"
    and 2: "program_entries c d st1 ens = (Ok u, st')"
    by (auto split: prod.splits sum.splits)
  show ?case unfolding family_rules_Cons [of c _ en ens]
    using program_entry_Ok [OF 1] Cons.IH [OF 2] by simp
qed (simp add: family_rules_def)

lemma build_policy_rules_runs: "runs (snd (build_policy_rules_logged c policy tr)) = runs tr"
proof (cases "lower_egress policy")
  case (Inr entries)
  let ?st = "\<lparr>ps_args = FirewallRuleArgs_default, ps_unresolved_denies = [], ps_catch_all_allows = [], ps_trace = tr\<rparr>"
  obtain r st where p: "program_entries c (effective_default_policy policy = Allow) ?st entries = (r, st)" by fastforce
  then have "runs (ps_trace st) = runs tr"
    using program_entries_runs [of c "effective_default_policy policy = Allow" ?st entries] by simp
  with Inr p show ?thesis by (cases r) (simp_all add: build_policy_rules_logged_def)
qed (simp add: build_policy_rules_logged_def)

lemma build_policy_rules_Ok:
  assumes "build_policy_rules_logged c policy tr = (Ok args, tr')"
  obtains entries where "lower_egress policy = Ok entries"
    and "fa_ipv4 args = family_rules c V4 entries" and "fa_ipv6 args = family_rules c V6 entries"
proof -
  obtain entries u st where e: "lower_egress policy = Ok entries"
    and p: "program_entries c (effective_default_policy policy = Allow)
      \<lparr>ps_args = FirewallRuleArgs_default, ps_unresolved_denies = [], ps_catch_all_allows = [],
       ps_trace = tr\<rparr> entries = (Ok u, st)" and a: "args = ps_args st"
    using assms by (auto simp: build_policy_rules_logged_def Let_def split: sum.splits prod.splits if_splits)
  from program_entries_Ok [OF p] show ?thesis
    by (intro that [OF e]) (simp_all add: a FirewallRuleArgs_default_def)
qed

text \<open>The commands that build the chain, after its creation.\<close>

definition rule_commands :: "NetworkIptablesManager \<Rightarrow> bool \<Rightarrow> ContainerPolicy \<Rightarrow> EgressEntry list \<Rightarrow> string list list" where
  "rule_commands self ipv6 policy entries =
     (let c = im_chain_name self; ip = command_argv self ''iptables''; ip6 = command_argv self ''ip6tables'';
          closing = build_default_policy_rule_arg c (effective_default_policy policy)
      in map ip (build_base_chain_rule_args c) @
         (if ipv6 then map ip6 (build_base_chain_rule_args c) else []) @
         map ip (family_rules c V4 entries) @
         (if ipv6 then map ip6 (family_rules c V6 entries) else []) @
         [ip closing] @ (if ipv6 then [ip6 closing] else []))"

definition egress_entries :: "ContainerPolicy \<Rightarrow> EgressEntry list" where
  "egress_entries policy = (case lower_egress policy of Inr es \<Rightarrow> es | Inl _ \<Rightarrow> [])"

lemma family_rules_add: "list_all (\<lambda>r. r \<noteq> [] \<and> hd r = ''-A'') (family_rules c f ens)"
  by (cases f) (auto simp: family_rules_def build_destination_rule_args_def build_single_rule_args_def
      FirewallRuleArgs_default_def list_all_iff Let_def split: option.splits prod.splits IpFamily.splits)

lemma base_rules_add: "list_all (\<lambda>r. r \<noteq> [] \<and> hd r = ''-A'') (build_base_chain_rule_args c)"
  by (simp add: build_base_chain_rule_args_def build_loopback_accept_rule_args_def)

lemma ran_if_rules:
  "list_all (\<lambda>r. r \<noteq> [] \<and> hd r = ''-A'') rules \<Longrightarrow> runs tr' = runs tr \<Longrightarrow>
   ran self tr (if ipv6 then map (command_argv self b) rules else [])
     (if ipv6 then run_rules host self b rules tr else (Ok (), tr'))"
  using ran_rules [of rules self tr b host] ran_skip [of tr' tr self "()"] by simp

lemma ran_build: "ran self tr [] (build_policy_rules_logged c policy tr)"
  using build_policy_rules_runs [of c policy tr] by (auto simp: ran_def split: sum.splits)

lemma ran_log: "ran self (log_line l tr) cmds p = ran self tr cmds p"
  by (simp only: ran_def runs_log_line)

lemma ran_closing:
  "ran self tr [command_argv self b (build_default_policy_rule_arg c d)]
     (run_firewall_command host self b (build_default_policy_rule_arg c d) (log_line l tr))"
  using ran_command [of self "log_line l tr" b] by (simp only: build_default_policy_rule_arg_def ran_log)

lemma ran_if_closing:
  "ran self tr (if ipv6 then [command_argv self b (build_default_policy_rule_arg c d)] else [])
     (if ipv6 then run_firewall_command host self b (build_default_policy_rule_arg c d) tr else (Ok True, tr))"
  using ran_command [of self tr b] by (simp add: build_default_policy_rule_arg_def ran_skip)

lemma stages_last:
  assumes "ran self tr cmds p" and "\<And>x tr1. p = (Ok x, tr1) \<Longrightarrow> g x tr1 = k tr1"
  shows "stages self created tr cmds (on_ok p created g) k"
  by (rule stages_on_ok [of self tr cmds p created "[]" g k, unfolded append_Nil2, OF assms(1)])
    (simp only: assms(2) stages_done)

lemma install_rules_stages:
  "stages self created tr (rule_commands self ipv6 policy (egress_entries policy))
     (install_rules host self policy ipv6 created tr) (install_hooks host self ipv6 created)"
  unfolding rule_commands_def install_rules_def Let_def rule_args_run_rules run_defs
  apply (rule stages_on_ok [OF ran_rules [OF base_rules_add]])
  apply (rule stages_on_ok [OF ran_if_rules [OF base_rules_add refl]])
  apply (rule stages_on_ok [of self _ "[]", unfolded append_Nil, OF ran_build])
  apply (erule build_policy_rules_Ok)
  apply (simp only: egress_entries_def sum.case)
  apply (rule stages_on_ok [OF ran_rules [OF family_rules_add]])
  apply (rule stages_on_ok [OF ran_if_rules [OF family_rules_add]], simp)
  apply (rule stages_on_ok [OF ran_closing])
  apply (rule stages_last [OF ran_if_closing], rule refl)
  done

section \<open>The state of the kernel\<close>

text \<open>
  What a list of commands leaves behind in the namespace, each with whether it took effect. The
  chains and hooks of a container namespace end with it; those of a manager without a namespace are
  the host's and stay.
\<close>

definition set_chain :: "bool \<Rightarrow> FamilyResources \<Rightarrow> FamilyResources" where
  "set_chain v r = r\<lparr>fr_chain := v\<rparr>"

definition set_hook :: "bool \<Rightarrow> FamilyResources \<Rightarrow> FamilyResources" where
  "set_hook v r = r\<lparr>fr_hook := v\<rparr>"

definition effect :: "NetworkIptablesManager \<Rightarrow> CreatedResources \<Rightarrow> string list \<times> bool \<Rightarrow> CreatedResources" where
  "effect self k cmd =
     (let (a, ok) = cmd; c = im_chain_name self;
          ip = command_argv self ''iptables''; ip6 = command_argv self ''ip6tables''
      in if \<not> ok then k
         else if a = [] then (if is_hooked self then CreatedResources_default else k)
         else if a = ip [''-N'', c] then k\<lparr>cr_v4 := set_chain True (cr_v4 k)\<rparr>
         else if a = ip6 [''-N'', c] then k\<lparr>cr_v6 := set_chain True (cr_v6 k)\<rparr>
         else if a = ip [''-X'', c] then k\<lparr>cr_v4 := set_chain False (cr_v4 k)\<rparr>
         else if a = ip6 [''-X'', c] then k\<lparr>cr_v6 := set_chain False (cr_v6 k)\<rparr>
         else if a = ip (hook_args self) then k\<lparr>cr_v4 := set_hook True (cr_v4 k)\<rparr>
         else if a = ip6 (hook_args self) then k\<lparr>cr_v6 := set_hook True (cr_v6 k)\<rparr>
         else if a = ip (unhook_args c) then k\<lparr>cr_v4 := set_hook False (cr_v4 k)\<rparr>
         else if a = ip6 (unhook_args c) then k\<lparr>cr_v6 := set_hook False (cr_v6 k)\<rparr>
         else k)"

definition kernel :: "NetworkIptablesManager \<Rightarrow> (string list \<times> bool) list \<Rightarrow> CreatedResources" where
  "kernel self rs = foldl (effect self) CreatedResources_default rs"

lemma kernel_append: "kernel self (rs @ rs') = foldl (effect self) (kernel self rs) rs'"
  by (simp add: kernel_def)

lemma effect_failed: "effect self k (a, False) = k"
  by (simp add: effect_def)

lemma argv_not_empty [simp]: "command_argv self b args \<noteq> []"
  by (simp add: command_argv_def split: EgressHookPoint.splits)

lemma effect_gone: "effect self k ([], True) = (if is_hooked self then CreatedResources_default else k)"
  by (simp add: effect_def)

lemma effect_ok:
  "effect self k (command_argv self ''iptables'' [''-N'', im_chain_name self], True) = k\<lparr>cr_v4 := set_chain True (cr_v4 k)\<rparr>"
  "effect self k (command_argv self ''ip6tables'' [''-N'', im_chain_name self], True) = k\<lparr>cr_v6 := set_chain True (cr_v6 k)\<rparr>"
  "effect self k (command_argv self ''iptables'' [''-X'', im_chain_name self], True) = k\<lparr>cr_v4 := set_chain False (cr_v4 k)\<rparr>"
  "effect self k (command_argv self ''ip6tables'' [''-X'', im_chain_name self], True) = k\<lparr>cr_v6 := set_chain False (cr_v6 k)\<rparr>"
  "effect self k (command_argv self ''iptables'' (hook_args self), True) = k\<lparr>cr_v4 := set_hook True (cr_v4 k)\<rparr>"
  "effect self k (command_argv self ''ip6tables'' (hook_args self), True) = k\<lparr>cr_v6 := set_hook True (cr_v6 k)\<rparr>"
  "effect self k (command_argv self ''iptables'' (unhook_args (im_chain_name self)), True) = k\<lparr>cr_v4 := set_hook False (cr_v4 k)\<rparr>"
  "effect self k (command_argv self ''ip6tables'' (unhook_args (im_chain_name self)), True) = k\<lparr>cr_v6 := set_hook False (cr_v6 k)\<rparr>"
  "effect self k (command_argv self b [''-F'', im_chain_name self], True) = k"
  "effect self k (command_argv self b [''-S''], True) = k"
  by (simp_all add: effect_def hook_args_def unhook_args_def)

lemma effect_add: "is_add self (fst r) \<Longrightarrow> effect self k r = k"
  by (cases r) (auto simp: is_add_def effect_def hook_args_def unhook_args_def Let_def)

lemma kernel_adds: "list_all (is_add self \<circ> fst) rs \<Longrightarrow> foldl (effect self) k rs = k"
  by (induction rs) (simp_all add: effect_add)

lemma rule_commands_add: "list_all (is_add self) (rule_commands self ipv6 policy ens)"
proof -
  have "list_all (is_add self) (map (command_argv self b) rules)"
    if "list_all (\<lambda>r. r \<noteq> [] \<and> hd r = ''-A'') rules" for b rules
    using that by (auto simp: list_all_iff is_add_def) (metis list.collapse)
  note * = this [OF base_rules_add] this [OF family_rules_add]
  have "is_add self (command_argv self b (build_default_policy_rule_arg c d))" for b c d
    by (auto simp: is_add_def build_default_policy_rule_arg_def)
  with * show ?thesis by (simp add: rule_commands_def Let_def)
qed

lemma kernel_command:
  assumes "runs tr' = runs tr @ [(a, ok)]"
  shows "kernel self (runs tr') = effect self (kernel self (runs tr)) (a, ok)"
  by (simp add: assms kernel_append)

lemmas kernel_steps = kernel_command effect_failed effect_ok set_chain_def set_hook_def

text \<open>Installing the hooks and tearing down keep the ownership record equal to the kernel's state.\<close>

lemma hook_failed_kernel:
  assumes "runs tr1 = runs tr @ [(command_argv self b (hook_args self), False)]"
    and "b = ''iptables'' \<and> \<not> fr_hook (cr_v4 (kernel self (runs tr))) \<or>
         b = ''ip6tables'' \<and> \<not> fr_hook (cr_v6 (kernel self (runs tr)))"
  shows "kernel self (runs (snd (run_firewall_command host self b (unhook_args (im_chain_name self)) tr1))) =
    kernel self (runs tr)"
  using assms(2) unfolding runs_command assms(1)
  by (cases "is_ok (fst (run_firewall_command host self b (unhook_args (im_chain_name self)) tr1))")
    (auto simp: kernel_append effect_failed effect_ok set_hook_def)

lemma install_hooks_kernel:
  assumes "kernel self (runs tr) = created" and "\<not> fr_hook (cr_v4 created)" and "\<not> fr_hook (cr_v6 created)"
    and "install_hooks host self ipv6 created tr = (r, created', tr')"
  shows "kernel self (runs tr') = created'"
proof -
  let ?c4 = "created\<lparr>cr_v4 := (cr_v4 created)\<lparr>fr_hook := True\<rparr>\<rparr>"
  let ?c6 = "?c4\<lparr>cr_v6 := (cr_v6 ?c4)\<lparr>fr_hook := True\<rparr>\<rparr>"
  let ?tr0 = "publish_created ?c4 tr"
  have k0: "kernel self (runs ?tr0) = created" using assms(1) by simp
  consider "\<not> is_hooked self"
    | e tr1 where "is_hooked self" "run_firewall_command host self ''iptables'' (hook_args self) ?tr0 = (Err e, tr1)"
        "runs tr1 = runs ?tr0 @ [(command_argv self ''iptables'' (hook_args self), False)]"
    | x tr1 where "is_hooked self" "run_firewall_command host self ''iptables'' (hook_args self) ?tr0 = (Ok x, tr1)"
        "runs tr1 = runs ?tr0 @ [(command_argv self ''iptables'' (hook_args self), True)]"
    by (cases "is_hooked self"; rule command_cases [of host self "''iptables''" "hook_args self" ?tr0]) auto
  then show ?thesis
  proof cases
    case 1
    then show ?thesis using assms by (auto simp: install_hooks_def)
  next
    case 2
    have "kernel self (runs (snd (run_firewall_command host self ''iptables'' (unhook_args (im_chain_name self)) tr1))) = created"
      using hook_failed_kernel [OF 2(3)] k0 assms(2) by simp
    then show ?thesis using assms(2,4) 2 by (auto simp: install_hooks_def run_defs Let_def split: prod.splits)
  next
    case 3
    have k1: "kernel self (runs tr1) = ?c4" using kernel_command [OF 3(3)] k0 by (simp add: effect_ok set_hook_def)
    let ?tr1 = "publish_created ?c6 (log_line
      (''OUTPUT hook installed in the container namespace for chain '' @ im_chain_name self @ '' (iptables).'') tr1)"
    have k1': "kernel self (runs ?tr1) = ?c4" using k1 by simp
    show ?thesis
    proof (rule command_cases [of host self "''ip6tables''" "hook_args self" ?tr1])
      fix e tr2 assume 2: "run_firewall_command host self ''ip6tables'' (hook_args self) ?tr1 = (Err e, tr2)"
        "runs tr2 = runs ?tr1 @ [(command_argv self ''ip6tables'' (hook_args self), False)]"
      have "kernel self (runs (snd (run_firewall_command host self ''ip6tables'' (unhook_args (im_chain_name self)) tr2))) = ?c4"
        using hook_failed_kernel [OF 2(2)] k1' assms(3) by simp
      then show ?thesis using assms(3,4) 3 k1 2
        by (auto simp: install_hooks_def run_defs Let_def split: prod.splits if_splits)
    next
      fix y tr2 assume 2: "run_firewall_command host self ''ip6tables'' (hook_args self) ?tr1 = (Ok y, tr2)"
        "runs tr2 = runs ?tr1 @ [(command_argv self ''ip6tables'' (hook_args self), True)]"
      have "kernel self (runs tr2) = ?c6" using kernel_command [OF 2(2)] k1' by (simp add: effect_ok set_hook_def)
      then show ?thesis using assms(4) 3 k1 2 by (auto simp: install_hooks_def run_defs Let_def split: if_splits)
    qed
  qed
qed

definition family :: "string \<Rightarrow> CreatedResources \<Rightarrow> FamilyResources" where
  "family b k = (if b = ''iptables'' then cr_v4 k else cr_v6 k)"

definition with_family :: "string \<Rightarrow> FamilyResources \<Rightarrow> CreatedResources \<Rightarrow> CreatedResources" where
  "with_family b r k = (if b = ''iptables'' then k\<lparr>cr_v4 := r\<rparr> else k\<lparr>cr_v6 := r\<rparr>)"

lemma effect_family:
  assumes "b \<in> {''iptables'', ''ip6tables''}"
  shows "effect self k (command_argv self b (unhook_args (im_chain_name self)), ok) =
      (if ok then with_family b (set_hook False (family b k)) k else k)"
    and "effect self k (command_argv self b [''-X'', im_chain_name self], ok) =
      (if ok then with_family b (set_chain False (family b k)) k else k)"
    and "effect self k (command_argv self b [''-F'', im_chain_name self], ok) = k"
  using assms by (cases ok; auto simp: effect_ok effect_failed family_def with_family_def)+

lemma teardown_hook_kernel:
  assumes b: "b \<in> {''iptables'', ''ip6tables''}" and k: "fr_hook (family b (kernel self (runs tr))) = hook"
    and run: "(if hook then (let (r, tr) = run_firewall_command host self b (unhook_args (im_chain_name self)) tr
        in (is_ok r, tr)) else (False, tr)) = (u, tr1)"
  shows "kernel self (runs tr1) =
    with_family b ((family b (kernel self (runs tr)))\<lparr>fr_hook := hook \<and> \<not> u\<rparr>) (kernel self (runs tr))"
proof (cases hook)
  case True
  then have "runs tr1 = runs tr @ [(command_argv self b (unhook_args (im_chain_name self)), u)]"
    using run runs_command [of host self b "unhook_args (im_chain_name self)" tr] by (auto split: prod.splits)
  from kernel_command [OF this, of self] show ?thesis
    using True k effect_family(1) [OF b] by (auto simp: set_hook_def with_family_def family_def)
next
  case False
  then show ?thesis using run k by (auto simp: with_family_def family_def)
qed

lemma teardown_chain_kernel:
  assumes b: "b \<in> {''iptables'', ''ip6tables''}" and k: "fr_chain (family b (kernel self (runs tr))) = created"
    and run: "teardown_chain created hooks
        (\<lambda>tr. snd (run_firewall_command host self b [''-F'', im_chain_name self] tr))
        (\<lambda>tr. let (r, tr) = run_firewall_command host self b [''-X'', im_chain_name self] tr in (is_ok r, tr)) tr =
      (remains, tr1)"
  shows "kernel self (runs tr1) =
    with_family b ((family b (kernel self (runs tr)))\<lparr>fr_chain := remains\<rparr>) (kernel self (runs tr))"
proof (cases "created \<and> \<not> hooks")
  case True
  let ?trf = "snd (run_firewall_command host self b [''-F'', im_chain_name self] tr)"
  obtain ok where "runs ?trf = runs tr @ [(command_argv self b [''-F'', im_chain_name self], ok)]"
    using runs_command by blast
  then have kf: "kernel self (runs ?trf) = kernel self (runs tr)"
    using kernel_command effect_family(3) [OF b] by simp
  have "runs tr1 = runs ?trf @ [(command_argv self b [''-X'', im_chain_name self], \<not> remains)]"
    using True run runs_command [of host self b "[''-X'', im_chain_name self]" ?trf]
    by (auto simp: teardown_chain_def split: prod.splits)
  from kernel_command [OF this, of self] show ?thesis
    using kf k True effect_family(2) [OF b] by (auto simp: set_chain_def with_family_def family_def)
next
  case False
  then show ?thesis using run k by (auto simp: teardown_chain_def with_family_def family_def split: if_splits)
qed

lemma teardown_kernel:
  assumes "kernel self (runs tr) = created"
    and "teardown_created host self (im_chain_name self) created tr = (residual, tr')"
  shows "kernel self (runs tr') = residual"
proof -
  let ?c = "im_chain_name self"
  let ?unhook = "\<lambda>b hook tr. if hook then (let (r, tr) = run_firewall_command host self b (unhook_args ?c) tr
        in (is_ok r, tr)) else (False, tr)"
  let ?chain = "\<lambda>b made hooks. teardown_chain made hooks
        (\<lambda>tr. snd (run_firewall_command host self b [''-F'', ?c] tr))
        (\<lambda>tr. let (r, tr) = run_firewall_command host self b [''-X'', ?c] tr in (is_ok r, tr))"
  obtain u4 tr1 where 1: "?unhook ''iptables'' (fr_hook (cr_v4 created)) tr = (u4, tr1)" by fastforce
  obtain u6 tr2 where 2: "?unhook ''ip6tables'' (fr_hook (cr_v6 created)) tr1 = (u6, tr2)" by fastforce
  let ?h4 = "fr_hook (cr_v4 created) \<and> \<not> u4" and ?h6 = "fr_hook (cr_v6 created) \<and> \<not> u6"
  obtain c4 tr3 where 3: "?chain ''iptables'' (fr_chain (cr_v4 created)) ?h4 tr2 = (c4, tr3)" by fastforce
  obtain c6 tr4 where 4: "?chain ''ip6tables'' (fr_chain (cr_v6 created)) ?h6 tr3 = (c6, tr4)" by fastforce
  let ?residual = "\<lparr>cr_v4 = \<lparr>fr_chain = c4, fr_hook = ?h4\<rparr>, cr_v6 = \<lparr>fr_chain = c6, fr_hook = ?h6\<rparr>\<rparr>"
  have "teardown_created host self ?c created tr = (?residual, publish_created ?residual tr4)"
    by (simp only: teardown_created_def run_defs Let_def prod.case
        1 [unfolded Let_def] 2 [unfolded Let_def] 3 [unfolded Let_def] 4 [unfolded Let_def])
  then have r: "residual = ?residual" and tr': "tr' = publish_created residual tr4" using assms(2) by simp_all
  have k1: "kernel self (runs tr1) = created\<lparr>cr_v4 := (cr_v4 created)\<lparr>fr_hook := ?h4\<rparr>\<rparr>"
    using teardown_hook_kernel [OF _ _ 1] assms(1) by (simp add: family_def with_family_def)
  have k2: "kernel self (runs tr2) = created\<lparr>cr_v4 := (cr_v4 created)\<lparr>fr_hook := ?h4\<rparr>, cr_v6 := (cr_v6 created)\<lparr>fr_hook := ?h6\<rparr>\<rparr>"
    using teardown_hook_kernel [OF _ _ 2] k1 by (simp add: family_def with_family_def)
  have k3: "kernel self (runs tr3) = created\<lparr>cr_v4 := \<lparr>fr_chain = c4, fr_hook = ?h4\<rparr>, cr_v6 := (cr_v6 created)\<lparr>fr_hook := ?h6\<rparr>\<rparr>"
    using teardown_chain_kernel [OF _ _ 3] k2 by (simp add: family_def with_family_def)
  have "kernel self (runs tr4) = residual"
    using teardown_chain_kernel [OF _ _ 4] k3 r by (simp add: family_def with_family_def)
  then show ?thesis by (simp add: tr')
qed

section \<open>The whole installation\<close>

definition probe_argv :: "NetworkIptablesManager \<Rightarrow> string list" where
  "probe_argv self = command_argv self ''ip6tables'' [''-S'']"

definition setup_commands :: "NetworkIptablesManager \<Rightarrow> bool \<Rightarrow> ContainerPolicy \<Rightarrow> string list list" where
  "setup_commands self ipv6 policy =
     [command_argv self ''iptables'' [''-N'', im_chain_name self]] @
     (if ipv6 then [command_argv self ''ip6tables'' [''-N'', im_chain_name self]] else []) @
     rule_commands self ipv6 policy (egress_entries policy)"

text \<open>A command that creates or extends a chain, or probes; it never hooks, flushes or deletes one.\<close>

definition builds :: "NetworkIptablesManager \<Rightarrow> string list \<Rightarrow> bool" where
  "builds self a \<longleftrightarrow> (\<exists>b x xs. a = command_argv self b (x # xs) \<and> x \<in> {''-A'', ''-N'', ''-S''})"

lemma is_add_builds: "list_all (is_add self \<circ> fst) rs \<Longrightarrow> list_all (builds self \<circ> fst) rs"
  by (auto simp: list_all_iff is_add_def builds_def)

lemma builds_intros [simp]:
  "builds self (probe_argv self)" "builds self (command_argv self b [''-N'', c])"
  by (auto simp: builds_def probe_argv_def)

lemma ip6tables_status_cases:
  assumes "ip6tables_status host self tr = (status, tr')"
  shows "runs tr' = runs tr @ [(probe_argv self, status = Available)] \<and>
    (status = KernelIpv6Disabled \<longrightarrow> (\<exists>tr1. ip6tables_probe_succeeded host self tr = (False, tr1) \<and>
       namespace_ipv6_state host self tr1 = Ipv6Inactive))"
proof -
  obtain p tr1 where 1: "ip6tables_probe_succeeded host self tr = (p, tr1)" by fastforce
  have r1: "runs tr1 = runs tr @ [(probe_argv self, p)]"
    using 1 by (auto simp: ip6tables_probe_succeeded_def probe_argv_def succeeded_def Let_def
        split: exec_result.splits bool.splits)
  obtain q tr2 where 2: "ipv6_egress_possible host self tr1 = (q, tr2)" by fastforce
  have r2: "runs tr2 = runs tr1" and q: "\<not> q \<longrightarrow> namespace_ipv6_state host self tr1 = Ipv6Inactive"
    using 2 by (auto simp: ipv6_egress_possible_def Let_def split: HostIpv6State.splits if_splits)
      (cases "namespace_ipv6_state host self tr1"; simp)
  have "status = classify_ip6tables_status p q" "runs tr' = runs tr2"
    using assms 1 2 by (auto simp: ip6tables_status_def Let_def split: Ip6tablesStatus.splits)
  then show ?thesis using 1 r1 r2 q by (cases p; cases q) auto
qed

definition no_ipv6_seen :: "fw_host \<Rightarrow> NetworkIptablesManager \<Rightarrow> fw_trace \<Rightarrow> bool" where
  "no_ipv6_seen host self tr \<longleftrightarrow>
     (\<exists>tr1. ip6tables_probe_succeeded host self
        (log_line (''Creating iptables/ip6tables chain: '' @ im_chain_name self) tr) = (False, tr1) \<and>
        namespace_ipv6_state host self tr1 = Ipv6Inactive)"

text \<open>
  An installation that starts with an empty record either failed with nothing but building commands
  run, or completed all set-up commands and went on to the hooks.
\<close>

lemma install_rules_cases:
  assumes k: "kernel self (runs t) = c"
  obtains (failed) e tr' rs where "install_rules host self policy ipv6 c t = (Err e, c, tr')"
      "runs tr' = runs t @ rs" "list_all (builds self \<circ> fst) rs" "kernel self (runs tr') = c"
  | (hooking) tr1 where "install_rules host self policy ipv6 c t = install_hooks host self ipv6 c tr1"
      "runs tr1 = runs t @ all_ok (rule_commands self ipv6 policy (egress_entries policy))" "kernel self (runs tr1) = c"
proof -
  from install_rules_stages [of self c t ipv6 policy host]
  consider e tr' rs where "install_rules host self policy ipv6 c t = (Err e, c, tr')"
      "runs tr' = runs t @ rs" "list_all (is_add self \<circ> fst) rs"
    | tr1 where "runs tr1 = runs t @ all_ok (rule_commands self ipv6 policy (egress_entries policy))"
      "install_rules host self policy ipv6 c t = install_hooks host self ipv6 c tr1"
    unfolding stages_def by blast
  then show thesis
  proof cases
    case 1
    have "kernel self (runs tr') = c" unfolding 1(2) kernel_append k by (rule kernel_adds [OF 1(3)])
    with 1 is_add_builds [OF 1(3)] show thesis by (intro failed)
  next
    case 2
    have "list_all (is_add self \<circ> fst) (all_ok (rule_commands self ipv6 policy (egress_entries policy)))"
      using rule_commands_add by (simp add: all_ok_is_add)
    then have "kernel self (runs tr1) = c" unfolding 2(1) kernel_append k by (rule kernel_adds)
    with 2 show thesis by (intro hooking)
  qed
qed

abbreviation (input) chain_made :: "bool \<Rightarrow> CreatedResources" where
  "chain_made ipv6 \<equiv>
     \<lparr>cr_v4 = \<lparr>fr_chain = True, fr_hook = False\<rparr>, cr_v6 = \<lparr>fr_chain = ipv6, fr_hook = False\<rparr>\<rparr>"

definition create_commands :: "NetworkIptablesManager \<Rightarrow> bool \<Rightarrow> string list list" where
  "create_commands self ipv6 =
     [command_argv self ''iptables'' [''-N'', im_chain_name self]] @
     (if ipv6 then [command_argv self ''ip6tables'' [''-N'', im_chain_name self]] else [])"

lemma install_unfold:
  assumes "ip6tables_status host self
      (log_line (''Creating iptables/ip6tables chain: '' @ im_chain_name self) tr) = (status, trs)"
    and "status \<noteq> UnusableButIpv6Active" and "ipv6 = (status = Available)"
  shows "install_firewall_rules host self policy CreatedResources_default tr =
    on_ok (run_firewall_command host self ''iptables'' [''-N'', im_chain_name self] trs) CreatedResources_default (\<lambda>_ tr.
      if \<not> ipv6 then install_rules host self policy ipv6 (chain_made False) (publish_created (chain_made False) tr)
      else on_ok (run_firewall_command host self ''ip6tables'' [''-N'', im_chain_name self]
               (publish_created (chain_made False) tr)) (chain_made False)
             (\<lambda>_ tr. install_rules host self policy ipv6 (chain_made True) (publish_created (chain_made True) tr)))"
  using assms by (simp add: install_firewall_rules_def run_defs CreatedResources_default_def Let_def cong: if_cong)

lemma create_cases:
  assumes s: "ip6tables_status host self
      (log_line (''Creating iptables/ip6tables chain: '' @ im_chain_name self) tr) = (status, trs)"
    and ok: "status \<noteq> UnusableButIpv6Active" and v6: "ipv6 = (status = Available)"
    and ks: "kernel self (runs trs) = CreatedResources_default"
  obtains (failed) e created tr' rs where
      "install_firewall_rules host self policy CreatedResources_default tr = (Err e, created, tr')"
      "runs tr' = runs trs @ rs" "list_all (builds self \<circ> fst) rs" "kernel self (runs tr') = created"
  | (made) t where
      "install_firewall_rules host self policy CreatedResources_default tr =
         install_rules host self policy ipv6 (chain_made ipv6) t"
      "runs t = runs trs @ all_ok (create_commands self ipv6)" "kernel self (runs t) = chain_made ipv6"
proof -
  let ?N = "\<lambda>b. command_argv self b [''-N'', im_chain_name self]"
  note I = install_unfold [OF s ok v6, of policy]
  show thesis
  proof (rule command_cases [of host self "''iptables''" "[''-N'', im_chain_name self]" trs])
    fix e tr1 assume 1: "run_firewall_command host self ''iptables'' [''-N'', im_chain_name self] trs = (Err e, tr1)"
      "runs tr1 = runs trs @ [(?N ''iptables'', False)]"
    have "kernel self (runs tr1) = CreatedResources_default"
      using kernel_command [OF 1(2), of self] ks by (simp add: effect_failed)
    with 1 I show thesis by (intro failed [of e _ tr1 "[(?N ''iptables'', False)]"]) simp_all
  next
    fix x tr1 assume 1: "run_firewall_command host self ''iptables'' [''-N'', im_chain_name self] trs = (Ok x, tr1)"
      "runs tr1 = runs trs @ [(?N ''iptables'', True)]"
    let ?t1 = "publish_created (chain_made False) tr1"
    have k1: "kernel self (runs ?t1) = chain_made False"
      using kernel_command [OF 1(2), of self] ks by (simp add: effect_ok set_chain_def CreatedResources_default_def)
    show thesis
    proof (cases ipv6)
      case False
      with I 1 k1 show thesis by (intro made [of ?t1]) (simp_all add: create_commands_def)
    next
      case True
      show thesis
      proof (rule command_cases [of host self "''ip6tables''" "[''-N'', im_chain_name self]" ?t1])
        fix e tr2 assume 2: "run_firewall_command host self ''ip6tables'' [''-N'', im_chain_name self] ?t1 = (Err e, tr2)"
          "runs tr2 = runs ?t1 @ [(?N ''ip6tables'', False)]"
        have "kernel self (runs tr2) = chain_made False"
          using kernel_command [OF 2(2), of self] k1 by (simp add: effect_failed)
        with I 1 2 True show thesis
          by (intro failed [of e _ tr2 "[(?N ''iptables'', True), (?N ''ip6tables'', False)]"]) simp_all
      next
        fix y tr2 assume 2: "run_firewall_command host self ''ip6tables'' [''-N'', im_chain_name self] ?t1 = (Ok y, tr2)"
          "runs tr2 = runs ?t1 @ [(?N ''ip6tables'', True)]"
        have "kernel self (runs (publish_created (chain_made True) tr2)) = chain_made True"
          using kernel_command [OF 2(2), of self] k1 by (simp add: effect_ok set_chain_def)
        with I 1 2 True show thesis
          by (intro made [of "publish_created (chain_made True) tr2"]) (simp_all add: create_commands_def)
      qed
    qed
  qed
qed

lemma create_builds: "list_all (builds self \<circ> fst) (all_ok (create_commands self ipv6))"
  by (simp add: create_commands_def)

lemma install_cases:
  assumes k: "kernel self (runs tr) = CreatedResources_default"
  obtains (failed) e created tr' rs where
      "install_firewall_rules host self policy CreatedResources_default tr = (Err e, created, tr')"
      "runs tr' = runs tr @ rs" "list_all (builds self \<circ> fst) rs" "kernel self (runs tr') = created"
  | (hooking) ipv6 tr1 where
      "install_firewall_rules host self policy CreatedResources_default tr =
         install_hooks host self ipv6 (chain_made ipv6) tr1"
      "runs tr1 = runs tr @ (probe_argv self, ipv6) # all_ok (setup_commands self ipv6 policy)"
      "kernel self (runs tr1) = chain_made ipv6"
      "\<not> ipv6 \<longrightarrow> no_ipv6_seen host self tr"
proof -
  obtain status trs where s: "ip6tables_status host self
      (log_line (''Creating iptables/ip6tables chain: '' @ im_chain_name self) tr) = (status, trs)" by fastforce
  define ipv6 where "ipv6 = (status = Available)"
  have rs: "runs trs = runs tr @ [(probe_argv self, ipv6)]"
    and off: "status = KernelIpv6Disabled \<longrightarrow> no_ipv6_seen host self tr"
    using ip6tables_status_cases [OF s] by (simp_all add: ipv6_def no_ipv6_seen_def)
  have ks: "kernel self (runs trs) = CreatedResources_default"
    using kernel_command [OF rs, of self] k by (cases ipv6) (simp_all add: effect_failed effect_ok probe_argv_def)
  show thesis
  proof (cases "status = UnusableButIpv6Active")
    case True
    show thesis
      by (rule failed [OF _ _ _ ks, of _ "[(probe_argv self, ipv6)]"])
        (use s True rs in \<open>simp_all add: install_firewall_rules_def\<close>)
  next
    case ok: False
    show thesis
    proof (rule create_cases [OF s ok ipv6_def ks, of policy])
      fix e created tr' rs' assume "install_firewall_rules host self policy CreatedResources_default tr = (Err e, created, tr')"
        "runs tr' = runs trs @ rs'" "list_all (builds self \<circ> fst) rs'" "kernel self (runs tr') = created"
      with rs show thesis by (intro failed [of e created tr' "(probe_argv self, ipv6) # rs'"]) simp_all
    next
      fix t assume t: "install_firewall_rules host self policy CreatedResources_default tr =
          install_rules host self policy ipv6 (chain_made ipv6) t"
        "runs t = runs trs @ all_ok (create_commands self ipv6)" "kernel self (runs t) = chain_made ipv6"
      show thesis
      proof (rule install_rules_cases [OF t(3), of host policy ipv6])
        fix e tr' rs' assume "install_rules host self policy ipv6 (chain_made ipv6) t = (Err e, chain_made ipv6, tr')"
          "runs tr' = runs t @ rs'" "list_all (builds self \<circ> fst) rs'" "kernel self (runs tr') = chain_made ipv6"
        with rs t create_builds show thesis
          by (intro failed [of e _ tr' "(probe_argv self, ipv6) # all_ok (create_commands self ipv6) @ rs'"]) simp_all
      next
        fix tr1 assume 1: "install_rules host self policy ipv6 (chain_made ipv6) t =
            install_hooks host self ipv6 (chain_made ipv6) tr1"
          "runs tr1 = runs t @ all_ok (rule_commands self ipv6 policy (egress_entries policy))"
          "kernel self (runs tr1) = chain_made ipv6"
        have "\<not> ipv6 \<longrightarrow> no_ipv6_seen host self tr"
          using off ok by (cases status) (simp_all add: ipv6_def)
        with 1 rs t show thesis
          by (intro hooking [of ipv6 tr1]) (simp_all add: setup_commands_def create_commands_def)
      qed
    qed
  qed
qed

end
