(* ===== verification/Lxc_Manager.thy ===== *)
theory Lxc_Manager
  imports Lxc_Firewall
begin

text \<open>
  The life of an LXC firewall manager: every state reachable through its operations, on a host that
  may fail any command and whose container may go at any time. The results are that the ownership
  record always equals what the commands that took effect left in the namespace, that a chain is
  hooked only when it is complete, and what a successful installation has run.
\<close>

section \<open>The life of a manager\<close>

text \<open>The states a manager can be in, with the trace so far, through any sequence of its operations.\<close>

inductive manager_reach ::
    "fw_host \<Rightarrow> NetworkIptablesManager \<Rightarrow> NetworkIptablesManager \<Rightarrow> fw_trace \<Rightarrow> bool" for host start where
  reach_new: "manager_reach host start start []"
| reach_apply: "manager_reach host start m tr \<Longrightarrow> apply_firewall_rules host m policy tr = (r, m', tr') \<Longrightarrow>
    manager_reach host start m' tr'"
| reach_remove: "manager_reach host start m tr \<Longrightarrow> remove_firewall_rules host m tr = (r', m', tr') \<Longrightarrow>
    manager_reach host start m' tr'"
| reach_preserve: "manager_reach host start m tr \<Longrightarrow> manager_reach host start (set_preserve_policy b m) tr"
| reach_gone: "manager_reach host start m tr \<Longrightarrow>
    manager_reach host start (note_namespace_gone m) (tr @ [NamespaceGone])"

definition same_target :: "NetworkIptablesManager \<Rightarrow> NetworkIptablesManager \<Rightarrow> bool" where
  "same_target m m' \<longleftrightarrow> im_chain_name m' = im_chain_name m \<and> im_hook_point m' = im_hook_point m"

lemma same_target_argv: "same_target m m' \<Longrightarrow> command_argv m' = command_argv m"
  by (intro ext) (simp add: same_target_def command_argv_def)

lemma kernel_cong: "same_target m m' \<Longrightarrow> kernel m' = kernel m"
proof -
  assume s: "same_target m m'"
  then have c: "im_chain_name m' = im_chain_name m" by (simp add: same_target_def)
  then have "hook_args m' = hook_args m" by (simp add: hook_args_def)
  moreover have "is_hooked m' = is_hooked m" using s by (simp add: same_target_def is_hooked_def)
  ultimately have "effect m' = effect m" by (intro ext) (simp only: effect_def same_target_argv [OF s] c)
  then show ?thesis by (intro ext) (simp add: kernel_def)
qed

lemma empty_default: "CreatedResources_is_empty c \<longleftrightarrow> c = CreatedResources_default"
  by (cases c; cases "cr_v4 c"; cases "cr_v6 c")
    (auto simp: CreatedResources_is_empty_def FamilyResources_is_empty_def CreatedResources_default_def)

definition owns :: "NetworkIptablesManager \<Rightarrow> fw_trace \<Rightarrow> bool" where
  "owns m tr \<longleftrightarrow> kernel m (runs tr) = im_created m \<and>
     (im_rules_applied m \<longleftrightarrow> \<not> CreatedResources_is_empty (im_created m))"

lemma inner_kernel:
  assumes "kernel self (runs tr) = CreatedResources_default"
    and "apply_firewall_rules_inner host self policy tr = (outcome, tr')"
  shows "kernel self (runs tr') = (case outcome of Inr created \<Rightarrow> created | Inl (e, residual) \<Rightarrow> residual)"
proof -
  obtain r created tr1 where i: "install_firewall_rules host self policy CreatedResources_default tr = (r, created, tr1)"
    by (cases "install_firewall_rules host self policy CreatedResources_default tr")
  have k: "kernel self (runs tr1) = created"
  proof (rule install_cases [OF assms(1), of host policy])
    fix e c t rs assume "install_firewall_rules host self policy CreatedResources_default tr = (Err e, c, t)"
      "kernel self (runs t) = c"
    with i show ?thesis by simp
  next
    fix ipv6 t assume "install_firewall_rules host self policy CreatedResources_default tr =
        install_hooks host self ipv6 (chain_made ipv6) t" "kernel self (runs t) = chain_made ipv6"
    with i install_hooks_kernel [of self t "chain_made ipv6" host ipv6 r created tr1] show ?thesis by simp
  qed
  show ?thesis
  proof (cases r)
    case (Inl e)
    obtain residual tr2 where t: "teardown_created host self (im_chain_name self) created tr1 = (residual, tr2)" by fastforce
    show ?thesis using assms(2) i Inl t teardown_kernel [OF k t] by (auto simp: apply_firewall_rules_inner_def)
  next
    case (Inr u)
    then show ?thesis using assms(2) i k by (auto simp: apply_firewall_rules_inner_def)
  qed
qed

lemma install_Ok_created:
  assumes "kernel self (runs tr) = CreatedResources_default"
    and "install_firewall_rules host self policy CreatedResources_default tr = (Ok u, created, tr')"
  shows "fr_chain (cr_v4 created)"
proof (rule install_cases [OF assms(1), of host policy])
  fix ipv6 t assume "install_firewall_rules host self policy CreatedResources_default tr =
      install_hooks host self ipv6 (chain_made ipv6) t"
  with assms(2) show ?thesis by (auto simp: install_hooks_def Let_def split: prod.splits sum.splits if_splits)
qed (use assms(2) in simp)

lemma apply_owns:
  assumes "owns m tr" and "apply_firewall_rules host m policy tr = (r, m', tr')"
  shows "owns m' tr' \<and> same_target m m'"
proof (cases "installs_firewall (plan_network policy) \<and> \<not> im_rules_applied m")
  case True
  then have k: "kernel m (runs tr) = CreatedResources_default"
    using assms(1) empty_default by (simp add: owns_def)
  obtain outcome tr1 where i: "apply_firewall_rules_inner host m policy tr = (outcome, tr1)" by fastforce
  from inner_kernel [OF k i] have k1: "kernel m (runs tr1) =
      (case outcome of Inr created \<Rightarrow> created | Inl (e, residual) \<Rightarrow> residual)" .
  have rec: "record_apply_outcome m outcome tr1 = (r, m', tr')"
    using assms(2) True i by (simp add: apply_firewall_rules_def)
  show ?thesis
  proof (cases outcome)
    case (Inl er)
    then have "same_target m m'" "im_created m' = snd er" "im_rules_applied m' = (\<not> CreatedResources_is_empty (snd er))"
      "runs tr' = runs tr1"
      using rec by (auto simp: record_apply_outcome_def retain_residual_ownership_def same_target_def split: prod.splits if_splits)
    then show ?thesis using k1 Inl kernel_cong [of m m'] by (auto simp: owns_def split: prod.splits)
  next
    case (Inr created)
    then obtain u where "install_firewall_rules host m policy CreatedResources_default tr = (Ok u, created, tr1)"
      using i by (auto simp: apply_firewall_rules_inner_def split: prod.splits sum.splits)
    then have "fr_chain (cr_v4 created)" by (rule install_Ok_created [OF k])
    then have "\<not> CreatedResources_is_empty created"
      by (simp add: CreatedResources_is_empty_def FamilyResources_is_empty_def)
    moreover have "same_target m m'" "im_created m' = created" "im_rules_applied m'" "tr' = tr1"
      using rec Inr by (auto simp: record_apply_outcome_def same_target_def)
    ultimately show ?thesis using k1 Inr kernel_cong [of m m'] by (simp add: owns_def)
  qed
next
  case False
  then show ?thesis using assms by (auto simp: apply_firewall_rules_def owns_def same_target_def split: if_splits)
qed

lemma remove_owns:
  assumes "owns m tr" and "remove_firewall_rules host m tr = (r, m', tr')"
  shows "owns m' tr' \<and> same_target m m'"
proof (cases "im_rules_applied m")
  case True
  let ?tr0 = "log_line (''Removing iptables/ip6tables chain: '' @ im_chain_name m) tr"
  obtain residual tr1 where t: "teardown_created host m (im_chain_name m) (im_created m) ?tr0 = (residual, tr1)" by fastforce
  have "kernel m (runs tr1) = residual"
    by (rule teardown_kernel [OF _ t]) (use assms(1) in \<open>simp add: owns_def\<close>)
  moreover have m': "same_target m m'" "im_created m' = residual"
      "im_rules_applied m' = (\<not> CreatedResources_is_empty residual)" "tr' = tr1"
    using assms(2) True t by (auto simp: remove_firewall_rules_def retain_residual_ownership_def same_target_def)
  ultimately show ?thesis using kernel_cong [OF m'(1)] by (simp add: owns_def)
next
  case False
  then show ?thesis using assms by (auto simp: remove_firewall_rules_def same_target_def)
qed

lemma reach_owns:
  assumes "manager_reach host start m tr" and "im_created start = CreatedResources_default"
    and "\<not> im_rules_applied start"
  shows "owns m tr \<and> same_target start m"
  using assms
proof (induction rule: manager_reach.induct)
  case reach_new
  then show ?case by (simp add: owns_def same_target_def kernel_def empty_default)
next
  case (reach_apply m tr policy r m' tr')
  then show ?case using apply_owns [of m tr host policy r m' tr'] by (auto simp: same_target_def)
next
  case (reach_remove m tr r' m' tr')
  then show ?case using remove_owns [of m tr host r' m' tr'] by (auto simp: same_target_def)
next
  case (reach_preserve m tr b)
  then have "same_target m (set_preserve_policy b m)" by (simp add: same_target_def set_preserve_policy_def)
  with reach_preserve kernel_cong [OF this] show ?case
    by (auto simp: owns_def same_target_def set_preserve_policy_def)
next
  case (reach_gone m tr)
  then have "same_target m (note_namespace_gone m)" by (simp add: same_target_def note_namespace_gone_def forget_def)
  with reach_gone kernel_cong [OF this] show ?case
    by (auto simp: owns_def same_target_def note_namespace_gone_def forget_def kernel_append effect_gone empty_default)
qed

section \<open>Hooks come last\<close>

definition removes :: "NetworkIptablesManager \<Rightarrow> string list \<Rightarrow> bool" where
  "removes self a \<longleftrightarrow> (\<exists>b x xs. a = command_argv self b (x # xs) \<and> x \<in> {''-D'', ''-F'', ''-X''})"

lemma removes_intros [simp]:
  "removes self (command_argv self b (unhook_args c))" "removes self (command_argv self b [''-F'', c])"
  "removes self (command_argv self b [''-X'', c])"
  by (auto simp: removes_def unhook_args_def)

lemma not_hook:
  "builds self a \<Longrightarrow> a \<noteq> command_argv self b (hook_args self)"
  "removes self a \<Longrightarrow> a \<noteq> command_argv self b (hook_args self)"
  by (auto simp: builds_def removes_def hook_args_def)

text \<open>\<open>extends P tr tr'\<close>: the commands of \<open>tr'\<close> are those of \<open>tr\<close> and then only commands satisfying \<open>P\<close>.\<close>

definition extends :: "(string list \<Rightarrow> bool) \<Rightarrow> fw_trace \<Rightarrow> fw_trace \<Rightarrow> bool" where
  "extends P tr tr' \<longleftrightarrow> (\<exists>rs. runs tr' = runs tr @ rs \<and> list_all (P \<circ> fst) rs)"

lemma extends_refl: "runs tr' = runs tr \<Longrightarrow> extends P tr tr'"
  by (auto simp: extends_def)

lemma extends_trans: "extends P tr tr1 \<Longrightarrow> extends P tr1 tr2 \<Longrightarrow> extends P tr tr2"
  unfolding extends_def by (metis append.assoc list_all_append)

lemma extends_command:
  "P (command_argv self b args) \<Longrightarrow> extends P tr (snd (run_firewall_command host self b args tr))"
  by (simp add: extends_def runs_command)

lemma teardown_chain_extends:
  "extends (removes self) tr (snd (teardown_chain made hooks
     (\<lambda>tr. snd (run_firewall_command host self b [''-F'', c] tr))
     (\<lambda>tr. let (r, tr) = run_firewall_command host self b [''-X'', c] tr in (is_ok r, tr)) tr))"
proof -
  let ?trf = "snd (run_firewall_command host self b [''-F'', c] tr)"
  have "extends (removes self) tr (snd (run_firewall_command host self b [''-X'', c] ?trf))"
    by (rule extends_trans [OF extends_command extends_command]) simp_all
  then show ?thesis by (auto simp: teardown_chain_def extends_refl Let_def split: prod.splits)
qed

lemma unhook_extends:
  "extends (removes self) tr (snd (if hook then (let (r, tr) = run_firewall_command host self b (unhook_args c) tr
     in (is_ok r, tr)) else (False, tr)))"
  using extends_command [of "removes self" self b "unhook_args c" tr host]
  by (auto simp: extends_refl split: prod.splits)

lemma teardown_extends:
  assumes "teardown_created host self c created tr = (residual, tr')"
  shows "extends (removes self) tr tr'"
proof -
  let ?unhook = "\<lambda>b hook tr. if hook then (let (r, tr) = run_firewall_command host self b (unhook_args c) tr
        in (is_ok r, tr)) else (False, tr)"
  let ?chain = "\<lambda>b made hooks. teardown_chain made hooks
        (\<lambda>tr. snd (run_firewall_command host self b [''-F'', c] tr))
        (\<lambda>tr. let (r, tr) = run_firewall_command host self b [''-X'', c] tr in (is_ok r, tr))"
  obtain u4 tr1 where 1: "?unhook ''iptables'' (fr_hook (cr_v4 created)) tr = (u4, tr1)" by fastforce
  obtain u6 tr2 where 2: "?unhook ''ip6tables'' (fr_hook (cr_v6 created)) tr1 = (u6, tr2)" by fastforce
  let ?h4 = "fr_hook (cr_v4 created) \<and> \<not> u4" and ?h6 = "fr_hook (cr_v6 created) \<and> \<not> u6"
  obtain c4 tr3 where 3: "?chain ''iptables'' (fr_chain (cr_v4 created)) ?h4 tr2 = (c4, tr3)" by fastforce
  obtain c6 tr4 where 4: "?chain ''ip6tables'' (fr_chain (cr_v6 created)) ?h6 tr3 = (c6, tr4)" by fastforce
  let ?residual = "\<lparr>cr_v4 = \<lparr>fr_chain = c4, fr_hook = ?h4\<rparr>, cr_v6 = \<lparr>fr_chain = c6, fr_hook = ?h6\<rparr>\<rparr>"
  have "teardown_created host self c created tr = (?residual, publish_created ?residual tr4)"
    by (simp only: teardown_created_def run_defs Let_def prod.case
        1 [unfolded Let_def] 2 [unfolded Let_def] 3 [unfolded Let_def] 4 [unfolded Let_def])
  then have tr': "tr' = publish_created ?residual tr4" using assms by simp
  have "extends (removes self) tr tr1"
    using unhook_extends [of self tr "fr_hook (cr_v4 created)" host "''iptables''" c] by (simp only: 1 snd_conv)
  moreover have "extends (removes self) tr1 tr2"
    using unhook_extends [of self tr1 "fr_hook (cr_v6 created)" host "''ip6tables''" c] by (simp only: 2 snd_conv)
  moreover have "extends (removes self) tr2 tr3"
    using teardown_chain_extends [of self tr2 "fr_chain (cr_v4 created)" ?h4 host "''iptables''" c] by (simp only: 3 snd_conv)
  moreover have "extends (removes self) tr3 tr4"
    using teardown_chain_extends [of self tr3 "fr_chain (cr_v6 created)" ?h6 host "''ip6tables''" c] by (simp only: 4 snd_conv)
  moreover have "extends (removes self) tr4 tr'" by (simp add: tr' extends_refl)
  ultimately show ?thesis by (blast intro: extends_trans)
qed

section \<open>What an application runs\<close>

definition hook_commands :: "NetworkIptablesManager \<Rightarrow> bool \<Rightarrow> string list list" where
  "hook_commands self ipv6 =
     (if is_hooked self
      then [command_argv self ''iptables'' (hook_args self)] @
        (if ipv6 then [command_argv self ''ip6tables'' (hook_args self)] else [])
      else [])"

lemma install_hooks_Ok:
  assumes "install_hooks host self ipv6 created tr = (Ok u, created', tr')"
  shows "runs tr' = runs tr @ all_ok (hook_commands self ipv6)"
proof -
  let ?c4 = "created\<lparr>cr_v4 := (cr_v4 created)\<lparr>fr_hook := True\<rparr>\<rparr>"
  let ?c6 = "?c4\<lparr>cr_v6 := (cr_v6 ?c4)\<lparr>fr_hook := True\<rparr>\<rparr>"
  show ?thesis
  proof (cases "is_hooked self")
    case True
    obtain r tr1 where 1: "run_firewall_command host self ''iptables'' (hook_args self) (publish_created ?c4 tr) = (r, tr1)"
      by fastforce
    obtain x where x: "r = Ok x"
      using assms 1 True by (cases r) (auto simp: install_hooks_def run_defs Let_def split: prod.splits)
    have r1: "runs tr1 = runs tr @ [(command_argv self ''iptables'' (hook_args self), True)]"
      using runs_command [of host self "''iptables''" "hook_args self" "publish_created ?c4 tr"] 1 x by simp
    let ?tr1 = "publish_created ?c6 (log_line
      (''OUTPUT hook installed in the container namespace for chain '' @ im_chain_name self @ '' (iptables).'') tr1)"
    obtain r' tr2 where 2: "run_firewall_command host self ''ip6tables'' (hook_args self) ?tr1 = (r', tr2)" by fastforce
    have r2: "runs tr2 = runs tr1 @ [(command_argv self ''ip6tables'' (hook_args self), is_ok r')]"
      using runs_command [of host self "''ip6tables''" "hook_args self" ?tr1] 2 by simp
    show ?thesis
      using assms 1 x True 2 r1 r2
      by (cases r'; cases ipv6) (auto simp: install_hooks_def run_defs Let_def hook_commands_def split: prod.splits)
  next
    case False
    then show ?thesis using assms by (auto simp: install_hooks_def hook_commands_def)
  qed
qed

lemma on_ok_error:
  assumes "\<And>x tr. p = (Ok x, tr) \<Longrightarrow> \<not> is_ok (fst (g x tr))"
  shows "\<not> is_ok (fst (on_ok p c g))"
  using assms by (cases p; cases "fst p") auto

lemma install_rules_lower:
  assumes "is_ok (fst (install_rules host self policy ipv6 created tr))"
  shows "lower_egress policy = Ok (egress_entries policy)"
proof (cases "lower_egress policy")
  case (Inl e)
  have "\<not> is_ok (fst (install_rules host self policy ipv6 created tr))"
    unfolding install_rules_def Let_def
    by (intro on_ok_error) (simp add: build_policy_rules_logged_def Inl)
  with assms show ?thesis by simp
qed (simp add: egress_entries_def)

lemma install_hooks_extends:
  assumes "install_hooks host self ipv6 created tr = (r, created', tr')"
  shows "\<exists>rs. runs tr' = runs tr @ rs"
proof -
  let ?c4 = "created\<lparr>cr_v4 := (cr_v4 created)\<lparr>fr_hook := True\<rparr>\<rparr>"
  let ?c6 = "?c4\<lparr>cr_v6 := (cr_v6 ?c4)\<lparr>fr_hook := True\<rparr>\<rparr>"
  let ?log = "log_line (''OUTPUT hook installed in the container namespace for chain '' @ im_chain_name self @ '' (iptables).'')"
  let ?run = "run_firewall_command host self" and ?un = "unhook_args (im_chain_name self)"
  obtain r1 t1 where 1: "?run ''iptables'' (hook_args self) (publish_created ?c4 tr) = (r1, t1)" by fastforce
  obtain r2 t2 where 2: "?run ''iptables'' ?un t1 = (r2, t2)" by fastforce
  obtain r3 t3 where 3: "?run ''ip6tables'' (hook_args self) (publish_created ?c6 (?log t1)) = (r3, t3)" by fastforce
  obtain r4 t4 where 4: "?run ''ip6tables'' ?un t3 = (r4, t4)" by fastforce
  have "\<exists>rs. runs t1 = runs tr @ rs" "\<exists>rs. runs t2 = runs t1 @ rs" "\<exists>rs. runs t3 = runs t1 @ rs" "\<exists>rs. runs t4 = runs t3 @ rs"
    using runs_command [of host self "''iptables''" "hook_args self" "publish_created ?c4 tr"]
      runs_command [of host self "''iptables''" ?un t1]
      runs_command [of host self "''ip6tables''" "hook_args self" "publish_created ?c6 (?log t1)"]
      runs_command [of host self "''ip6tables''" ?un t3] 1 2 3 4 by simp_all
  then have "\<exists>rs. runs t = runs tr @ rs" if "t \<in> {tr, t1, t2, t3, t4}" for t using that by auto
  moreover have "runs tr' \<in> {runs tr, runs t1, runs t2, runs t3, runs t4}"
    using assms 1 2 3 4 by (cases "is_hooked self"; cases r1; cases r3; cases ipv6)
      (auto simp: install_hooks_def run_defs Let_def)
  ultimately show ?thesis by auto
qed

lemma install_lower:
  assumes "is_ok (fst (install_firewall_rules host self policy c tr))"
  shows "lower_egress policy = Ok (egress_entries policy)"
proof (rule ccontr)
  assume "lower_egress policy \<noteq> Ok (egress_entries policy)"
  then have n: "\<not> is_ok (fst (install_rules host self policy v c' t))" for v c' t
    using install_rules_lower by blast
  obtain status trs where "ip6tables_status host self
      (log_line (''Creating iptables/ip6tables chain: '' @ im_chain_name self) tr) = (status, trs)" by fastforce
  then have "\<not> is_ok (fst (install_firewall_rules host self policy c tr))"
    unfolding install_firewall_rules_def Let_def
    by (simp only: prod.case, cases "status = UnusableButIpv6Active"; cases "status = Available")
      (simp_all add: n on_ok_error)
  with assms show False by simp
qed

text \<open>An application either ran building and removing commands only, or completed the set-up first.\<close>

lemma apply_runs:
  assumes own: "owns m tr" and run: "apply_firewall_rules host m policy tr = (r, m', tr')"
  shows "extends (\<lambda>a. builds m a \<or> removes m a) tr tr' \<or>
    (\<exists>ipv6 rest. runs tr' = runs tr @ (probe_argv m, ipv6) # all_ok (setup_commands m ipv6 policy) @ rest)"
proof (cases "installs_firewall (plan_network policy) \<and> \<not> im_rules_applied m")
  case True
  let ?P = "\<lambda>a. builds m a \<or> removes m a"
  have k: "kernel m (runs tr) = CreatedResources_default" using own True empty_default by (simp add: owns_def)
  obtain res created tr1 where i: "install_firewall_rules host m policy CreatedResources_default tr = (res, created, tr1)"
    by (cases "install_firewall_rules host m policy CreatedResources_default tr")
  obtain residual tr2 where t: "teardown_created host m (im_chain_name m) created tr1 = (residual, tr2)" by fastforce
  have tr': "runs tr' = (if is_ok res then runs tr1 else runs tr2)"
    using run True i t by (cases res) (auto simp: apply_firewall_rules_def apply_firewall_rules_inner_def
        record_apply_outcome_def retain_residual_ownership_def)
  have "extends (removes m) tr1 tr'" using teardown_extends [OF t] tr' by (auto simp: extends_def)
  then obtain rs2 where rs2: "runs tr' = runs tr1 @ rs2" "list_all (?P \<circ> fst) rs2"
    by (auto simp: extends_def list_all_iff)
  show ?thesis
  proof (rule install_cases [OF k, of host policy])
    fix e c t' rs assume "install_firewall_rules host m policy CreatedResources_default tr = (Err e, c, t')"
      "runs t' = runs tr @ rs" "list_all (builds m \<circ> fst) rs"
    with i rs2 have "runs tr' = runs tr @ (rs @ rs2)" "list_all (?P \<circ> fst) (rs @ rs2)"
      by (auto simp: list_all_iff)
    then show ?thesis unfolding extends_def by blast
  next
    fix ipv6 t' assume h: "install_firewall_rules host m policy CreatedResources_default tr =
        install_hooks host m ipv6 (chain_made ipv6) t'"
      "runs t' = runs tr @ (probe_argv m, ipv6) # all_ok (setup_commands m ipv6 policy)"
    obtain rs1 where "runs tr1 = runs t' @ rs1" using i h(1) install_hooks_extends by metis
    then show ?thesis using h(2) rs2(1) by auto
  qed
next
  case False
  then show ?thesis
    using run by (auto simp: apply_firewall_rules_def intro: extends_refl split: if_splits)
qed

lemma apply_Ok:
  assumes "owns m tr" and "plan_network policy = Filtered"
    and "apply_firewall_rules host m policy tr = (Ok v, m', tr')"
  obtains ipv6 where "runs tr' = runs tr @ (probe_argv m, ipv6) #
      all_ok (setup_commands m ipv6 policy @ hook_commands m ipv6)"
    and "lower_egress policy = Ok (egress_entries policy)" and "im_rules_applied m'"
    and "fr_chain (cr_v4 (im_created m'))"
    and "\<not> ipv6 \<longrightarrow> no_ipv6_seen host m tr"
proof -
  have na: "\<not> im_rules_applied m" using assms(2,3) by (auto simp: apply_firewall_rules_def)
  then have k: "kernel m (runs tr) = CreatedResources_default"
    using assms(1) empty_default by (simp add: owns_def)
  obtain u created where i: "install_firewall_rules host m policy CreatedResources_default tr = (Ok u, created, tr')"
    and m': "im_rules_applied m'" "im_created m' = created"
    using assms(2,3) na by (auto simp: apply_firewall_rules_def apply_firewall_rules_inner_def
        record_apply_outcome_def retain_residual_ownership_def split: sum.splits prod.splits)
  have low: "lower_egress policy = Ok (egress_entries policy)"
    using install_lower [of host m policy CreatedResources_default tr] i by simp
  have made: "fr_chain (cr_v4 created)" by (rule install_Ok_created [OF k i])
  show thesis
  proof (rule install_cases [OF k, of host policy])
    fix ipv6 t assume h: "install_firewall_rules host m policy CreatedResources_default tr =
        install_hooks host m ipv6 (chain_made ipv6) t"
      "runs t = runs tr @ (probe_argv m, ipv6) # all_ok (setup_commands m ipv6 policy)"
      "\<not> ipv6 \<longrightarrow> no_ipv6_seen host m tr"
    have "runs tr' = runs t @ all_ok (hook_commands m ipv6)"
      using install_hooks_Ok [of host m ipv6 "chain_made ipv6" t u created tr'] i h(1) by simp
    then show thesis using that [of ipv6] h low m' made by simp
  qed (use i in simp)
qed

section \<open>Failures that took effect\<close>

text \<open>
  \<open>iptables\<close> can apply a rule and still report failure. \<open>took_effect self rs taken\<close>: \<open>taken\<close> says of each
  command of \<open>rs\<close> whether it took effect. What reported success did. What reported failure may have,
  except that the creation or deletion of a chain and the removal of a hook are as reported, and that
  the command right after a hook insertion that took effect in spite of its report succeeds.
\<close>

definition as_reported :: "NetworkIptablesManager \<Rightarrow> string list \<Rightarrow> bool" where
  "as_reported self a \<longleftrightarrow> a = [] \<or> (\<exists>b \<in> {''iptables'', ''ip6tables''}. a \<in> {command_argv self b [''-N'', im_chain_name self],
     command_argv self b [''-X'', im_chain_name self], command_argv self b (unhook_args (im_chain_name self))})"

definition is_hook :: "NetworkIptablesManager \<Rightarrow> string list \<Rightarrow> bool" where
  "is_hook self a \<longleftrightarrow> (\<exists>b \<in> {''iptables'', ''ip6tables''}. a = command_argv self b (hook_args self))"

fun took_effect ::
    "NetworkIptablesManager \<Rightarrow> (string list \<times> bool) list \<Rightarrow> (string list \<times> bool) list \<Rightarrow> bool" where
  "took_effect self [] taken \<longleftrightarrow> taken = []"
| "took_effect self ((a, ok) # rs) taken \<longleftrightarrow>
     (case taken of
        [] \<Rightarrow> False
      | (a', took) # taken \<Rightarrow>
          a' = a \<and> (ok \<longrightarrow> took) \<and>
          (took \<and> \<not> ok \<longrightarrow> \<not> as_reported self a \<and>
             (is_hook self a \<longrightarrow> (case rs of [] \<Rightarrow> True | r # _ \<Rightarrow> snd r))) \<and>
          took_effect self rs taken)"

lemma took_as_reported: "took_effect self rs rs"
  by (induction rs) auto

text \<open>A hook insertion that reported failure is followed at once by its removal.\<close>

fun retracted :: "NetworkIptablesManager \<Rightarrow> (string list \<times> bool) list \<Rightarrow> bool" where
  "retracted self [] \<longleftrightarrow> True"
| "retracted self ((a, ok) # rs) \<longleftrightarrow>
     (\<forall>b. \<not> ok \<and> a = command_argv self b (hook_args self) \<longrightarrow>
        (\<exists>ok' rest. rs = (command_argv self b (unhook_args (im_chain_name self)), ok') # rest)) \<and>
     retracted self rs"

lemma retracted_append: "retracted self rs \<Longrightarrow> retracted self rs' \<Longrightarrow> retracted self (rs @ rs')"
  by (induction self rs rule: retracted.induct) auto

lemma retracted_no_hook:
  "list_all ((\<lambda>a. builds self a \<or> removes self a) \<circ> fst) rs \<Longrightarrow> retracted self rs"
proof (induction self rs rule: retracted.induct)
  case (2 self a ok rs)
  then have "a \<noteq> command_argv self b (hook_args self)" for b using not_hook [of self a b] by auto
  with 2 show ?case by simp
qed simp

lemma retracted_cong: "same_target m m' \<Longrightarrow> retracted m' rs = retracted m rs"
proof -
  assume s: "same_target m m'"
  then have c: "im_chain_name m' = im_chain_name m" "hook_args m' = hook_args m"
    by (simp_all add: same_target_def hook_args_def)
  show ?thesis by (induction rs) (auto simp: same_target_argv [OF s] c)
qed

lemma took_effect_cong: "same_target m m' \<Longrightarrow> took_effect m' rs taken = took_effect m rs taken"
proof -
  assume s: "same_target m m'"
  then have c: "im_chain_name m' = im_chain_name m" "hook_args m' = hook_args m"
    by (simp_all add: same_target_def hook_args_def)
  have r: "as_reported m' = as_reported m" "is_hook m' = is_hook m"
    by (intro ext; simp only: as_reported_def is_hook_def same_target_argv [OF s] c)+
  show ?thesis
  proof (induction rs arbitrary: taken)
    case (Cons x rs)
    show ?case
      by (cases x; cases taken) (simp_all only: took_effect.simps list.case r same_target_argv [OF s] c Cons)
  qed simp
qed

lemma effect_retracted:
  "effect self (effect self k (command_argv self b (hook_args self), True))
     (command_argv self b (unhook_args (im_chain_name self)), True) =
   effect self k (command_argv self b (unhook_args (im_chain_name self)), True)"
  by (auto simp: effect_def Let_def hook_args_def unhook_args_def set_hook_def)

lemma effect_unreported:
  "\<not> as_reported self a \<Longrightarrow> \<not> is_hook self a \<Longrightarrow> effect self k (a, True) = k"
  by (auto simp: effect_def Let_def as_reported_def is_hook_def)

lemma took_effect_kernel:
  "retracted self rs \<Longrightarrow> took_effect self rs taken \<Longrightarrow> foldl (effect self) k taken = foldl (effect self) k rs"
proof (induction rs arbitrary: k taken)
  case (Cons r rs)
  obtain a ok where r: "r = (a, ok)" by (cases r)
  from Cons.prems(2) obtain took taken' where t: "taken = (a, took) # taken'" "ok \<longrightarrow> took" "took_effect self rs taken'"
    and amb: "took \<and> \<not> ok \<longrightarrow> \<not> as_reported self a \<and>
      (is_hook self a \<longrightarrow> (case rs of [] \<Rightarrow> True | r # _ \<Rightarrow> snd r))"
    unfolding r by (auto split: list.splits prod.splits)
  have IH: "foldl (effect self) k taken' = foldl (effect self) k rs" for k
    using Cons.IH [OF _ t(3)] Cons.prems(1) by (simp add: r)
  show ?case
  proof (cases "took = ok")
    case True
    then show ?thesis using IH by (simp add: r t(1))
  next
    case False
    then have f: "took" "\<not> ok" using t(2) by auto
    show ?thesis
    proof (cases "is_hook self a")
      case True
      then obtain b where a: "a = command_argv self b (hook_args self)" unfolding is_hook_def by blast
      then obtain rest where rs: "rs = (command_argv self b (unhook_args (im_chain_name self)), True) # rest"
        using Cons.prems(1) amb f True by (auto simp: r)
      then obtain rest' where "taken' = (command_argv self b (unhook_args (im_chain_name self)), True) # rest'"
        using t(3) by (auto split: list.splits)
      then show ?thesis using IH [of k] rs f by (simp add: r t(1) a effect_retracted effect_failed)
    next
      case no: False
      then show ?thesis using IH f amb effect_unreported [of self a] by (auto simp: r t(1) effect_failed)
    qed
  qed
qed simp

lemma install_hooks_retracted:
  assumes "install_hooks host self ipv6 created tr = (r, created', tr')"
  shows "\<exists>rs. runs tr' = runs tr @ rs \<and> retracted self rs"
proof -
  let ?c4 = "created\<lparr>cr_v4 := (cr_v4 created)\<lparr>fr_hook := True\<rparr>\<rparr>"
  let ?c6 = "?c4\<lparr>cr_v6 := (cr_v6 ?c4)\<lparr>fr_hook := True\<rparr>\<rparr>"
  let ?log = "log_line (''OUTPUT hook installed in the container namespace for chain '' @ im_chain_name self @ '' (iptables).'')"
  let ?run = "run_firewall_command host self" and ?un = "unhook_args (im_chain_name self)"
  obtain r1 t1 where 1: "?run ''iptables'' (hook_args self) (publish_created ?c4 tr) = (r1, t1)" by fastforce
  obtain r2 t2 where 2: "?run ''iptables'' ?un t1 = (r2, t2)" by fastforce
  obtain r3 t3 where 3: "?run ''ip6tables'' (hook_args self) (publish_created ?c6 (?log t1)) = (r3, t3)" by fastforce
  obtain r4 t4 where 4: "?run ''ip6tables'' ?un t3 = (r4, t4)" by fastforce
  have un: "command_argv self b ?un \<noteq> command_argv self b' (hook_args self)" for b b'
    by (simp add: unhook_args_def hook_args_def)
  show ?thesis
    using assms 1 2 3 4 runs_command [of host self "''iptables''" "hook_args self" "publish_created ?c4 tr"]
      runs_command [of host self "''iptables''" ?un t1]
      runs_command [of host self "''ip6tables''" "hook_args self" "publish_created ?c6 (?log t1)"]
      runs_command [of host self "''ip6tables''" ?un t3] un
    by (cases "is_hooked self"; cases r1; cases r3; cases ipv6)
      (auto simp: install_hooks_def run_defs Let_def)
qed

lemma setup_builds: "c \<in> set (setup_commands m ipv6 policy) \<Longrightarrow> builds m c"
proof -
  assume "c \<in> set (setup_commands m ipv6 policy)"
  then consider "c \<in> set (create_commands m ipv6)" | "c \<in> set (rule_commands m ipv6 policy (egress_entries policy))"
    by (auto simp: setup_commands_def create_commands_def)
  then show ?thesis
  proof cases
    case 1
    then show ?thesis by (auto simp: create_commands_def split: if_splits)
  next
    case 2
    then have "is_add m c" using rule_commands_add unfolding list_all_iff by blast
    then show ?thesis by (auto simp: is_add_def builds_def)
  qed
qed

lemma apply_retracted:
  assumes own: "owns m tr" and run: "apply_firewall_rules host m policy tr = (r, m', tr')"
  shows "\<exists>rs. runs tr' = runs tr @ rs \<and> retracted m rs"
proof (cases "installs_firewall (plan_network policy) \<and> \<not> im_rules_applied m")
  case True
  let ?P = "\<lambda>a. builds m a \<or> removes m a"
  have k: "kernel m (runs tr) = CreatedResources_default" using own True empty_default by (simp add: owns_def)
  obtain res created tr1 where i: "install_firewall_rules host m policy CreatedResources_default tr = (res, created, tr1)"
    by (cases "install_firewall_rules host m policy CreatedResources_default tr")
  obtain residual tr2 where t: "teardown_created host m (im_chain_name m) created tr1 = (residual, tr2)" by fastforce
  have tr': "runs tr' = (if is_ok res then runs tr1 else runs tr2)"
    using run True i t by (cases res) (auto simp: apply_firewall_rules_def apply_firewall_rules_inner_def
        record_apply_outcome_def retain_residual_ownership_def)
  have "extends (removes m) tr1 tr'" using teardown_extends [OF t] tr' by (auto simp: extends_def)
  then obtain rs2 where rs2: "runs tr' = runs tr1 @ rs2" "list_all (?P \<circ> fst) rs2"
    by (auto simp: extends_def list_all_iff)
  have "\<exists>rs. runs tr1 = runs tr @ rs \<and> retracted m rs"
  proof (rule install_cases [OF k, of host policy])
    fix e c t' rs assume "install_firewall_rules host m policy CreatedResources_default tr = (Err e, c, t')"
      "runs t' = runs tr @ rs" "list_all (builds m \<circ> fst) rs"
    with i show ?thesis by (auto simp: list_all_iff intro!: retracted_no_hook)
  next
    fix ipv6 t' assume h: "install_firewall_rules host m policy CreatedResources_default tr =
        install_hooks host m ipv6 (chain_made ipv6) t'"
      "runs t' = runs tr @ (probe_argv m, ipv6) # all_ok (setup_commands m ipv6 policy)"
    have "retracted m ((probe_argv m, ipv6) # all_ok (setup_commands m ipv6 policy))"
      by (rule retracted_no_hook) (auto simp: list_all_iff all_ok_def setup_builds)
    with h i install_hooks_retracted [of host m ipv6 "chain_made ipv6" t' res created tr1] retracted_append
    show ?thesis by fastforce
  qed
  with rs2 retracted_no_hook [OF rs2(2)] retracted_append show ?thesis by fastforce
next
  case False
  then have "runs tr' = runs tr @ []"
    using run by (auto simp: apply_firewall_rules_def split: if_splits)
  then show ?thesis by (intro exI [of _ "[]"]) simp
qed

lemma remove_retracted:
  assumes "remove_firewall_rules host m tr = (r, m', tr')"
  shows "\<exists>rs. runs tr' = runs tr @ rs \<and> retracted m rs"
proof (cases "im_rules_applied m")
  case True
  let ?tr0 = "log_line (''Removing iptables/ip6tables chain: '' @ im_chain_name m) tr"
  obtain residual tr1 where t: "teardown_created host m (im_chain_name m) (im_created m) ?tr0 = (residual, tr1)" by fastforce
  have "tr' = tr1" using assms True t by (auto simp: remove_firewall_rules_def retain_residual_ownership_def)
  with teardown_extends [OF t] obtain rs where "runs tr' = runs tr @ rs" "list_all (removes m \<circ> fst) rs"
    by (auto simp: extends_def)
  then show ?thesis by (auto simp: list_all_iff intro!: retracted_no_hook)
next
  case False
  then have "runs tr' = runs tr @ []" using assms by (auto simp: remove_firewall_rules_def)
  then show ?thesis by (intro exI [of _ "[]"]) simp
qed

lemma reach_retracted:
  assumes "manager_reach host start m tr" and "im_created start = CreatedResources_default"
    and "\<not> im_rules_applied start"
  shows "retracted start (runs tr)"
  using assms
proof (induction rule: manager_reach.induct)
  case (reach_apply m tr policy r m' tr')
  then have "owns m tr" "same_target start m" using reach_owns by blast+
  with apply_retracted [OF _ reach_apply(2)] reach_apply retracted_cong retracted_append show ?case by metis
next
  case (reach_remove m tr r' m' tr')
  then have "same_target start m" using reach_owns by blast
  with remove_retracted [OF reach_remove(2)] reach_remove retracted_cong retracted_append show ?case by metis
next
  case (reach_gone m tr)
  then show ?case by (auto intro: retracted_append)
qed simp_all

section \<open>Properties\<close>

lemma manager_new_fields [simp]:
  "im_created (NetworkIptablesManager_new sha n hp) = CreatedResources_default"
  "\<not> im_rules_applied (NetworkIptablesManager_new sha n hp)"
  by (simp_all add: NetworkIptablesManager_new_def)

text \<open>A host on which every command succeeds, and a policy that needs a firewall.\<close>

definition willing_host :: fw_host where
  "willing_host = \<lparr>fh_exec = \<lambda>_ _. Exited True [], fh_read = \<lambda>_ _. Ok [], fh_is_dir = \<lambda>_ _. True\<rparr>"

definition open_policy :: ContainerPolicy where
  "open_policy = ContainerPolicy_default
     \<lparr>network_egress := Some \<lparr>eg_default = Allow, eg_allow = [], eg_deny = []\<rparr>\<rparr>"

definition example_manager :: NetworkIptablesManager where
  "example_manager = NetworkIptablesManager_new (\<lambda>_. []) ''box'' (ContainerNetns 7)"

lemma open_policy_plan: "plan_network open_policy = Filtered"
  by (simp add: plan_network_def open_policy_def)

lemma example_owns: "owns example_manager []"
  by (simp add: owns_def kernel_def example_manager_def empty_default)

text \<open>A host on which every command of the manager succeeds except, possibly, the hook insertions.\<close>

definition obliging :: "fw_host \<Rightarrow> NetworkIptablesManager \<Rightarrow> bool" where
  "obliging host self \<longleftrightarrow>
     (\<forall>b args tr. hd args \<noteq> ''-I'' \<longrightarrow> fh_exec host tr (command_argv self b args) = Exited True [])"

lemma obliging_run:
  "obliging host self \<Longrightarrow> hd args \<noteq> ''-I'' \<Longrightarrow>
   run_firewall_command host self b args tr = (Ok True, tr @ [Ran (command_argv self b args) (Exited True [])])"
  by (simp add: run_firewall_command_def obliging_def)

lemma obliging_rules:
  "obliging host self \<Longrightarrow> list_all (\<lambda>r. r \<noteq> [] \<and> hd r = ''-A'') rules \<Longrightarrow>
   \<exists>tr'. run_rules host self b rules tr = (Ok (), tr')"
  by (induction rules arbitrary: tr) (simp_all add: obliging_run)

lemma open_policy_lower: "lower_egress open_policy = Ok []"
  by (simp add: lower_egress_def open_policy_def lower_directional_egress_def)

lemma obliging_install_rules:
  assumes "obliging host self"
  shows "\<exists>t. install_rules host self open_policy True c tr = install_hooks host self True c t"
proof -
  let ?base = "build_base_chain_rule_args (im_chain_name self)"
  note rules = obliging_rules [OF assms] and base = base_rules_add [of "im_chain_name self"]
  obtain t1 where 1: "run_rules host self ''iptables'' ?base tr = (Ok (), t1)" using rules [OF base] by blast
  obtain t2 where 2: "run_rules host self ''ip6tables'' ?base t1 = (Ok (), t2)" using rules [OF base] by blast
  obtain args t3 where 3: "build_policy_rules_logged (im_chain_name self) open_policy t2 = (Ok args, t3)"
    by (auto simp: build_policy_rules_logged_def open_policy_lower)
  then obtain ens where args: "fa_ipv4 args = family_rules (im_chain_name self) V4 ens"
    "fa_ipv6 args = family_rules (im_chain_name self) V6 ens" by (rule build_policy_rules_Ok)
  obtain t4 where 4: "run_rules host self ''iptables'' (fa_ipv4 args) t3 = (Ok (), t4)"
    using rules [OF family_rules_add] unfolding args by blast
  obtain t5 where 5: "run_rules host self ''ip6tables'' (fa_ipv6 args) t4 = (Ok (), t5)"
    using rules [OF family_rules_add] unfolding args by blast
  have "hd (build_default_policy_rule_arg (im_chain_name self) (effective_default_policy open_policy)) \<noteq> ''-I''"
    by (simp add: build_default_policy_rule_arg_def)
  with 1 2 3 4 5 show ?thesis
    by (simp add: install_rules_def rule_args_run_rules run_defs obliging_run [OF assms] Let_def) blast
qed

lemma obliging_install:
  assumes "obliging host self"
  shows "\<exists>t. install_firewall_rules host self open_policy CreatedResources_default tr =
    install_hooks host self True (chain_made True) t"
proof -
  have "fh_exec host t (command_argv self ''ip6tables'' [''-S'']) = Exited True []" for t
    using assms by (simp add: obliging_def)
  then have "\<exists>trs. ip6tables_status host self t = (Available, trs)" for t
    by (simp add: ip6tables_status_def ip6tables_probe_succeeded_def Let_def split: prod.splits)
  then obtain trs where s: "ip6tables_status host self
      (log_line (''Creating iptables/ip6tables chain: '' @ im_chain_name self) tr) = (Available, trs)" by blast
  show ?thesis
    using install_unfold [OF s, of True open_policy] obliging_install_rules [OF assms]
    by (simp add: obliging_run [OF assms])
qed

lemma willing_obliging: "obliging willing_host self"
  by (simp add: obliging_def willing_host_def)

lemma willing_apply: "\<exists>m' tr'. apply_firewall_rules willing_host example_manager open_policy [] = (Ok True, m', tr')"
proof -
  have "run_firewall_command willing_host self b args tr = (Ok True, tr @ [Ran (command_argv self b args) (Exited True [])])"
    for self b args tr by (simp add: run_firewall_command_def willing_host_def)
  then have "\<exists>c' tr'. install_hooks willing_host example_manager v c tr = (Ok (), c', tr')" for v c tr
    by (simp add: install_hooks_def run_defs Let_def)
  with obliging_install [OF willing_obliging, of example_manager "[]"]
  have "\<exists>c' tr'. install_firewall_rules willing_host example_manager open_policy CreatedResources_default [] = (Ok (), c', tr')"
    by metis
  then show ?thesis
    by (auto simp: apply_firewall_rules_def open_policy_plan example_manager_def apply_firewall_rules_inner_def
        record_apply_outcome_def)
qed

text \<open>
  C7: The manager owns exactly what it left behind. On a host that may fail any command at any time, in
  every state a manager can reach by applying, removing and re-applying policies and by forgetting its
  record when the runner notes that the container's namespace is gone, the ownership record equals
  the chains and hooks that the commands of the whole trace left in the namespace, and rules count as
  applied exactly when the record is not empty. Failed commands may have taken effect: an
  \<open>OUTPUT\<close> hook whose insertion reported failure is removed at once. The proviso is that the creation
  and deletion of chains and the removal of hooks do as they report, and that the removal right after
  such an insertion succeeds.
\<close>

theorem ownership_exact:
  assumes "manager_reach host (NetworkIptablesManager_new sha n hp) m tr" and "took_effect m (runs tr) taken"
  shows "im_created m = kernel m taken \<and>
    (im_rules_applied m \<longleftrightarrow> im_created m \<noteq> CreatedResources_default)"
proof -
  have own: "owns m tr" and same: "same_target (NetworkIptablesManager_new sha n hp) m"
    using reach_owns [OF assms(1)] by simp_all
  have "retracted m (runs tr)"
    using reach_retracted [OF assms(1)] retracted_cong [OF same] by simp
  from took_effect_kernel [OF this assms(2)] show ?thesis
    using own empty_default by (simp add: owns_def kernel_def)
qed

text \<open>A host on which the first hook insertion reports failure.\<close>

definition doubtful_host :: fw_host where
  "doubtful_host =
     \<lparr>fh_exec = \<lambda>_ argv. Exited (argv \<noteq> command_argv example_manager ''iptables'' (hook_args example_manager)) [],
      fh_read = \<lambda>_ _. Ok [], fh_is_dir = \<lambda>_ _. True\<rparr>"

definition all_taken :: "(string list \<times> bool) list \<Rightarrow> (string list \<times> bool) list" where
  "all_taken rs = map (\<lambda>(a, _). (a, True)) rs"

lemma doubtful_obliging: "obliging doubtful_host example_manager"
  by (auto simp: obliging_def doubtful_host_def hook_args_def)

lemma example_hooked: "is_hooked example_manager"
  by (simp add: example_manager_def NetworkIptablesManager_new_def is_hooked_def)

lemma doubtful_hook:
  obtains e tr' where "run_firewall_command doubtful_host example_manager ''iptables'' (hook_args example_manager) tr = (Err e, tr')"
    and "runs tr' = runs tr @ [(command_argv example_manager ''iptables'' (hook_args example_manager), False)]"
proof (rule command_cases [of doubtful_host example_manager "''iptables''" "hook_args example_manager" tr])
  fix x t assume "run_firewall_command doubtful_host example_manager ''iptables'' (hook_args example_manager) tr = (Ok x, t)"
  then show thesis by (simp add: run_firewall_command_def doubtful_host_def log_command_failure_def Let_def)
qed (rule that)

lemma doubtful_hooks:
  fixes v :: bool
  defines "m \<equiv> example_manager"
  shows "\<exists>e tr'. install_hooks doubtful_host m v (chain_made v) t = (Err e, chain_made v, tr') \<and>
    runs tr' = runs t @ [(command_argv m ''iptables'' (hook_args m), False),
      (command_argv m ''iptables'' (unhook_args (im_chain_name m)), True)]"
proof -
  let ?c = "(chain_made v)\<lparr>cr_v4 := \<lparr>fr_chain = True, fr_hook = True\<rparr>\<rparr>" and ?u = "unhook_args (im_chain_name m)"
  have "hd ?u \<noteq> ''-I''" by (simp add: unhook_args_def)
  note run = obliging_run [OF doubtful_obliging [folded m_def] this]
  obtain e t1 where hook: "run_firewall_command doubtful_host m ''iptables'' (hook_args m) (publish_created ?c t) = (Err e, t1)"
    "runs t1 = runs t @ [(command_argv m ''iptables'' (hook_args m), False)]"
    using doubtful_hook [of "publish_created ?c t"] unfolding m_def by (metis runs_publish_created)
  let ?t2 = "publish_created (chain_made v) (t1 @ [Ran (command_argv m ''iptables'' ?u) (Exited True [])])"
  have "install_hooks doubtful_host m v (chain_made v) t = (Err e, chain_made v, ?t2)"
    using example_hooked [folded m_def] hook(1) by (simp add: install_hooks_def run_defs run Let_def)
  then show ?thesis using hook(2) by (auto simp: succeeded_def)
qed

lemma doubtful_teardown:
  "\<exists>ds. runs (snd (teardown_created doubtful_host example_manager c (chain_made v) tr)) = runs tr @ all_ok ds"
proof -
  note run = obliging_run [OF doubtful_obliging]
  let ?ds = "\<lambda>b. [command_argv example_manager b [''-F'', c], command_argv example_manager b [''-X'', c]]"
  have "runs (snd (teardown_created doubtful_host example_manager c (chain_made v) tr)) =
      runs tr @ all_ok (?ds ''iptables'' @ (if v then ?ds ''ip6tables'' else []))"
    by (simp add: teardown_created_def teardown_chain_def run_defs run Let_def succeeded_def)
  then show ?thesis ..
qed

lemma doubtful_apply:
  fixes r :: "string + bool"
  assumes "apply_firewall_rules doubtful_host example_manager open_policy [] = (r, m', tr)"
  shows "\<exists>v cs ds. runs tr = (probe_argv example_manager, v) # all_ok cs @
    (command_argv example_manager ''iptables'' (hook_args example_manager), False) #
    (command_argv example_manager ''iptables'' (unhook_args (im_chain_name example_manager)), True) # all_ok ds"
proof -
  let ?m = example_manager and ?H = doubtful_host
  have k: "kernel ?m (runs []) = CreatedResources_default" by (simp add: kernel_def)
  obtain t where i: "install_firewall_rules ?H ?m open_policy CreatedResources_default [] = install_hooks ?H ?m True (chain_made True) t"
    using obliging_install [OF doubtful_obliging] by blast
  have "\<not> im_rules_applied ?m" by (simp add: example_manager_def)
  then have run: "runs tr = runs (snd (teardown_created ?H ?m (im_chain_name ?m) c t'))"
    if "install_firewall_rules ?H ?m open_policy CreatedResources_default [] = (Err e, c, t')" for e c t'
    using assms that by (auto simp: apply_firewall_rules_def open_policy_plan apply_firewall_rules_inner_def
        record_apply_outcome_def Let_def split: prod.splits if_splits)
  show ?thesis
  proof (rule install_cases [OF k, of ?H open_policy])
    fix e c t' rs assume f: "install_firewall_rules ?H ?m open_policy CreatedResources_default [] = (Err e, c, t')"
      "runs t' = runs [] @ rs" "list_all (builds ?m \<circ> fst) rs"
    then have "(command_argv ?m ''iptables'' (hook_args ?m), False) \<in> set rs"
      using doubtful_hooks [of True t] i by auto
    then have "builds ?m (command_argv ?m ''iptables'' (hook_args ?m))"
      using f(3) unfolding list_all_iff o_def by (metis fst_conv)
    then show ?thesis using not_hook(1) by blast
  next
    fix v t1 assume h: "install_firewall_rules ?H ?m open_policy CreatedResources_default [] = install_hooks ?H ?m v (chain_made v) t1"
      "runs t1 = runs [] @ (probe_argv ?m, v) # all_ok (setup_commands ?m v open_policy)"
    obtain e t2 where e: "install_hooks ?H ?m v (chain_made v) t1 = (Err e, chain_made v, t2)"
      "runs t2 = runs t1 @ [(command_argv ?m ''iptables'' (hook_args ?m), False),
         (command_argv ?m ''iptables'' (unhook_args (im_chain_name ?m)), True)]"
      using doubtful_hooks by blast
    from doubtful_teardown [of "im_chain_name ?m" v t2] run [OF h(1) [unfolded e(1)]] e(2) h(2)
    show ?thesis by auto
  qed
qed

lemma took_all_ok: "took_effect self rs (all_taken rs) \<Longrightarrow> took_effect self (all_ok cs @ rs) (all_taken (all_ok cs @ rs))"
  by (induction cs) (auto simp: all_taken_def)

lemma probe_taken:
  "took_effect self rs (all_taken rs) \<Longrightarrow> took_effect self ((probe_argv self, v) # rs) (all_taken ((probe_argv self, v) # rs))"
  by (simp add: all_taken_def as_reported_def is_hook_def probe_argv_def hook_args_def unhook_args_def)

lemma hook_taken:
  "took_effect self rs (all_taken rs) \<Longrightarrow> u = (command_argv self b (unhook_args (im_chain_name self)), True) \<Longrightarrow>
   took_effect self ((command_argv self b (hook_args self), False) # u # rs)
     (all_taken ((command_argv self b (hook_args self), False) # u # rs))"
  by (simp add: all_taken_def as_reported_def is_hook_def hook_args_def unhook_args_def)

theorem ownership_exact_witness:
  "\<exists>m tr. manager_reach doubtful_host example_manager m tr \<and> all_taken (runs tr) \<noteq> runs tr \<and>
     took_effect m (runs tr) (all_taken (runs tr)) \<and> im_created m = kernel m (all_taken (runs tr))"
proof -
  obtain r m tr where run: "apply_firewall_rules doubtful_host example_manager open_policy [] = (r, m, tr)"
    by (cases "apply_firewall_rules doubtful_host example_manager open_policy []")
  have reach: "manager_reach doubtful_host example_manager m tr"
    by (rule reach_apply [OF reach_new run])
  have same: "same_target example_manager m" using apply_owns [OF example_owns run] by simp
  from doubtful_apply [OF run] obtain v cs ds where rs: "runs tr = (probe_argv example_manager, v) # all_ok cs @
    (command_argv example_manager ''iptables'' (hook_args example_manager), False) #
    (command_argv example_manager ''iptables'' (unhook_args (im_chain_name example_manager)), True) # all_ok ds" by blast
  have "took_effect example_manager (all_ok ds) (all_taken (all_ok ds))"
    using took_all_ok [of example_manager "[]" ds] by (simp add: all_taken_def)
  then have "took_effect example_manager (runs tr) (all_taken (runs tr))"
    unfolding rs by (intro probe_taken took_all_ok hook_taken) simp_all
  then have took: "took_effect m (runs tr) (all_taken (runs tr))" using took_effect_cong [OF same] by simp
  have "all_taken (runs tr) \<noteq> runs tr" unfolding rs by (simp add: all_taken_def)
  with ownership_exact [OF reach [unfolded example_manager_def] took] reach took show ?thesis by blast
qed

text \<open>
  C32: A chain is hooked only when it is complete. If an application issues an \<open>OUTPUT\<close> hook for either
  family, successfully or not, then before it the probe ran and every set-up command succeeded: the
  chain was created in each enabled family, and its base rules, its policy rules in order and its
  closing rule were appended; none of those commands is itself a hook.
\<close>

theorem hook_after_setup:
  assumes "manager_reach host (NetworkIptablesManager_new sha n hp) m tr"
    and "apply_firewall_rules host m policy tr = (r, m', tr')"
    and "runs tr' = runs tr @ new" and "(command_argv m b (hook_args m), ok) \<in> set new"
  shows "\<exists>ipv6 rest. new = (probe_argv m, ipv6) # all_ok (setup_commands m ipv6 policy) @ rest \<and>
    (command_argv m b (hook_args m), ok) \<in> set rest"
proof -
  have "owns m tr" using reach_owns [OF assms(1)] by simp
  from apply_runs [OF this assms(2)]
  consider "extends (\<lambda>a. builds m a \<or> removes m a) tr tr'"
    | ipv6 rest where "new = (probe_argv m, ipv6) # all_ok (setup_commands m ipv6 policy) @ rest"
    using assms(3) by auto
  then show ?thesis
  proof cases
    case 1
    then obtain rs where rs: "runs tr' = runs tr @ rs" "list_all ((\<lambda>a. builds m a \<or> removes m a) \<circ> fst) rs"
      by (auto simp: extends_def)
    then have "(command_argv m b (hook_args m), ok) \<in> set rs" using assms(3,4) by simp
    with rs(2) have "builds m (command_argv m b (hook_args m)) \<or> removes m (command_argv m b (hook_args m))"
      unfolding list_all_iff o_def by (metis fst_conv)
    then have False using not_hook [of m "command_argv m b (hook_args m)" b] by auto
    then show ?thesis ..
  next
    case 2
    have "c \<noteq> command_argv m b (hook_args m)" if "c \<in> set (setup_commands m ipv6 policy)" for c
      by (rule not_hook(1) [OF setup_builds [OF that]])
    moreover have "probe_argv m \<noteq> command_argv m b (hook_args m)" by (rule not_hook(1) [OF builds_intros(1)])
    ultimately have "(command_argv m b (hook_args m), ok) \<in> set rest" using 2 assms(4) by (auto simp: all_ok_def)
    with 2 show ?thesis by blast
  qed
qed

theorem hook_after_setup_witness:
  "\<exists>m' tr' ipv6 rest. apply_firewall_rules willing_host example_manager open_policy [] = (Ok True, m', tr') \<and>
     runs tr' = (probe_argv example_manager, ipv6) # all_ok (setup_commands example_manager ipv6 open_policy) @ rest \<and>
     (command_argv example_manager ''iptables'' (hook_args example_manager), True) \<in> set rest"
proof -
  obtain m' tr' where run: "apply_firewall_rules willing_host example_manager open_policy [] = (Ok True, m', tr')"
    using willing_apply by blast
  have reach: "manager_reach willing_host (NetworkIptablesManager_new (\<lambda>_. []) ''box'' (ContainerNetns 7)) example_manager []"
    unfolding example_manager_def by (rule reach_new)
  have h: "(command_argv example_manager ''iptables'' (hook_args example_manager), True) \<in> set (runs tr')"
    by (rule apply_Ok [OF example_owns open_policy_plan run]) (simp add: hook_commands_def example_hooked)
  have "runs tr' = runs [] @ runs tr'" by simp
  from hook_after_setup [OF reach run this h] run show ?thesis by blast
qed

text \<open>
  C33: A successful application of a policy that needs filtering enforces it. For a policy whose plan is
  \<open>Filtered\<close>, the application ran the probe, all set-up commands and, in a container namespace, the
  hooks, every one but the probe successfully and in that order; the policy lowered without error, so
  the set-up includes a rule for each of its entries. IPv6 is left out only if the probe of this very
  run failed, and the state of the namespace read right after it, from the trace up to that probe, was
  that it has no IPv6.
\<close>

theorem apply_success:
  assumes "manager_reach host (NetworkIptablesManager_new sha n hp) m tr" and "plan_network policy = Filtered"
    and "apply_firewall_rules host m policy tr = (Ok v, m', tr')"
  shows "\<exists>ipv6. runs tr' = runs tr @ (probe_argv m, ipv6) #
      all_ok (setup_commands m ipv6 policy @ hook_commands m ipv6) \<and>
    lower_egress policy = Ok (egress_entries policy) \<and> im_rules_applied m' \<and>
    (\<not> ipv6 \<longrightarrow> (\<exists>probed. ip6tables_probe_succeeded host m
        (log_line (''Creating iptables/ip6tables chain: '' @ im_chain_name m) tr) = (False, probed) \<and>
      namespace_ipv6_state host m probed = Ipv6Inactive))"
proof -
  have "owns m tr" using reach_owns [OF assms(1)] by simp
  from apply_Ok [OF this assms(2,3)] show ?thesis unfolding no_ipv6_seen_def by blast
qed

theorem apply_success_witness:
  "\<exists>m' tr' ipv6. apply_firewall_rules willing_host example_manager open_policy [] = (Ok True, m', tr') \<and>
     runs tr' = (probe_argv example_manager, ipv6) #
       all_ok (setup_commands example_manager ipv6 open_policy @ hook_commands example_manager ipv6)"
proof -
  obtain m' tr' where run: "apply_firewall_rules willing_host example_manager open_policy [] = (Ok True, m', tr')"
    using willing_apply by blast
  have "manager_reach willing_host (NetworkIptablesManager_new (\<lambda>_. []) ''box'' (ContainerNetns 7)) example_manager []"
    unfolding example_manager_def by (rule reach_new)
  from apply_success [OF this open_policy_plan run] run show ?thesis by auto
qed

end
