(* ===== verification/Lxc_Ingress.thy ===== *)
theory Lxc_Ingress
  imports Lxc_Firewall
begin

text \<open>
  \<open>network_ingress.rs\<close>: the inbound firewall of an LXC container, installed in the \<open>INPUT\<close> chain of the
  container's network namespace. Commands and log lines are events of the trace of \<open>Lxc_Firewall\<close>, and
  every operation runs against an arbitrary host. \<open>Lxc_Inbound\<close> states what the operations achieve.
\<close>

section \<open>Families, steps and errors\<close>

fun IpFamily_binary :: "IpFamily \<Rightarrow> string" where
  "IpFamily_binary V4 = ''iptables''"
| "IpFamily_binary V6 = ''ip6tables''"

fun IpFamily_index :: "IpFamily \<Rightarrow> nat" where
  "IpFamily_index V4 = 0"
| "IpFamily_index V6 = 1"

definition ICMPV6_ALLOW_TYPES :: "string list" where
  "ICMPV6_ALLOW_TYPES =
     [''133'', ''134'', ''135'', ''136'', ''130'', ''131'', ''132'', ''143'', ''1'', ''2'', ''3'', ''4'']"

record IngressManager =
  ig_chain_name :: string
  ig_netns_pid :: u32
  ig_v4_chain_created :: bool
  ig_v6_chain_created :: bool
  ig_v4_hooked :: bool
  ig_v6_hooked :: bool
  ig_preserve_policy :: bool

text \<open>\<open>Exit\<close> carries the standard error of the command and the message.\<close>

datatype RunError = Spawn string | Exit string string

fun RunError_message :: "RunError \<Rightarrow> string" where
  "RunError_message (Spawn msg) = msg"
| "RunError_message (Exit _ msg) = msg"

datatype StepKind = Unhook | Flush | Delete

record TeardownStep =
  td_family :: IpFamily
  td_kind :: StepKind
  td_args :: "string list"

definition stderr_means_absent :: "StepKind \<Rightarrow> string \<Rightarrow> bool" where
  "stderr_means_absent kind stderr =
     (let s = to_ascii_lowercase stderr;
          absent_chain = str_contains ''does not exist'' s \<or> str_contains ''couldn't load target'' s
      in case kind of
           Unhook \<Rightarrow> str_contains ''no chain/target/match by that name'' s \<or>
             str_contains ''does a matching rule exist'' s \<or> absent_chain
         | _ \<Rightarrow> str_contains ''no chain/target/match by that name'' s \<or> absent_chain)"

definition TeardownStep_unhook :: "IpFamily \<Rightarrow> string \<Rightarrow> TeardownStep" where
  "TeardownStep_unhook fam chain =
     \<lparr>td_family = fam, td_kind = Unhook, td_args = [''-D'', ''INPUT'', ''-j'', chain]\<rparr>"

definition TeardownStep_flush :: "IpFamily \<Rightarrow> string \<Rightarrow> TeardownStep" where
  "TeardownStep_flush fam chain = \<lparr>td_family = fam, td_kind = Flush, td_args = [''-F'', chain]\<rparr>"

definition TeardownStep_delete :: "IpFamily \<Rightarrow> string \<Rightarrow> TeardownStep" where
  "TeardownStep_delete fam chain = \<lparr>td_family = fam, td_kind = Delete, td_args = [''-X'', chain]\<rparr>"

definition MAX_UNHOOK_ATTEMPTS :: nat where
  "MAX_UNHOOK_ATTEMPTS = 128"

section \<open>The record of the manager\<close>

definition IngressManager_new :: "(string \<Rightarrow> 8 word list) \<Rightarrow> string \<Rightarrow> u32 \<Rightarrow> IngressManager" where
  "IngressManager_new sha container_name netns_pid =
     \<lparr>ig_chain_name = ingress_chain_name_for sha container_name, ig_netns_pid = netns_pid,
      ig_v4_chain_created = False, ig_v6_chain_created = False, ig_v4_hooked = False,
      ig_v6_hooked = False, ig_preserve_policy = False\<rparr>"

definition Ingress_set_preserve_policy :: "bool \<Rightarrow> IngressManager \<Rightarrow> IngressManager" where
  "Ingress_set_preserve_policy preserve self = self\<lparr>ig_preserve_policy := preserve\<rparr>"

definition Ingress_forget :: "IngressManager \<Rightarrow> IngressManager" where
  "Ingress_forget self =
     self\<lparr>ig_v4_chain_created := False, ig_v6_chain_created := False, ig_v4_hooked := False,
          ig_v6_hooked := False\<rparr>"

definition rules_applied :: "IngressManager \<Rightarrow> bool" where
  "rules_applied self \<longleftrightarrow>
     ig_v4_chain_created self \<or> ig_v6_chain_created self \<or> ig_v4_hooked self \<or> ig_v6_hooked self"

definition should_cleanup_on_drop :: "IngressManager \<Rightarrow> bool" where
  "should_cleanup_on_drop self \<longleftrightarrow> rules_applied self \<and> \<not> ig_preserve_policy self"

fun set_created :: "IpFamily \<Rightarrow> IngressManager \<Rightarrow> IngressManager" where
  "set_created V4 self = self\<lparr>ig_v4_chain_created := True\<rparr>"
| "set_created V6 self = self\<lparr>ig_v6_chain_created := True\<rparr>"

fun set_hooked :: "IpFamily \<Rightarrow> IngressManager \<Rightarrow> IngressManager" where
  "set_hooked V4 self = self\<lparr>ig_v4_hooked := True\<rparr>"
| "set_hooked V6 self = self\<lparr>ig_v6_hooked := True\<rparr>"

fun created :: "IpFamily \<Rightarrow> IngressManager \<Rightarrow> bool" where
  "created V4 self = ig_v4_chain_created self"
| "created V6 self = ig_v6_chain_created self"

fun hooked :: "IpFamily \<Rightarrow> IngressManager \<Rightarrow> bool" where
  "hooked V4 self = ig_v4_hooked self"
| "hooked V6 self = ig_v6_hooked self"

fun clear_created :: "IpFamily \<Rightarrow> IngressManager \<Rightarrow> IngressManager" where
  "clear_created V4 self = self\<lparr>ig_v4_chain_created := False\<rparr>"
| "clear_created V6 self = self\<lparr>ig_v6_chain_created := False\<rparr>"

fun clear_hooked :: "IpFamily \<Rightarrow> IngressManager \<Rightarrow> IngressManager" where
  "clear_hooked V4 self = self\<lparr>ig_v4_hooked := False\<rparr>"
| "clear_hooked V6 self = self\<lparr>ig_v6_hooked := False\<rparr>"

definition clear_step_flag :: "TeardownStep \<Rightarrow> IngressManager \<Rightarrow> IngressManager" where
  "clear_step_flag step self =
     (case td_kind step of
        Unhook \<Rightarrow> clear_hooked (td_family step) self
      | Flush \<Rightarrow> self
      | Delete \<Rightarrow> clear_created (td_family step) self)"

definition permissive_inbound_field :: "ContainerPolicy \<Rightarrow> string option" where
  "permissive_inbound_field policy =
     (case network_ingress policy of
        Some ingress \<Rightarrow>
          if in_default ingress = Allow then Some ''network.ingress.default''
          else if in_host_loopback ingress = Allow then Some ''network.ingress.hostLoopback''
          else None
      | None \<Rightarrow> None)"

section \<open>Commands\<close>

definition build_nsenter_argv :: "u32 \<Rightarrow> string \<Rightarrow> string list \<Rightarrow> string list" where
  "build_nsenter_argv netns_pid binary args =
     [''nsenter'', ''-t'', show_nat (unat netns_pid), ''-n'', binary] @ args"

definition NsenterRunner_run :: "fw_host \<Rightarrow> string list \<Rightarrow> fw_trace \<Rightarrow> (RunError + unit) \<times> fw_trace" where
  "NsenterRunner_run host argv tr =
     (let output = fh_exec host tr argv;
          tr = tr @ [Ran argv output]
      in case output of
           SpawnError e \<Rightarrow> (Err (Spawn (''Failed to spawn '' @ quoted (join '' '' argv) @ '': '' @ e)), tr)
         | Exited success stderr \<Rightarrow>
             if \<not> success then (Err (Exit stderr (join '' '' argv @ '' failed: '' @ stderr)), tr)
             else (Ok (), tr))"

definition Ingress_run ::
    "fw_host \<Rightarrow> IngressManager \<Rightarrow> string \<Rightarrow> string list \<Rightarrow> fw_trace \<Rightarrow> (RunError + unit) \<times> fw_trace" where
  "Ingress_run host self binary args tr =
     NsenterRunner_run host (build_nsenter_argv (ig_netns_pid self) binary args) tr"

text \<open>\<open>run_logged\<close> with the \<open>map_err(RunError::into_message)\<close> of its callers.\<close>

definition run_logged ::
    "fw_host \<Rightarrow> IngressManager \<Rightarrow> string \<Rightarrow> string list \<Rightarrow> fw_trace \<Rightarrow> (string + unit) \<times> fw_trace" where
  "run_logged host self binary args tr =
     (case Ingress_run host self binary args tr of
        (Inl e, tr) \<Rightarrow> (Err (RunError_message e), log_line (RunError_message e) tr)
      | (Inr _, tr) \<Rightarrow> (Ok (), tr))"

section \<open>Teardown\<close>

record teardown_state =
  ts_self :: IngressManager
  ts_failures :: "string list"
  ts_blocked :: "bool list"
  ts_removed :: bool
  ts_trace :: fw_trace

definition fail_step :: "TeardownStep \<Rightarrow> string \<Rightarrow> teardown_state \<Rightarrow> teardown_state" where
  "fail_step step msg st =
     st\<lparr>ts_trace := log_line msg (ts_trace st), ts_failures := ts_failures st @ [msg],
        ts_blocked := (ts_blocked st)[IpFamily_index (td_family step) := True]\<rparr>"

text \<open>The attempts of one \<open>Unhook\<close> step; the first component is \<open>cleared\<close>.\<close>

fun unhook_attempts :: "nat \<Rightarrow> fw_host \<Rightarrow> TeardownStep \<Rightarrow> teardown_state \<Rightarrow> bool \<times> teardown_state" where
  "unhook_attempts 0 host step st = (False, st)"
| "unhook_attempts (Suc n) host step st =
     (case Ingress_run host (ts_self st) (IpFamily_binary (td_family step)) (td_args step) (ts_trace st) of
        (Inr _, tr) \<Rightarrow> unhook_attempts n host step (st\<lparr>ts_removed := True, ts_trace := tr\<rparr>)
      | (Inl (Exit stderr msg), tr) \<Rightarrow>
          if stderr_means_absent (td_kind step) stderr then (True, st\<lparr>ts_trace := tr\<rparr>)
          else (False, fail_step step msg (st\<lparr>ts_trace := tr\<rparr>))
      | (Inl (Spawn msg), tr) \<Rightarrow> (False, fail_step step msg (st\<lparr>ts_trace := tr\<rparr>)))"

definition teardown_step :: "fw_host \<Rightarrow> teardown_state \<Rightarrow> TeardownStep \<Rightarrow> teardown_state" where
  "teardown_step host st step =
     (let fi = IpFamily_index (td_family step) in
      if ts_blocked st ! fi then st
      else if td_kind step = Unhook then
        (let (cleared, st) = unhook_attempts MAX_UNHOOK_ATTEMPTS host step st
         in if ts_blocked st ! fi then st
            else if \<not> cleared then
              fail_step step (''still removing INPUT references to chain '' @ quoted (ig_chain_name (ts_self st)) @
                '' after '' @ show_nat MAX_UNHOOK_ATTEMPTS @ '' attempts'') st
            else st\<lparr>ts_self := clear_hooked (td_family step) (ts_self st)\<rparr>)
      else
        (case Ingress_run host (ts_self st) (IpFamily_binary (td_family step)) (td_args step) (ts_trace st) of
           (Inr _, tr) \<Rightarrow>
             st\<lparr>ts_removed := True, ts_self := clear_step_flag step (ts_self st), ts_trace := tr\<rparr>
         | (Inl (Exit stderr msg), tr) \<Rightarrow>
             if stderr_means_absent (td_kind step) stderr
             then st\<lparr>ts_self := clear_step_flag step (ts_self st), ts_trace := tr\<rparr>
             else fail_step step msg (st\<lparr>ts_trace := tr\<rparr>)
         | (Inl (Spawn msg), tr) \<Rightarrow> fail_step step msg (st\<lparr>ts_trace := tr\<rparr>)))"

definition execute_teardown ::
    "fw_host \<Rightarrow> IngressManager \<Rightarrow> TeardownStep list \<Rightarrow> fw_trace \<Rightarrow> (string + bool) \<times> IngressManager \<times> fw_trace" where
  "execute_teardown host self steps tr =
     (let st = foldl (teardown_step host)
        \<lparr>ts_self = self, ts_failures = [], ts_blocked = [False, False], ts_removed = False, ts_trace = tr\<rparr> steps
      in (if ts_failures st = [] then Ok (ts_removed st)
          else Err (''inbound teardown for chain '' @ quoted (ig_chain_name self) @ '' failed: '' @
            join ''; '' (ts_failures st)),
          ts_self st, ts_trace st))"

definition owned_teardown_steps :: "IngressManager \<Rightarrow> TeardownStep list" where
  "owned_teardown_steps self =
     concat (map (\<lambda>fam.
       (if hooked fam self then [TeardownStep_unhook fam (ig_chain_name self)] else []) @
       (if created fam self
        then [TeardownStep_flush fam (ig_chain_name self), TeardownStep_delete fam (ig_chain_name self)]
        else [])) [V4, V6])"

definition Ingress_remove_firewall_rules ::
    "fw_host \<Rightarrow> IngressManager \<Rightarrow> fw_trace \<Rightarrow> (string + unit) \<times> IngressManager \<times> fw_trace" where
  "Ingress_remove_firewall_rules host self tr =
     (if \<not> rules_applied self then (Ok (), self, tr)
      else
        let tr = log_line (''Removing inbound iptables chain: '' @ ig_chain_name self) tr
        in case execute_teardown host self (owned_teardown_steps self) tr of
             (Inl e, self, tr) \<Rightarrow> (Err e, self, tr)
           | (Inr _, self, tr) \<Rightarrow> (Ok (), self, tr))"

definition for_full_reset :: "(string \<Rightarrow> 8 word list) \<Rightarrow> string \<Rightarrow> u32 \<Rightarrow> IngressManager" where
  "for_full_reset sha container_name netns_pid =
     (IngressManager_new sha container_name netns_pid)
       \<lparr>ig_v4_chain_created := True, ig_v6_chain_created := True, ig_v4_hooked := True, ig_v6_hooked := True\<rparr>"

definition Ingress_force_cleanup ::
    "(string \<Rightarrow> 8 word list) \<Rightarrow> fw_host \<Rightarrow> string \<Rightarrow> u32 \<Rightarrow> fw_trace \<Rightarrow> fw_trace" where
  "Ingress_force_cleanup sha host container_name netns_pid tr =
     snd (snd (Ingress_remove_firewall_rules host (for_full_reset sha container_name netns_pid) tr))"

definition drop_ingress :: "fw_host \<Rightarrow> IngressManager \<Rightarrow> fw_trace \<Rightarrow> fw_trace" where
  "drop_ingress host self tr =
     (if should_cleanup_on_drop self then snd (snd (Ingress_remove_firewall_rules host self tr)) else tr)"

section \<open>Installation\<close>

record IngressRules =
  ir_body :: "string list list"
  ir_hook :: "string list"

definition build_ingress_rules :: "string \<Rightarrow> IpFamily \<Rightarrow> IngressRules" where
  "build_ingress_rules chain fam =
     \<lparr>ir_body =
        [[''-A'', chain, ''-i'', ''lo'', ''-j'', ''ACCEPT''],
         [''-A'', chain, ''-m'', ''conntrack'', ''--ctstate'', ''ESTABLISHED,RELATED'', ''-j'', ''ACCEPT'']] @
        (if fam = V6 then
           map (\<lambda>icmpv6_type. [''-A'', chain, ''-p'', ''icmpv6'', ''--icmpv6-type'', icmpv6_type, ''-j'', ''ACCEPT''])
             ICMPV6_ALLOW_TYPES
         else []) @
        [[''-A'', chain, ''-m'', ''conntrack'', ''--ctstate'', ''NEW'', ''-j'', ''DROP''],
         [''-A'', chain, ''-j'', ''DROP'']],
      ir_hook = [''-I'', ''INPUT'', ''-j'', chain]\<rparr>"

definition reset_steps :: "IpFamily \<Rightarrow> string \<Rightarrow> TeardownStep list" where
  "reset_steps fam chain =
     [TeardownStep_unhook fam chain, TeardownStep_flush fam chain, TeardownStep_delete fam chain]"

definition reset_family ::
    "fw_host \<Rightarrow> IpFamily \<Rightarrow> IngressManager \<Rightarrow> fw_trace \<Rightarrow> (string + unit) \<times> IngressManager \<times> fw_trace" where
  "reset_family host fam self tr =
     (case execute_teardown host self (reset_steps fam (ig_chain_name self)) tr of
        (Inl e, self, tr) \<Rightarrow> (Err e, self, tr)
      | (Inr removed, self, tr) \<Rightarrow>
          (Ok (), self,
           if removed
           then log_line (''Removed a stale inbound '' @ IpFamily_binary fam @ '' chain '' @
             quoted (ig_chain_name self) @ '' left by an earlier run.'') tr
           else tr))"

fun run_body ::
    "fw_host \<Rightarrow> IngressManager \<Rightarrow> string \<Rightarrow> string list list \<Rightarrow> fw_trace \<Rightarrow> (string + unit) \<times> fw_trace" where
  "run_body host self binary [] tr = (Ok (), tr)"
| "run_body host self binary (rule # rules) tr =
     (case run_logged host self binary rule tr of
        (Inl e, tr) \<Rightarrow> (Err e, tr)
      | (Inr _, tr) \<Rightarrow> run_body host self binary rules tr)"

definition install_family ::
    "fw_host \<Rightarrow> IpFamily \<Rightarrow> IngressRules \<Rightarrow> IngressManager \<Rightarrow> fw_trace
      \<Rightarrow> (string + unit) \<times> IngressManager \<times> fw_trace" where
  "install_family host fam rules self tr =
     (let binary = IpFamily_binary fam; chain = ig_chain_name self in
      case reset_family host fam self tr of
        (Inl e, self, tr) \<Rightarrow> (Err e, self, tr)
      | (Inr _, self, tr) \<Rightarrow>
          (case run_logged host self binary [''-N'', chain] tr of
             (Inl e, tr) \<Rightarrow> (Err e, self, tr)
           | (Inr _, tr) \<Rightarrow>
               let self = set_created fam self in
               (case run_body host self binary (ir_body rules) tr of
                  (Inl e, tr) \<Rightarrow> (Err e, self, tr)
                | (Inr _, tr) \<Rightarrow>
                    (case run_logged host self binary (ir_hook rules) tr of
                       (Inl e, tr) \<Rightarrow> (Err e, self, tr)
                     | (Inr _, tr) \<Rightarrow> (Ok (), set_hooked fam self, tr)))))"

definition container_ip6tables_probe_succeeded ::
    "fw_host \<Rightarrow> IngressManager \<Rightarrow> fw_trace \<Rightarrow> bool \<times> fw_trace" where
  "container_ip6tables_probe_succeeded host self tr =
     (case Ingress_run host self ''ip6tables'' [''-S''] tr of
        (Inr _, tr) \<Rightarrow> (True, tr)
      | (Inl e, tr) \<Rightarrow>
          (False, log_line (''container ip6tables probe failed ('' @ RunError_message e @ '')'') tr))"

definition container_ipv6_state :: "fw_host \<Rightarrow> IngressManager \<Rightarrow> fw_trace \<Rightarrow> HostIpv6State" where
  "container_ipv6_state host self tr =
     (let if_inet6 = ''/proc/'' @ show_nat (unat (ig_netns_pid self)) @ ''/net/if_inet6'';
          proc_net = ''/proc/'' @ show_nat (unat (ig_netns_pid self)) @ ''/net''
      in classify_container_ipv6_state (fh_read host tr if_inet6) (fh_is_dir host tr proc_net))"

definition container_ip6tables_status ::
    "fw_host \<Rightarrow> IngressManager \<Rightarrow> fw_trace \<Rightarrow> Ip6tablesStatus \<times> fw_trace" where
  "container_ip6tables_status host self tr =
     (let (probe_succeeded, tr) = container_ip6tables_probe_succeeded host self tr;
          ipv6_state = container_ipv6_state host self tr;
          tr = (if ipv6_state = Ipv6Unknown
                then log_line (''Could not read the container namespace IPv6 state; treating IPv6 as '' @
                  ''potentially active and refusing to fail open.'') tr
                else tr)
      in (classify_ip6tables_status probe_succeeded (ipv6_state_treated_as_active ipv6_state), tr))"

definition permissive_inbound_error :: "string \<Rightarrow> string" where
  "permissive_inbound_error field =
     field @ '' asks for permissive inbound, which is not yet implemented for '' @
     ''the LXC firewall path. LXC has a single inbound chain and the policy '' @
     ''carries no way to scope an accept to particular ports, sources, or '' @
     ''interfaces; the only rule available today would accept new inbound '' @
     ''connections from every interface and source (LAN and WAN), which is '' @
     ''broader than requested. Refusing rather than installing an over-broad accept.''"

definition unenforceable_inbound_error :: "string \<Rightarrow> string" where
  "unenforceable_inbound_error chain =
     ''ip6tables is unusable in the container namespace but IPv6 is live there, '' @
     ''so inbound IPv6 for chain '' @ quoted chain @ '' cannot be denied. Refusing to start with an '' @
     ''unenforceable inbound policy: disable IPv6 in the container, or install/enable ip6tables.''"

definition Ingress_apply_firewall_rules ::
    "fw_host \<Rightarrow> IngressManager \<Rightarrow> ContainerPolicy \<Rightarrow> fw_trace \<Rightarrow> (string + bool) \<times> IngressManager \<times> fw_trace" where
  "Ingress_apply_firewall_rules host self policy tr =
     (if \<not> installs_firewall (plan_network policy) then
        (Ok True, self, log_line ''Network policy requests no firewall; skipping ingress chain.'' tr)
      else case permissive_inbound_field policy of
        Some field \<Rightarrow> (Err (permissive_inbound_error field), self, tr)
      | None \<Rightarrow>
          let tr = log_line (''Creating inbound iptables chain: '' @ ig_chain_name self) tr;
              tr = log_line ''Inbound (network.ingress) policy: DROP new inbound connections (default-deny)'' tr;
              (status, tr) = container_ip6tables_status host self tr;
              tr = (if status = KernelIpv6Disabled
                    then log_line (''ip6tables unusable and no live IPv6 stack in the container namespace; '' @
                      ''enforcing the IPv4 inbound policy only.'') tr
                    else tr)
          in if status = UnusableButIpv6Active
             then (Err (unenforceable_inbound_error (ig_chain_name self)), self, tr)
             else
               (case install_family host V4 (build_ingress_rules (ig_chain_name self) V4) self tr of
                  (Inl e, self, tr) \<Rightarrow> (Err e, self, tr)
                | (Inr _, self, tr) \<Rightarrow>
                    if status = Available then
                      (case install_family host V6 (build_ingress_rules (ig_chain_name self) V6) self tr of
                         (Inl e, self, tr) \<Rightarrow> (Err e, self, tr)
                       | (Inr _, self, tr) \<Rightarrow> (Ok True, self, tr))
                    else (Ok True, self, tr)))"

end
