(* ===== verification/Lxc_Inbound.thy ===== *)
theory Lxc_Inbound
  imports Lxc_Ingress
begin

text \<open>
  What the inbound firewall of \<open>Lxc_Ingress\<close> does to the container's network namespace: \<open>INPUT\<close> never
  jumps to a chain that is only partly built, a successful installation leaves exactly the rules and
  one reference to them, and the clean-up of a crashed run removes up to 127 stale references.
\<close>

section \<open>The namespace\<close>

text \<open>
  What the container's namespace holds for one family: the number of \<open>INPUT\<close> rules that jump to the
  chain, and the chain's rules if it exists. \<open>inbound\<close> is the state after the successful commands of a
  trace, from an arbitrary state an earlier run may have left.
\<close>

record inbound_state =
  in_refs :: nat
  in_chain :: "string list list option"

definition inbound_step :: "string \<Rightarrow> string list \<Rightarrow> inbound_state \<Rightarrow> inbound_state" where
  "inbound_step chain args k =
     (if args = [''-I'', ''INPUT'', ''-j'', chain] then k\<lparr>in_refs := in_refs k + 1\<rparr>
      else if args = [''-D'', ''INPUT'', ''-j'', chain] then k\<lparr>in_refs := in_refs k - 1\<rparr>
      else if args = [''-N'', chain] then k\<lparr>in_chain := Some []\<rparr>
      else if args = [''-F'', chain] then k\<lparr>in_chain := map_option (\<lambda>_. []) (in_chain k)\<rparr>
      else if args = [''-X'', chain] then k\<lparr>in_chain := None\<rparr>
      else if take 2 args = [''-A'', chain] then k\<lparr>in_chain := map_option (\<lambda>rs. rs @ [args]) (in_chain k)\<rparr>
      else k)"

definition inbound_event ::
    "string \<Rightarrow> u32 \<Rightarrow> IpFamily \<Rightarrow> inbound_state \<Rightarrow> string list \<times> bool \<Rightarrow> inbound_state" where
  "inbound_event chain pid fam k r =
     (if snd r \<and> take 5 (fst r) = build_nsenter_argv pid (IpFamily_binary fam) []
      then inbound_step chain (drop 5 (fst r)) k else k)"

definition inbound ::
    "string \<Rightarrow> u32 \<Rightarrow> (IpFamily \<Rightarrow> inbound_state) \<Rightarrow> fw_trace \<Rightarrow> IpFamily \<Rightarrow> inbound_state" where
  "inbound chain pid k0 tr fam = foldl (inbound_event chain pid fam) (k0 fam) (runs tr)"

definition complete :: "string \<Rightarrow> IpFamily \<Rightarrow> inbound_state \<Rightarrow> bool" where
  "complete chain fam k \<longleftrightarrow> in_refs k = 0 \<or> in_chain k = Some (ir_body (build_ingress_rules chain fam))"

text \<open>At every point of the trace, the state of both families was complete.\<close>

definition always_complete :: "string \<Rightarrow> u32 \<Rightarrow> (IpFamily \<Rightarrow> inbound_state) \<Rightarrow> fw_trace \<Rightarrow> bool" where
  "always_complete chain pid k0 tr \<longleftrightarrow>
     (\<forall>n \<le> length tr. \<forall>fam. complete chain fam (inbound chain pid k0 (take n tr) fam))"



lemma binary_inj [simp]: "IpFamily_binary a = IpFamily_binary b \<longleftrightarrow> a = b"
  by (cases a; cases b) simp_all

lemma inbound_log [simp]: "inbound c p k0 (log_line l tr) = inbound c p k0 tr"
  by (simp add: inbound_def fun_eq_iff)

lemma inbound_ran:
  "inbound c p k0 (tr @ [Ran (build_nsenter_argv p (IpFamily_binary f) args) out]) g =
     (if succeeded out \<and> g = f then inbound_step c args (inbound c p k0 tr g) else inbound c p k0 tr g)"
  by (auto simp: inbound_def inbound_event_def build_nsenter_argv_def)


lemma always_snoc:
  "always_complete c p k0 (tr @ [e]) \<longleftrightarrow>
     always_complete c p k0 tr \<and> (\<forall>f. complete c f (inbound c p k0 (tr @ [e]) f))"
  by (auto simp: always_complete_def le_Suc_eq)

lemma always_last: "always_complete c p k0 tr \<Longrightarrow> complete c f (inbound c p k0 tr f)"
  unfolding always_complete_def by (metis order_refl take_all)

lemma always_log [simp]: "always_complete c p k0 (log_line l tr) \<longleftrightarrow> always_complete c p k0 tr"
  using always_last [of c p k0 tr] inbound_log [of c p k0 l tr]
  by (auto simp: log_line_def always_snoc)

section \<open>One command\<close>

text \<open>
  A command either succeeded and had its effect, or failed with a diagnostic and had none. \<open>done_ok\<close>
  and \<open>done_err\<close> say what is known of the new trace in either case.
\<close>

definition same_manager :: "string \<Rightarrow> u32 \<Rightarrow> IngressManager \<Rightarrow> bool" where
  "same_manager c p self \<longleftrightarrow> ig_chain_name self = c \<and> ig_netns_pid self = p"


lemma failed_inbound [simp]:
  "\<not> succeeded out \<Longrightarrow>
   inbound c p k0 (tr @ [Ran (build_nsenter_argv p (IpFamily_binary f) args) out]) = inbound c p k0 tr"
  by (simp add: fun_eq_iff inbound_ran)

lemma not_succeeded [simp]: "\<not> succeeded (Exited False s)" "\<not> succeeded (SpawnError e)"
  by (simp_all add: succeeded_def)

lemma failed_always [simp]:
  "\<not> succeeded out \<Longrightarrow>
   always_complete c p k0 (tr @ [Ran (build_nsenter_argv p (IpFamily_binary f) args) out]) \<longleftrightarrow>
     always_complete c p k0 tr"
  using always_last [of c p k0 tr] by (auto simp: always_snoc)


section \<open>Teardown against a truthful host\<close>

definition blocked :: "teardown_state \<Rightarrow> IpFamily \<Rightarrow> bool" where
  "blocked st f = ts_blocked st ! IpFamily_index f"

lemma index_less [simp]: "IpFamily_index f < 2"
  by (cases f) simp_all

lemma index_inj [simp]: "IpFamily_index f = IpFamily_index g \<longleftrightarrow> f = g"
  by (cases f; cases g) simp_all

lemma blocked_fail [simp]:
  "length (ts_blocked st) = 2 \<Longrightarrow> blocked (fail_step step m st) f \<longleftrightarrow> f = td_family step \<or> blocked st f"
  by (auto simp: blocked_def fail_step_def nth_list_update)

lemma fail_step_simps [simp]:
  "ts_self (fail_step step m st) = ts_self st" "ts_trace (fail_step step m st) = log_line m (ts_trace st)"
  "ts_failures (fail_step step m st) \<noteq> []" "length (ts_blocked (fail_step step m st)) = length (ts_blocked st)"
  by (simp_all add: fail_step_def)

lemma blocked_cong [simp]:
  "blocked (st\<lparr>ts_trace := tr\<rparr>) f = blocked st f" "blocked (st\<lparr>ts_self := self\<rparr>) f = blocked st f"
  "blocked (st\<lparr>ts_removed := b\<rparr>) f = blocked st f"
  by (simp_all add: blocked_def)

lemma flags_simps [simp]:
  "hooked g (clear_hooked f self) \<longleftrightarrow> g \<noteq> f \<and> hooked g self" "created g (clear_hooked f self) = created g self"
  "created g (clear_created f self) \<longleftrightarrow> g \<noteq> f \<and> created g self" "hooked g (clear_created f self) = hooked g self"
  "created g (set_created f self) \<longleftrightarrow> g = f \<or> created g self" "hooked g (set_created f self) = hooked g self"
  "hooked g (set_hooked f self) \<longleftrightarrow> g = f \<or> hooked g self" "created g (set_hooked f self) = created g self"
  by (cases f; cases g; simp)+

lemma same_manager_simps [simp]:
  "same_manager c p (clear_hooked f self) = same_manager c p self"
  "same_manager c p (clear_created f self) = same_manager c p self"
  "same_manager c p (set_created f self) = same_manager c p self"
  "same_manager c p (set_hooked f self) = same_manager c p self"
  by (cases f; simp add: same_manager_def)+


lemmas step_defs = TeardownStep_unhook_def TeardownStep_flush_def TeardownStep_delete_def







lemma pid_clear [simp]:
  "ig_netns_pid (clear_hooked f self) = ig_netns_pid self" "ig_netns_pid (clear_created f self) = ig_netns_pid self"
  "ig_netns_pid (set_created f self) = ig_netns_pid self" "ig_netns_pid (set_hooked f self) = ig_netns_pid self"
  "ig_netns_pid (clear_step_flag step self) = ig_netns_pid self"
  by (cases f; simp)+ (cases "td_kind step"; cases "td_family step"; simp add: clear_step_flag_def)











section \<open>A host that runs \<open>iptables\<close>\<close>






section \<open>Clean-up of a crashed run\<close>

lemma bad_rule_absent [simp]:
  "stderr_means_absent Unhook ''iptables: Bad rule (does a matching rule exist in that chain?).''"
  by code_simp

lemma no_chain_absent [simp]:
  "stderr_means_absent Flush ''iptables: No chain/target/match by that name.''"
  "stderr_means_absent Delete ''iptables: No chain/target/match by that name.''"
  by code_simp+







lemma step_family [simp]:
  "td_family (TeardownStep_unhook f c) = f" "td_family (TeardownStep_flush f c) = f"
  "td_family (TeardownStep_delete f c) = f"
  by (simp_all add: step_defs)






section \<open>Properties of the inbound firewall\<close>
















end
