(* ===== verification/Lxc_Bounded.thy ===== *)
theory Lxc_Bounded
  imports Lxc_Ingress
begin

text \<open>
  The inbound manager's operations end on every host: the loop that removes stale references stops after
  \<open>MAX_UNHOOK_ATTEMPTS\<close> deletions even when every one of them succeeds, and no other step repeats. The
  bounds count the commands an operation adds to the trace.
\<close>

fun is_command :: "fw_event \<Rightarrow> bool" where
  "is_command (Ran _ _) = True"
| "is_command _ = False"

text \<open>A trace grows by at most \<open>n\<close> commands, and nothing of it is rewritten.\<close>

definition grows :: "nat \<Rightarrow> fw_trace \<Rightarrow> fw_trace \<Rightarrow> bool" where
  "grows n tr tr' \<longleftrightarrow> (\<exists>events. tr' = tr @ events \<and> length (filter is_command events) \<le> n)"

lemma grows_refl: "grows n tr tr"
  by (simp add: grows_def)

lemma grows_log: "grows n tr (log_line line tr)"
  by (simp add: grows_def log_line_def)

lemma grows_trans: "grows n tr tr' \<Longrightarrow> grows m tr' tr'' \<Longrightarrow> grows (n + m) tr tr''"
  unfolding grows_def by force

lemma grows_mono: "grows n tr tr' \<Longrightarrow> n \<le> m \<Longrightarrow> grows m tr tr'"
  unfolding grows_def by force

lemma grows_then_log: "grows n tr tr' \<Longrightarrow> grows n tr (log_line line tr')"
  using grows_trans [OF _ grows_log [of 0]] by simp

lemma grows_from_log: "grows n (log_line line tr) tr' \<Longrightarrow> grows n tr tr'"
  using grows_trans [OF grows_log [of 0]] by simp

lemma run_grows: "grows 1 tr (snd (Ingress_run host self binary args tr))"
  by (simp add: Ingress_run_def NsenterRunner_run_def grows_def Let_def split: exec_result.split)

lemma run_grows': "Ingress_run host self binary args tr = (r, tr') \<Longrightarrow> grows 1 tr tr'"
  using run_grows [of tr host self binary args] by simp

lemma fail_step_trace: "ts_trace (fail_step step msg st) = log_line msg (ts_trace st)"
  by (simp add: fail_step_def)

lemma unhook_grows: "grows n (ts_trace st) (ts_trace (snd (unhook_attempts n host step st)))"
proof (induction n arbitrary: st)
  case 0
  show ?case by (simp add: grows_refl)
next
  case (Suc n)
  obtain r tr where run: "Ingress_run host (ts_self st) (IpFamily_binary (td_family step)) (td_args step) (ts_trace st) = (r, tr)"
    by fastforce
  have one: "grows (Suc n) (ts_trace st) tr" by (rule grows_mono [OF run_grows' [OF run]]) simp
  have "grows (Suc n) (ts_trace st) (ts_trace (snd (unhook_attempts n host step (st\<lparr>ts_removed := True, ts_trace := tr\<rparr>))))"
    using grows_trans [OF run_grows' [OF run] Suc [of "st\<lparr>ts_removed := True, ts_trace := tr\<rparr>", simplified]] by simp
  with one show ?case
    by (auto simp: run fail_step_trace grows_then_log split: sum.split RunError.split)
qed

definition step_commands :: "TeardownStep \<Rightarrow> nat" where
  "step_commands step = (if td_kind step = Unhook then MAX_UNHOOK_ATTEMPTS else 1)"

lemma step_grows: "grows (step_commands step) (ts_trace st) (ts_trace (teardown_step host st step))"
proof (cases "td_kind step = Unhook")
  case True
  obtain cleared st' where u: "unhook_attempts MAX_UNHOOK_ATTEMPTS host step st = (cleared, st')" by fastforce
  have "grows MAX_UNHOOK_ATTEMPTS (ts_trace st) (ts_trace st')"
    using unhook_grows [of MAX_UNHOOK_ATTEMPTS st host step] u by simp
  then show ?thesis
    by (simp add: teardown_step_def True u step_commands_def grows_refl fail_step_trace grows_then_log Let_def)
next
  case False
  obtain r tr where run: "Ingress_run host (ts_self st) (IpFamily_binary (td_family step)) (td_args step) (ts_trace st) = (r, tr)"
    by fastforce
  show ?thesis using run_grows' [OF run]
    by (simp add: teardown_step_def False run step_commands_def grows_refl fail_step_trace grows_then_log Let_def
        split: sum.split RunError.split)
qed

lemma steps_grow:
  "grows (sum_list (map step_commands steps)) (ts_trace st) (ts_trace (foldl (teardown_step host) st steps))"
proof (induction steps arbitrary: st)
  case (Cons step steps)
  show ?case using grows_trans [OF step_grows Cons] by simp
qed (simp add: grows_refl)

lemma execute_grows:
  "execute_teardown host self steps tr = (r, self', tr') \<Longrightarrow> grows (sum_list (map step_commands steps)) tr tr'"
  using steps_grow [of steps "\<lparr>ts_self = self, ts_failures = [], ts_blocked = [False, False], ts_removed = False, ts_trace = tr\<rparr>" host]
  by (auto simp: execute_teardown_def Let_def)

lemmas step_counts = step_commands_def TeardownStep_unhook_def TeardownStep_flush_def TeardownStep_delete_def

lemma remove_grows: "grows 260 tr (snd (snd (Ingress_remove_firewall_rules host self tr)))"
proof (cases "rules_applied self")
  case True
  let ?tr = "log_line (''Removing inbound iptables chain: '' @ ig_chain_name self) tr"
  obtain r self' tr' where e: "execute_teardown host self (owned_teardown_steps self) ?tr = (r, self', tr')"
    by (rule prod_cases3)
  have "sum_list (map step_commands (owned_teardown_steps self)) \<le> 260"
    by (simp add: owned_teardown_steps_def step_counts MAX_UNHOOK_ATTEMPTS_def)
  then have "grows 260 tr tr'" by (rule grows_mono [OF grows_from_log [OF execute_grows [OF e]]])
  then show ?thesis using True e by (cases r) (simp_all add: Ingress_remove_firewall_rules_def Let_def)
qed (simp add: Ingress_remove_firewall_rules_def grows_refl)

lemma run_logged_grows: "run_logged host self binary args tr = (r, tr') \<Longrightarrow> grows 1 tr tr'"
  using run_grows [of tr host self binary args]
  by (auto simp: run_logged_def grows_then_log split: prod.splits sum.splits)

lemma run_body_grows: "run_body host self binary rules tr = (r, tr') \<Longrightarrow> grows (length rules) tr tr'"
proof (induction rules arbitrary: tr)
  case (Cons rule rules)
  obtain r1 tr1 where run: "run_logged host self binary rule tr = (r1, tr1)" by fastforce
  note one = run_logged_grows [OF run]
  show ?case
  proof (cases r1)
    case (Inl e)
    then show ?thesis using Cons.prems run grows_mono [OF one] by simp
  next
    case (Inr _)
    then have "run_body host self binary rules tr1 = (r, tr')" using Cons.prems run by simp
    from grows_trans [OF one Cons.IH [OF this]] show ?thesis by simp
  qed
qed (simp add: grows_refl)

lemma reset_grows: "reset_family host fam self tr = (r, self', tr') \<Longrightarrow> grows 130 tr tr'"
proof -
  assume reset: "reset_family host fam self tr = (r, self', tr')"
  obtain r1 self1 tr1 where e: "execute_teardown host self (reset_steps fam (ig_chain_name self)) tr = (r1, self1, tr1)"
    by (rule prod_cases3)
  have "grows 130 tr tr1"
    using execute_grows [OF e] by (simp add: reset_steps_def step_counts MAX_UNHOOK_ATTEMPTS_def)
  then show ?thesis using reset e by (cases r1) (auto simp: reset_family_def grows_then_log split: if_splits)
qed

lemma install_grows:
  assumes "install_family host fam rules self tr = (r, self', tr')"
  shows "grows (132 + length (ir_body rules)) tr tr'"
proof -
  let ?binary = "IpFamily_binary fam" and ?n = "132 + length (ir_body rules)"
  obtain r1 self1 tr1 where e1: "reset_family host fam self tr = (r1, self1, tr1)" by (rule prod_cases3)
  obtain r2 tr2 where e2: "run_logged host self1 ?binary [''-N'', ig_chain_name self] tr1 = (r2, tr2)" by fastforce
  obtain r3 tr3 where e3: "run_body host (set_created fam self1) ?binary (ir_body rules) tr2 = (r3, tr3)" by fastforce
  obtain r4 tr4 where e4: "run_logged host (set_created fam self1) ?binary (ir_hook rules) tr3 = (r4, tr4)" by fastforce
  note g1 = reset_grows [OF e1]
  note g2 = grows_trans [OF g1 run_logged_grows [OF e2]]
  note g3 = grows_trans [OF g2 run_body_grows [OF e3]]
  note g4 = grows_trans [OF g3 run_logged_grows [OF e4]]
  have "grows ?n tr tr1" "grows ?n tr tr2" "grows ?n tr tr3" "grows ?n tr tr4"
    by (rule grows_mono [OF g1], simp) (rule grows_mono [OF g2], simp, rule grows_mono [OF g3], simp, rule grows_mono [OF g4], simp)
  then show ?thesis using assms e1 e2 e3 e4
    by (auto simp: install_family_def Let_def split: sum.splits)
qed

lemma status_grows: "container_ip6tables_status host self tr = (status, tr') \<Longrightarrow> grows 1 tr tr'"
  using run_grows [of tr host self "''ip6tables''" "[''-S'']"]
  by (auto simp: container_ip6tables_status_def container_ip6tables_probe_succeeded_def grows_then_log Let_def
      split: prod.splits sum.splits if_splits)

lemma body_lengths:
  "length (ir_body (build_ingress_rules c V4)) = 4" "length (ir_body (build_ingress_rules c V6)) = 16"
  by (simp_all add: build_ingress_rules_def ICMPV6_ALLOW_TYPES_def)

lemma apply_grows: "grows 285 tr (snd (snd (Ingress_apply_firewall_rules host self policy tr)))"
proof (cases "installs_firewall (plan_network policy) \<and> permissive_inbound_field policy = None")
  case False
  then show ?thesis
    by (auto simp: Ingress_apply_firewall_rules_def grows_refl grows_log split: option.split)
next
  case True
  define tr0 where "tr0 = log_line ''Inbound (network.ingress) policy: DROP new inbound connections (default-deny)''
      (log_line (''Creating inbound iptables chain: '' @ ig_chain_name self) tr)"
  obtain status tr1 where s: "container_ip6tables_status host self tr0 = (status, tr1)" by fastforce
  define tr2 where "tr2 = (if status = KernelIpv6Disabled
      then log_line (''ip6tables unusable and no live IPv6 stack in the container namespace; '' @
        ''enforcing the IPv4 inbound policy only.'') tr1 else tr1)"
  obtain r3 self3 tr3 where e3: "install_family host V4 (build_ingress_rules (ig_chain_name self) V4) self tr2 = (r3, self3, tr3)"
    by (rule prod_cases3)
  obtain r4 self4 tr4 where e4: "install_family host V6 (build_ingress_rules (ig_chain_name self3) V6) self3 tr3 = (r4, self4, tr4)"
    by (rule prod_cases3)
  have "grows 1 tr tr1" by (rule grows_from_log, rule grows_from_log) (use status_grows [OF s] in \<open>simp only: tr0_def\<close>)
  then have g2: "grows 1 tr tr2" by (simp add: tr2_def grows_then_log)
  note g3 = grows_trans [OF g2 install_grows [OF e3], unfolded body_lengths]
  note g4 = grows_trans [OF g3 install_grows [OF e4], unfolded body_lengths]
  have "grows 285 tr tr2" "grows 285 tr tr3" "grows 285 tr tr4"
    by (rule grows_mono [OF g2], simp) (rule grows_mono [OF g3], simp, rule grows_mono [OF g4], simp)
  moreover have "snd (snd (Ingress_apply_firewall_rules host self policy tr)) =
      (if status = UnusableButIpv6Active then tr2
       else if isl r3 \<or> status \<noteq> Available then tr3 else tr4)"
    unfolding Ingress_apply_firewall_rules_def Let_def tr0_def [symmetric] s prod.case tr2_def [symmetric] e3
    using True e4 by (cases r3; cases r4) simp_all
  ultimately show ?thesis by simp
qed

text \<open>
  C40: Every operation of the inbound manager ends, on every host, however its commands fail or succeed:
  removal, the clean-up on drop and the clean-up of a crashed run issue at most 260 commands, an
  application at most 285, and none of them rewrites the trace before it. In particular a host that
  reports every deletion of a stale reference as successful does not keep the removal loop running.
\<close>

theorem ingress_operations_end:
  "grows 260 tr (snd (snd (Ingress_remove_firewall_rules host self tr))) \<and>
   grows 260 tr (drop_ingress host self tr) \<and>
   grows 260 tr (Ingress_force_cleanup sha host container_name netns_pid tr) \<and>
   grows 285 tr (snd (snd (Ingress_apply_firewall_rules host self policy tr)))"
  by (simp add: drop_ingress_def Ingress_force_cleanup_def remove_grows apply_grows grows_refl)

end
