(* ===== verification/Seccomp.thy ===== *)
theory Seccomp
  imports Prelude "HOL-Library.Monad_Syntax"
begin

text \<open>
  \<open>seccomp_filter.rs\<close>: the system-call filter every Bubblewrap sandbox runs under. The code assembles a
  classic BPF program with forward jumps patched in afterwards, and writes it as packed records. The
  program is assembled here instruction by instruction, a jump that does not fit or does not point
  forward is the panic of \<open>set_true_target\<close>, and the results are about running the program on any
  system call.
\<close>

section \<open>Constants\<close>

definition BPF_LD_W_ABS :: u16 where "BPF_LD_W_ABS = 0x20"
definition BPF_ALU_AND_K :: u16 where "BPF_ALU_AND_K = 0x54"
definition BPF_JMP_JEQ_K :: u16 where "BPF_JMP_JEQ_K = 0x15"
definition BPF_RET_K :: u16 where "BPF_RET_K = 0x06"

definition SECCOMP_RET_ERRNO :: u32 where "SECCOMP_RET_ERRNO = 0x00050000"
definition SECCOMP_RET_ALLOW :: u32 where "SECCOMP_RET_ALLOW = 0x7fff0000"
definition EPERM :: u32 where "EPERM = 1"
definition ENOSYS :: u32 where "ENOSYS = 38"

definition SECCOMP_DATA_NR_OFFSET :: u32 where "SECCOMP_DATA_NR_OFFSET = 0"
definition SECCOMP_DATA_ARCH_OFFSET :: u32 where "SECCOMP_DATA_ARCH_OFFSET = 4"
definition SECCOMP_DATA_ARG0_LOW_OFFSET :: u32 where "SECCOMP_DATA_ARG0_LOW_OFFSET = 16"

definition AUDIT_ARCH_X86_64 :: u32 where "AUDIT_ARCH_X86_64 = 0xc000003e"
definition AUDIT_ARCH_I386 :: u32 where "AUDIT_ARCH_I386 = 0x40000003"
definition AUDIT_ARCH_AARCH64 :: u32 where "AUDIT_ARCH_AARCH64 = 0xc00000b7"
definition AUDIT_ARCH_ARM :: u32 where "AUDIT_ARCH_ARM = 0x40000028"
definition X32_SYSCALL_BIT :: u32 where "X32_SYSCALL_BIT = 0x40000000"

definition X86_64_SOCKET :: u32 where "X86_64_SOCKET = 41"
definition X86_64_SOCKETPAIR :: u32 where "X86_64_SOCKETPAIR = 53"
definition I386_SOCKETCALL :: u32 where "I386_SOCKETCALL = 102"
definition I386_SOCKET :: u32 where "I386_SOCKET = 359"
definition I386_SOCKETPAIR :: u32 where "I386_SOCKETPAIR = 360"
definition SOCKETCALL_SOCKET :: u32 where "SOCKETCALL_SOCKET = 1"
definition SOCKETCALL_SOCKETPAIR :: u32 where "SOCKETCALL_SOCKETPAIR = 8"
definition AARCH64_SOCKET :: u32 where "AARCH64_SOCKET = 198"
definition AARCH64_SOCKETPAIR :: u32 where "AARCH64_SOCKETPAIR = 199"
definition ARM_SOCKET :: u32 where "ARM_SOCKET = 281"
definition ARM_SOCKETPAIR :: u32 where "ARM_SOCKETPAIR = 288"

definition IO_URING_SYSCALLS :: "u32 list" where "IO_URING_SYSCALLS = [425, 426, 427]"

text \<open>\<open>AF_UNIX\<close>, \<open>AF_INET\<close>, \<open>AF_INET6\<close> and \<open>AF_NETLINK\<close>.\<close>

definition ALLOWED_FAMILIES :: "u32 list" where "ALLOWED_FAMILIES = [1, 2, 10, 16]"

lemmas seccomp_constants =
  BPF_LD_W_ABS_def BPF_ALU_AND_K_def BPF_JMP_JEQ_K_def BPF_RET_K_def SECCOMP_RET_ERRNO_def
  SECCOMP_RET_ALLOW_def EPERM_def ENOSYS_def SECCOMP_DATA_NR_OFFSET_def SECCOMP_DATA_ARCH_OFFSET_def
  SECCOMP_DATA_ARG0_LOW_OFFSET_def AUDIT_ARCH_X86_64_def AUDIT_ARCH_I386_def AUDIT_ARCH_AARCH64_def
  AUDIT_ARCH_ARM_def X32_SYSCALL_BIT_def X86_64_SOCKET_def X86_64_SOCKETPAIR_def I386_SOCKETCALL_def
  I386_SOCKET_def I386_SOCKETPAIR_def SOCKETCALL_SOCKET_def SOCKETCALL_SOCKETPAIR_def AARCH64_SOCKET_def
  AARCH64_SOCKETPAIR_def ARM_SOCKET_def ARM_SOCKETPAIR_def IO_URING_SYSCALLS_def ALLOWED_FAMILIES_def

section \<open>Instructions\<close>

record Instruction =
  bi_code :: u16
  bi_jump_if_true :: u8
  bi_jump_if_false :: u8
  bi_value :: u32

definition Instruction_statement :: "u16 \<Rightarrow> u32 \<Rightarrow> Instruction" where
  "Instruction_statement code value =
     \<lparr>bi_code = code, bi_jump_if_true = 0, bi_jump_if_false = 0, bi_value = value\<rparr>"

definition Instruction_jump :: "u16 \<Rightarrow> u32 \<Rightarrow> Instruction" where
  "Instruction_jump code value =
     \<lparr>bi_code = code, bi_jump_if_true = 0, bi_jump_if_false = 0, bi_value = value\<rparr>"

text \<open>\<open>to_ne_bytes\<close> on the two supported architectures, which are little-endian.\<close>

definition ne_bytes16 :: "u16 \<Rightarrow> u8 list" where
  "ne_bytes16 x = [ucast x, ucast (drop_bit 8 x)]"

definition ne_bytes32 :: "u32 \<Rightarrow> u8 list" where
  "ne_bytes32 x = [ucast x, ucast (drop_bit 8 x), ucast (drop_bit 16 x), ucast (drop_bit 24 x)]"

definition Instruction_encode :: "Instruction \<Rightarrow> u8 list \<Rightarrow> u8 list" where
  "Instruction_encode self output =
     output @ ne_bytes16 (bi_code self) @ [bi_jump_if_true self] @ [bi_jump_if_false self] @
     ne_bytes32 (bi_value self)"

section \<open>Assembly\<close>

datatype NativeArchitecture = X86_64 | Aarch64

definition errno :: "u32 \<Rightarrow> u32" where
  "errno value = or SECCOMP_RET_ERRNO value"

text \<open>\<open>None\<close> is a panic: an index out of range, a backward jump, or an offset above 255.\<close>

definition set_true_target :: "Instruction list \<Rightarrow> nat \<Rightarrow> nat \<Rightarrow> Instruction list option" where
  "set_true_target program source target =
     (if source < length program \<and> source < target \<and> target - source - 1 < 256
      then Some (program[source := (program ! source)\<lparr>bi_jump_if_true := of_nat (target - source - 1)\<rparr>])
      else None)"

fun set_true_targets :: "Instruction list \<Rightarrow> nat list \<Rightarrow> nat \<Rightarrow> Instruction list option" where
  "set_true_targets program [] target = Some program"
| "set_true_targets program (source # sources) target = do {
     program \<leftarrow> set_true_target program source target;
     set_true_targets program sources target }"

fun push_jumps :: "Instruction list \<Rightarrow> u32 list \<Rightarrow> nat list \<times> Instruction list" where
  "push_jumps program [] = ([], program)"
| "push_jumps program (number # numbers) =
     (let index = length program;
          (indices, program) = push_jumps (program @ [Instruction_jump BPF_JMP_JEQ_K number]) numbers
      in (index # indices, program))"

definition push_io_uring_checks :: "Instruction list \<Rightarrow> nat list \<times> Instruction list" where
  "push_io_uring_checks program = push_jumps program IO_URING_SYSCALLS"

definition append_io_uring_denial :: "Instruction list \<Rightarrow> nat list \<Rightarrow> Instruction list option" where
  "append_io_uring_denial program checks =
     (let deny = length program;
          program = program @ [Instruction_statement BPF_RET_K (errno ENOSYS)]
      in set_true_targets program checks deny)"

definition append_family_filter :: "Instruction list \<Rightarrow> (nat \<times> Instruction list) option" where
  "append_family_filter program =
     (let family_check = length program;
          program = program @ [Instruction_statement BPF_LD_W_ABS SECCOMP_DATA_ARG0_LOW_OFFSET];
          (family_jumps, program) = push_jumps program ALLOWED_FAMILIES;
          program = program @ [Instruction_statement BPF_RET_K (errno EPERM)];
          allow = length program;
          program = program @ [Instruction_statement BPF_RET_K SECCOMP_RET_ALLOW]
      in do {
        program \<leftarrow> set_true_targets program family_jumps allow;
        Some (family_check, program) })"

definition build_x86_program :: "Instruction list option" where
  "build_x86_program = do {
     let program = [Instruction_statement BPF_LD_W_ABS SECCOMP_DATA_ARCH_OFFSET];
     let x86_64_arch_check = length program;
     let program = program @ [Instruction_jump BPF_JMP_JEQ_K AUDIT_ARCH_X86_64];
     let i386_arch_check = length program;
     let program = program @ [Instruction_jump BPF_JMP_JEQ_K AUDIT_ARCH_I386];
     let program = program @ [Instruction_statement BPF_RET_K (errno ENOSYS)];
     let x86_64_start = length program;
     program \<leftarrow> set_true_target program x86_64_arch_check x86_64_start;
     let program = program @ [Instruction_statement BPF_LD_W_ABS SECCOMP_DATA_NR_OFFSET,
       Instruction_statement BPF_ALU_AND_K (not X32_SYSCALL_BIT)];
     let x86_64_socket = length program;
     let program = program @ [Instruction_jump BPF_JMP_JEQ_K X86_64_SOCKET];
     let x86_64_socketpair = length program;
     let program = program @ [Instruction_jump BPF_JMP_JEQ_K X86_64_SOCKETPAIR];
     let (io_uring_checks, program) = push_io_uring_checks program;
     let program = program @ [Instruction_statement BPF_RET_K SECCOMP_RET_ALLOW];
     let i386_start = length program;
     program \<leftarrow> set_true_target program i386_arch_check i386_start;
     let program = program @ [Instruction_statement BPF_LD_W_ABS SECCOMP_DATA_NR_OFFSET];
     let i386_socket = length program;
     let program = program @ [Instruction_jump BPF_JMP_JEQ_K I386_SOCKET];
     let i386_socketpair = length program;
     let program = program @ [Instruction_jump BPF_JMP_JEQ_K I386_SOCKETPAIR];
     let i386_socketcall = length program;
     let program = program @ [Instruction_jump BPF_JMP_JEQ_K I386_SOCKETCALL];
     let (i386_checks, program) = push_io_uring_checks program;
     let io_uring_checks = io_uring_checks @ i386_checks;
     let program = program @ [Instruction_statement BPF_RET_K SECCOMP_RET_ALLOW];
     let socketcall_check = length program;
     program \<leftarrow> set_true_target program i386_socketcall socketcall_check;
     let program = program @ [Instruction_statement BPF_LD_W_ABS SECCOMP_DATA_ARG0_LOW_OFFSET];
     let program = program @ [Instruction_jump BPF_JMP_JEQ_K SOCKETCALL_SOCKET];
     let socketcall_socket = length program - 1;
     let program = program @ [Instruction_jump BPF_JMP_JEQ_K SOCKETCALL_SOCKETPAIR];
     let socketcall_socketpair = length program - 1;
     let program = program @ [Instruction_statement BPF_RET_K SECCOMP_RET_ALLOW];
     let deny_socketcall_creation = length program;
     let program = program @ [Instruction_statement BPF_RET_K (errno EPERM)];
     program \<leftarrow> set_true_target program socketcall_socket deny_socketcall_creation;
     program \<leftarrow> set_true_target program socketcall_socketpair deny_socketcall_creation;
     (family_check, program) \<leftarrow> append_family_filter program;
     program \<leftarrow> set_true_targets program [x86_64_socket, x86_64_socketpair, i386_socket, i386_socketpair]
       family_check;
     append_io_uring_denial program io_uring_checks }"

definition build_aarch64_program :: "Instruction list option" where
  "build_aarch64_program = do {
     let program = [Instruction_statement BPF_LD_W_ABS SECCOMP_DATA_ARCH_OFFSET];
     let aarch64_arch_check = length program;
     let program = program @ [Instruction_jump BPF_JMP_JEQ_K AUDIT_ARCH_AARCH64];
     let arm_arch_check = length program;
     let program = program @ [Instruction_jump BPF_JMP_JEQ_K AUDIT_ARCH_ARM];
     let program = program @ [Instruction_statement BPF_RET_K (errno ENOSYS)];
     let aarch64_start = length program;
     program \<leftarrow> set_true_target program aarch64_arch_check aarch64_start;
     let program = program @ [Instruction_statement BPF_LD_W_ABS SECCOMP_DATA_NR_OFFSET];
     let aarch64_socket = length program;
     let program = program @ [Instruction_jump BPF_JMP_JEQ_K AARCH64_SOCKET];
     let aarch64_socketpair = length program;
     let program = program @ [Instruction_jump BPF_JMP_JEQ_K AARCH64_SOCKETPAIR];
     let (io_uring_checks, program) = push_io_uring_checks program;
     let program = program @ [Instruction_statement BPF_RET_K SECCOMP_RET_ALLOW];
     let arm_start = length program;
     program \<leftarrow> set_true_target program arm_arch_check arm_start;
     let program = program @ [Instruction_statement BPF_LD_W_ABS SECCOMP_DATA_NR_OFFSET];
     let arm_socket = length program;
     let program = program @ [Instruction_jump BPF_JMP_JEQ_K ARM_SOCKET];
     let arm_socketpair = length program;
     let program = program @ [Instruction_jump BPF_JMP_JEQ_K ARM_SOCKETPAIR];
     let (arm_checks, program) = push_io_uring_checks program;
     let io_uring_checks = io_uring_checks @ arm_checks;
     let program = program @ [Instruction_statement BPF_RET_K SECCOMP_RET_ALLOW];
     (family_check, program) \<leftarrow> append_family_filter program;
     program \<leftarrow> set_true_targets program [aarch64_socket, aarch64_socketpair, arm_socket, arm_socketpair]
       family_check;
     append_io_uring_denial program io_uring_checks }"

fun build_program :: "NativeArchitecture \<Rightarrow> Instruction list option" where
  "build_program X86_64 = build_x86_program"
| "build_program Aarch64 = build_aarch64_program"

definition unsupported_architecture :: "string \<Rightarrow> string option" where
  "unsupported_architecture architecture =
     (if \<not> (architecture = ''x86_64'' \<or> architecture = ''aarch64'') then Some architecture else None)"

text \<open>
  \<open>native_program\<close>: the outer option is the panic of \<open>set_true_target\<close>, the sum the result. The
  architecture is that of the build.
\<close>

definition native_program :: "string \<Rightarrow> (string + Instruction list) option" where
  "native_program arch =
     (case unsupported_architecture arch of
        Some architecture \<Rightarrow>
          Some (Err (''Bubblewrap: seccomp address-family filtering is unsupported on '' @ architecture))
      | None \<Rightarrow>
          if arch = ''x86_64'' then map_option Ok (build_program X86_64)
          else map_option Ok (build_program Aarch64))"

text \<open>The bytes \<open>create_file\<close> writes.\<close>

definition filter_bytes :: "Instruction list \<Rightarrow> u8 list" where
  "filter_bytes program = foldl (\<lambda>bytes instruction. Instruction_encode instruction bytes) [] program"

section \<open>Running a filter\<close>

text \<open>
  The part of \<open>struct seccomp_data\<close> the filter reads, and the four instructions it uses as the kernel
  runs them: \<open>None\<close> is a program the kernel would refuse, one that leaves its range, reads outside the
  data, or has another instruction. Jumps only go forward, so the distance to the end decreases.
\<close>

record seccomp_data =
  sd_nr :: u32
  sd_arch :: u32
  sd_arg0 :: u64

definition load_word :: "seccomp_data \<Rightarrow> u32 \<Rightarrow> u32 option" where
  "load_word d off =
     (if off = 0 then Some (sd_nr d) else if off = 4 then Some (sd_arch d)
      else if off = 16 then Some (ucast (sd_arg0 d)) else None)"

function run_filter :: "Instruction list \<Rightarrow> seccomp_data \<Rightarrow> nat \<Rightarrow> u32 \<Rightarrow> u32 option" where
  "run_filter program d pc acc =
     (if length program \<le> pc then None
      else
        let i = program ! pc in
        if bi_code i = BPF_RET_K then Some (bi_value i)
        else if bi_code i = BPF_LD_W_ABS then
          (case load_word d (bi_value i) of
             Some w \<Rightarrow> run_filter program d (pc + 1) w
           | None \<Rightarrow> None)
        else if bi_code i = BPF_ALU_AND_K then run_filter program d (pc + 1) (and acc (bi_value i))
        else if bi_code i = BPF_JMP_JEQ_K then
          run_filter program d
            (pc + 1 + unat (if acc = bi_value i then bi_jump_if_true i else bi_jump_if_false i)) acc
        else None)"
  by pat_completeness auto
termination
  by (relation "measure (\<lambda>(program, d, pc, acc). length program - pc)") auto

declare run_filter.simps [simp del]

section \<open>What the filter decides\<close>

text \<open>
  The policy, independently of the program: a system call of an architecture that is neither the
  native one nor its 32-bit companion does not exist; creating a socket is permitted for the four
  families, read as a 32-bit number; \<open>io_uring\<close> does not exist; everything else is allowed. On x86-64 the
  x32 bit of the number is ignored, and \<open>socketcall\<close>, whose family is behind a pointer, may not create
  sockets at all.
\<close>

definition family_verdict :: "u64 \<Rightarrow> u32" where
  "family_verdict arg = (if (ucast arg :: u32) \<in> set ALLOWED_FAMILIES then SECCOMP_RET_ALLOW else errno EPERM)"

definition abi_verdict :: "u32 set \<Rightarrow> u32 \<Rightarrow> u64 \<Rightarrow> u32" where
  "abi_verdict socket_calls nr arg =
     (if nr \<in> socket_calls then family_verdict arg
      else if nr \<in> set IO_URING_SYSCALLS then errno ENOSYS
      else SECCOMP_RET_ALLOW)"

fun filter_verdict :: "NativeArchitecture \<Rightarrow> seccomp_data \<Rightarrow> u32" where
  "filter_verdict X86_64 d =
     (if sd_arch d = AUDIT_ARCH_X86_64 then
        abi_verdict {X86_64_SOCKET, X86_64_SOCKETPAIR} (and (sd_nr d) (not X32_SYSCALL_BIT)) (sd_arg0 d)
      else if sd_arch d = AUDIT_ARCH_I386 then
        (if sd_nr d = I386_SOCKETCALL then
           (if (ucast (sd_arg0 d) :: u32) \<in> {SOCKETCALL_SOCKET, SOCKETCALL_SOCKETPAIR} then errno EPERM
            else SECCOMP_RET_ALLOW)
         else abi_verdict {I386_SOCKET, I386_SOCKETPAIR} (sd_nr d) (sd_arg0 d))
      else errno ENOSYS)"
| "filter_verdict Aarch64 d =
     (if sd_arch d = AUDIT_ARCH_AARCH64 then abi_verdict {AARCH64_SOCKET, AARCH64_SOCKETPAIR} (sd_nr d) (sd_arg0 d)
      else if sd_arch d = AUDIT_ARCH_ARM then abi_verdict {ARM_SOCKET, ARM_SOCKETPAIR} (sd_nr d) (sd_arg0 d)
      else errno ENOSYS)"

definition ins :: "u16 \<times> u8 \<times> u32 \<Rightarrow> Instruction" where
  "ins t = \<lparr>bi_code = fst t, bi_jump_if_true = fst (snd t), bi_jump_if_false = 0, bi_value = snd (snd t)\<rparr>"

text \<open>The assembled programs, jumps resolved.\<close>

definition x86_code :: "(u16 \<times> u8 \<times> u32) list" where
  "x86_code =
     [(32, 0, 4), (21, 2, 3221225534), (21, 9, 1073741827), (6, 0, 327718),
      (32, 0, 0), (84, 0, 3221225471), (21, 18, 41), (21, 17, 53),
      (21, 23, 425), (21, 22, 426), (21, 21, 427), (6, 0, 2147418112),
      (32, 0, 0), (21, 11, 359), (21, 10, 360), (21, 4, 102), (21, 15, 425),
      (21, 14, 426), (21, 13, 427), (6, 0, 2147418112), (32, 0, 16),
      (21, 2, 1), (21, 1, 8), (6, 0, 2147418112), (6, 0, 327681), (32, 0, 16),
      (21, 4, 1), (21, 3, 2), (21, 2, 10), (21, 1, 16), (6, 0, 327681),
      (6, 0, 2147418112), (6, 0, 327718)]"

definition aarch64_code :: "(u16 \<times> u8 \<times> u32) list" where
  "aarch64_code =
     [(32, 0, 4), (21, 2, 3221225655), (21, 8, 1073741864), (6, 0, 327718),
      (32, 0, 0), (21, 12, 198), (21, 11, 199), (21, 17, 425), (21, 16, 426),
      (21, 15, 427), (6, 0, 2147418112), (32, 0, 0), (21, 5, 281),
      (21, 4, 288), (21, 10, 425), (21, 9, 426), (21, 8, 427),
      (6, 0, 2147418112), (32, 0, 16), (21, 4, 1), (21, 3, 2), (21, 2, 10),
      (21, 1, 16), (6, 0, 327681), (6, 0, 2147418112), (6, 0, 327718)]"

lemma build_x86: "build_x86_program = Some (map ins x86_code)"
  by code_simp

lemma build_aarch64: "build_aarch64_program = Some (map ins aarch64_code)"
  by code_simp

lemma run_ins:
  assumes "pc < length code"
  shows "run_filter (map ins code) d pc acc =
    (case code ! pc of (c, t, v) \<Rightarrow>
       if c = 6 then Some v
       else if c = 32 then
         (case load_word d v of Some w \<Rightarrow> run_filter (map ins code) d (pc + 1) w | None \<Rightarrow> None)
       else if c = 84 then run_filter (map ins code) d (pc + 1) (and acc v)
       else if c = 21 then
         (if acc = v then run_filter (map ins code) d (pc + 1 + unat t) acc
          else run_filter (map ins code) d (pc + 1) acc)
       else None)"
  using assms
  by (subst run_filter.simps) (simp add: ins_def seccomp_constants Let_def split: prod.splits)

lemma run_ret:
  "pc < length code \<Longrightarrow> fst (code ! pc) = 6 \<Longrightarrow> snd (snd (code ! pc)) = v \<Longrightarrow>
   run_filter (map ins code) d pc acc = Some v"
  by (cases "code ! pc") (simp add: run_ins)

lemma run_jump:
  "pc < length code \<Longrightarrow> fst (code ! pc) = 21 \<Longrightarrow> snd (snd (code ! pc)) = v \<Longrightarrow>
   j = pc + 1 + unat (fst (snd (code ! pc))) \<Longrightarrow> k = pc + 1 \<Longrightarrow>
   run_filter (map ins code) d pc acc =
     (if acc = v then run_filter (map ins code) d j acc else run_filter (map ins code) d k acc)"
  by (cases "code ! pc") (simp add: run_ins)

lemma run_and:
  "pc < length code \<Longrightarrow> fst (code ! pc) = 84 \<Longrightarrow> snd (snd (code ! pc)) = v \<Longrightarrow> k = pc + 1 \<Longrightarrow>
   run_filter (map ins code) d pc acc = run_filter (map ins code) d k (and acc v)"
  by (cases "code ! pc") (simp add: run_ins)

lemma run_load:
  "pc < length code \<Longrightarrow> fst (code ! pc) = 32 \<Longrightarrow> load_word d (snd (snd (code ! pc))) = Some w \<Longrightarrow> k = pc + 1 \<Longrightarrow>
   run_filter (map ins code) d pc acc = run_filter (map ins code) d k w"
  by (cases "code ! pc") (simp add: run_ins)

lemma x86_nth:
  "x86_code ! 0 = (32, 0, 4)" "x86_code ! (Suc 0) = (21, 2, 3221225534)" "x86_code ! 2 = (21, 9, 1073741827)"
  "x86_code ! 3 = (6, 0, 327718)" "x86_code ! 4 = (32, 0, 0)" "x86_code ! 5 = (84, 0, 3221225471)"
  "x86_code ! 6 = (21, 18, 41)" "x86_code ! 7 = (21, 17, 53)" "x86_code ! 8 = (21, 23, 425)"
  "x86_code ! 9 = (21, 22, 426)" "x86_code ! 10 = (21, 21, 427)" "x86_code ! 11 = (6, 0, 2147418112)"
  "x86_code ! 12 = (32, 0, 0)" "x86_code ! 13 = (21, 11, 359)" "x86_code ! 14 = (21, 10, 360)"
  "x86_code ! 15 = (21, 4, 102)" "x86_code ! 16 = (21, 15, 425)" "x86_code ! 17 = (21, 14, 426)"
  "x86_code ! 18 = (21, 13, 427)" "x86_code ! 19 = (6, 0, 2147418112)" "x86_code ! 20 = (32, 0, 16)"
  "x86_code ! 21 = (21, 2, 1)" "x86_code ! 22 = (21, 1, 8)" "x86_code ! 23 = (6, 0, 2147418112)"
  "x86_code ! 24 = (6, 0, 327681)" "x86_code ! 25 = (32, 0, 16)" "x86_code ! 26 = (21, 4, 1)"
  "x86_code ! 27 = (21, 3, 2)" "x86_code ! 28 = (21, 2, 10)" "x86_code ! 29 = (21, 1, 16)"
  "x86_code ! 30 = (6, 0, 327681)" "x86_code ! 31 = (6, 0, 2147418112)" "x86_code ! 32 = (6, 0, 327718)"
  "length x86_code = 33"
  by (simp_all add: x86_code_def)

abbreviation x86_at :: "seccomp_data \<Rightarrow> nat \<Rightarrow> u32 \<Rightarrow> u32 option" where
  "x86_at d pc acc \<equiv> run_filter (map ins x86_code) d pc acc"

lemma x86_step:
  "x86_at d 0 acc = x86_at d 1 (sd_arch d)"
  "x86_at d 1 acc = (if acc = 3221225534 then x86_at d 4 acc else x86_at d 2 acc)"
  "x86_at d 2 acc = (if acc = 1073741827 then x86_at d 12 acc else x86_at d 3 acc)"
  "x86_at d 3 acc = Some 327718"
  "x86_at d 4 acc = x86_at d 5 (sd_nr d)"
  "x86_at d 5 acc = x86_at d 6 (and acc 3221225471)"
  "x86_at d 6 acc = (if acc = 41 then x86_at d 25 acc else x86_at d 7 acc)"
  "x86_at d 7 acc = (if acc = 53 then x86_at d 25 acc else x86_at d 8 acc)"
  "x86_at d 8 acc = (if acc = 425 then x86_at d 32 acc else x86_at d 9 acc)"
  "x86_at d 9 acc = (if acc = 426 then x86_at d 32 acc else x86_at d 10 acc)"
  "x86_at d 10 acc = (if acc = 427 then x86_at d 32 acc else x86_at d 11 acc)"
  "x86_at d 11 acc = Some 2147418112"
  "x86_at d 12 acc = x86_at d 13 (sd_nr d)"
  "x86_at d 13 acc = (if acc = 359 then x86_at d 25 acc else x86_at d 14 acc)"
  "x86_at d 14 acc = (if acc = 360 then x86_at d 25 acc else x86_at d 15 acc)"
  "x86_at d 15 acc = (if acc = 102 then x86_at d 20 acc else x86_at d 16 acc)"
  "x86_at d 16 acc = (if acc = 425 then x86_at d 32 acc else x86_at d 17 acc)"
  "x86_at d 17 acc = (if acc = 426 then x86_at d 32 acc else x86_at d 18 acc)"
  "x86_at d 18 acc = (if acc = 427 then x86_at d 32 acc else x86_at d 19 acc)"
  "x86_at d 19 acc = Some 2147418112"
  "x86_at d 20 acc = x86_at d 21 (ucast (sd_arg0 d))"
  "x86_at d 21 acc = (if acc = 1 then x86_at d 24 acc else x86_at d 22 acc)"
  "x86_at d 22 acc = (if acc = 8 then x86_at d 24 acc else x86_at d 23 acc)"
  "x86_at d 23 acc = Some 2147418112"
  "x86_at d 24 acc = Some 327681"
  "x86_at d 25 acc = x86_at d 26 (ucast (sd_arg0 d))"
  "x86_at d 26 acc = (if acc = 1 then x86_at d 31 acc else x86_at d 27 acc)"
  "x86_at d 27 acc = (if acc = 2 then x86_at d 31 acc else x86_at d 28 acc)"
  "x86_at d 28 acc = (if acc = 10 then x86_at d 31 acc else x86_at d 29 acc)"
  "x86_at d 29 acc = (if acc = 16 then x86_at d 31 acc else x86_at d 30 acc)"
  "x86_at d 30 acc = Some 327681"
  "x86_at d 31 acc = Some 2147418112"
  "x86_at d 32 acc = Some 327718"
  by (rule run_ret run_jump run_and run_load; simp add: x86_nth load_word_def)+

lemma aarch64_nth:
  "aarch64_code ! 0 = (32, 0, 4)" "aarch64_code ! (Suc 0) = (21, 2, 3221225655)"
  "aarch64_code ! 2 = (21, 8, 1073741864)" "aarch64_code ! 3 = (6, 0, 327718)"
  "aarch64_code ! 4 = (32, 0, 0)" "aarch64_code ! 5 = (21, 12, 198)" "aarch64_code ! 6 = (21, 11, 199)"
  "aarch64_code ! 7 = (21, 17, 425)" "aarch64_code ! 8 = (21, 16, 426)" "aarch64_code ! 9 = (21, 15, 427)"
  "aarch64_code ! 10 = (6, 0, 2147418112)" "aarch64_code ! 11 = (32, 0, 0)"
  "aarch64_code ! 12 = (21, 5, 281)" "aarch64_code ! 13 = (21, 4, 288)" "aarch64_code ! 14 = (21, 10, 425)"
  "aarch64_code ! 15 = (21, 9, 426)" "aarch64_code ! 16 = (21, 8, 427)"
  "aarch64_code ! 17 = (6, 0, 2147418112)" "aarch64_code ! 18 = (32, 0, 16)" "aarch64_code ! 19 = (21, 4, 1)"
  "aarch64_code ! 20 = (21, 3, 2)" "aarch64_code ! 21 = (21, 2, 10)" "aarch64_code ! 22 = (21, 1, 16)"
  "aarch64_code ! 23 = (6, 0, 327681)" "aarch64_code ! 24 = (6, 0, 2147418112)"
  "aarch64_code ! 25 = (6, 0, 327718)"
  "length aarch64_code = 26"
  by (simp_all add: aarch64_code_def)

abbreviation aarch64_at :: "seccomp_data \<Rightarrow> nat \<Rightarrow> u32 \<Rightarrow> u32 option" where
  "aarch64_at d pc acc \<equiv> run_filter (map ins aarch64_code) d pc acc"

lemma aarch64_step:
  "aarch64_at d 0 acc = aarch64_at d 1 (sd_arch d)"
  "aarch64_at d 1 acc = (if acc = 3221225655 then aarch64_at d 4 acc else aarch64_at d 2 acc)"
  "aarch64_at d 2 acc = (if acc = 1073741864 then aarch64_at d 11 acc else aarch64_at d 3 acc)"
  "aarch64_at d 3 acc = Some 327718"
  "aarch64_at d 4 acc = aarch64_at d 5 (sd_nr d)"
  "aarch64_at d 5 acc = (if acc = 198 then aarch64_at d 18 acc else aarch64_at d 6 acc)"
  "aarch64_at d 6 acc = (if acc = 199 then aarch64_at d 18 acc else aarch64_at d 7 acc)"
  "aarch64_at d 7 acc = (if acc = 425 then aarch64_at d 25 acc else aarch64_at d 8 acc)"
  "aarch64_at d 8 acc = (if acc = 426 then aarch64_at d 25 acc else aarch64_at d 9 acc)"
  "aarch64_at d 9 acc = (if acc = 427 then aarch64_at d 25 acc else aarch64_at d 10 acc)"
  "aarch64_at d 10 acc = Some 2147418112"
  "aarch64_at d 11 acc = aarch64_at d 12 (sd_nr d)"
  "aarch64_at d 12 acc = (if acc = 281 then aarch64_at d 18 acc else aarch64_at d 13 acc)"
  "aarch64_at d 13 acc = (if acc = 288 then aarch64_at d 18 acc else aarch64_at d 14 acc)"
  "aarch64_at d 14 acc = (if acc = 425 then aarch64_at d 25 acc else aarch64_at d 15 acc)"
  "aarch64_at d 15 acc = (if acc = 426 then aarch64_at d 25 acc else aarch64_at d 16 acc)"
  "aarch64_at d 16 acc = (if acc = 427 then aarch64_at d 25 acc else aarch64_at d 17 acc)"
  "aarch64_at d 17 acc = Some 2147418112"
  "aarch64_at d 18 acc = aarch64_at d 19 (ucast (sd_arg0 d))"
  "aarch64_at d 19 acc = (if acc = 1 then aarch64_at d 24 acc else aarch64_at d 20 acc)"
  "aarch64_at d 20 acc = (if acc = 2 then aarch64_at d 24 acc else aarch64_at d 21 acc)"
  "aarch64_at d 21 acc = (if acc = 10 then aarch64_at d 24 acc else aarch64_at d 22 acc)"
  "aarch64_at d 22 acc = (if acc = 16 then aarch64_at d 24 acc else aarch64_at d 23 acc)"
  "aarch64_at d 23 acc = Some 327681"
  "aarch64_at d 24 acc = Some 2147418112"
  "aarch64_at d 25 acc = Some 327718"
  by (rule run_ret run_jump run_and run_load; simp add: aarch64_nth load_word_def)+

lemmas verdict_defs = abi_verdict_def family_verdict_def seccomp_constants errno_def

lemma x86_family: "x86_at d 25 acc = Some (family_verdict (sd_arg0 d))"
  by (simp add: x86_step(26-32) verdict_defs)

lemma x86_socketcall:
  "x86_at d 20 acc =
     Some (if (ucast (sd_arg0 d) :: u32) \<in> {SOCKETCALL_SOCKET, SOCKETCALL_SOCKETPAIR} then errno EPERM
       else SECCOMP_RET_ALLOW)"
  by (simp add: x86_step(21-25) seccomp_constants errno_def)

lemma x86_i386:
  "x86_at d 12 acc =
     Some (if sd_nr d = I386_SOCKETCALL then
        (if (ucast (sd_arg0 d) :: u32) \<in> {SOCKETCALL_SOCKET, SOCKETCALL_SOCKETPAIR} then errno EPERM
         else SECCOMP_RET_ALLOW)
      else abi_verdict {I386_SOCKET, I386_SOCKETPAIR} (sd_nr d) (sd_arg0 d))"
  unfolding x86_step(13-20,33) x86_family x86_socketcall
  by (simp add: abi_verdict_def seccomp_constants errno_def)

lemma x86_native:
  "x86_at d 4 acc =
     Some (abi_verdict {X86_64_SOCKET, X86_64_SOCKETPAIR} (and (sd_nr d) (not X32_SYSCALL_BIT)) (sd_arg0 d))"
proof -
  have mask: "not X32_SYSCALL_BIT = 3221225471" by (simp add: X32_SYSCALL_BIT_def)
  show ?thesis
    unfolding x86_step(5-12,33) x86_family mask
    by (simp add: abi_verdict_def seccomp_constants errno_def)
qed

lemma x86_runs: "x86_at d 0 0 = Some (filter_verdict X86_64 d)"
  unfolding x86_step(1-4) x86_native x86_i386
  by (simp add: seccomp_constants errno_def)

lemma aarch64_family: "aarch64_at d 18 acc = Some (family_verdict (sd_arg0 d))"
  by (simp add: aarch64_step(19-25) verdict_defs)

lemma aarch64_runs: "aarch64_at d 0 0 = Some (filter_verdict Aarch64 d)"
  unfolding aarch64_step(1-18,26) aarch64_family
  by (simp add: abi_verdict_def seccomp_constants errno_def)

text \<open>
  C9: The assembled filter decides every system call as the policy says. Assembly never panics, since
  every jump points forward and fits its 8-bit offset, and running the program on any system call, of
  any architecture, number and argument, stays inside the program, ends, and returns the verdict of
  the policy: sockets only of the four permitted families, no \<open>io_uring\<close>, no \<open>socketcall\<close> that creates a
  socket, no foreign architecture, and everything else allowed.
\<close>

theorem filter_decides:
  "\<exists>program. build_program a = Some program \<and> run_filter program d 0 0 = Some (filter_verdict a d)"
  by (cases a) (simp_all add: build_x86 build_aarch64 x86_runs aarch64_runs)

section \<open>The written bytes\<close>

text \<open>How the kernel reads the records back.\<close>

fun decode_filter :: "u8 list \<Rightarrow> Instruction list option" where
  "decode_filter [] = Some []"
| "decode_filter (c0 # c1 # jt # jf # v0 # v1 # v2 # v3 # rest) =
     map_option (\<lambda>is. \<lparr>bi_code = or (ucast c0) (push_bit 8 (ucast c1)), bi_jump_if_true = jt,
         bi_jump_if_false = jf,
         bi_value = or (ucast v0) (or (push_bit 8 (ucast v1)) (or (push_bit 16 (ucast v2)) (push_bit 24 (ucast v3))))\<rparr>
       # is) (decode_filter rest)"
| "decode_filter _ = None"

lemma bytes16: "or (ucast (ucast x :: u8)) (push_bit 8 (ucast (ucast (drop_bit 8 x) :: u8))) = (x :: u16)"
  by (rule bit_word_eqI) (auto simp: bit_simps)

lemma bytes32:
  "or (ucast (ucast x :: u8)) (or (push_bit 8 (ucast (ucast (drop_bit 8 x) :: u8)))
     (or (push_bit 16 (ucast (ucast (drop_bit 16 x) :: u8))) (push_bit 24 (ucast (ucast (drop_bit 24 x) :: u8))))) =
   (x :: u32)"
  (is "?l = x")
proof (rule bit_word_eqI)
  fix n :: nat
  have "n < 24 \<Longrightarrow> n - 16 < 8" "\<not> n < 24 \<Longrightarrow> 24 + (n - 24) = n"
    "n < 16 \<Longrightarrow> n - 8 < 8" "\<not> n < 16 \<Longrightarrow> 16 + (n - 16) = n" "\<not> n < 8 \<Longrightarrow> 8 + (n - 8) = n"
    by linarith+
  then show "n < LENGTH(32) \<Longrightarrow> bit ?l n = bit x n"
    by (cases "n < 24"; cases "n < 16"; cases "n < 8") (auto simp: bit_simps)
qed

lemma encode_append: "Instruction_encode i out = out @ Instruction_encode i []"
  by (simp add: Instruction_encode_def)

lemma foldl_encode:
  "foldl (\<lambda>bytes i. Instruction_encode i bytes) out program =
     out @ foldl (\<lambda>bytes i. Instruction_encode i bytes) [] program"
proof (induction program arbitrary: out)
  case (Cons i program)
  show ?case
    using Cons.IH [of "Instruction_encode i out"] Cons.IH [of "Instruction_encode i []"] encode_append [of i out] by simp
qed simp

lemma filter_bytes_Cons: "filter_bytes (i # program) = Instruction_encode i [] @ filter_bytes program"
  using foldl_encode [of "Instruction_encode i []" program] by (simp add: filter_bytes_def)

text \<open>
  C36: The kernel reads back the program that was assembled. The file holds eight bytes per instruction,
  and decoding them yields the same instructions in the same order.
\<close>

theorem filter_bytes_roundtrip:
  "decode_filter (filter_bytes program) = Some program \<and> length (filter_bytes program) = 8 * length program"
proof (induction program)
  case (Cons i program)
  then show ?case
    by (simp add: filter_bytes_Cons Instruction_encode_def ne_bytes16_def ne_bytes32_def bytes16 bytes32)
qed (simp add: filter_bytes_def)

end
