(* ===== verification/Correlation_Vector.thy ===== *)
theory Correlation_Vector
  imports Rust_Text
begin

text \<open>
  \<open>telemetry/correlation_vector.rs\<close>: the MS-CV operators. The base64 encoder and the random source are
  crates, so they are parameters: the encoder a function, the random source a function of the number of
  the call and of the length asked for. The result is that every operator, on every input string,
  returns a vector that is well formed.
\<close>

section \<open>Environment\<close>

definition BASE_LEN :: nat where "BASE_LEN = 22"
definition MAX_LEN :: nat where "MAX_LEN = 128"
definition TERMINATOR :: char where "TERMINATOR = CHR ''!''"
definition SPIN_INTERVAL_BITS :: nat where "SPIN_INTERVAL_BITS = 24"
definition SPIN_ENTROPY_BYTES :: nat where "SPIN_ENTROPY_BYTES = 2"
definition SPIN_COUNTER_PERIODICITY_BITS :: nat where "SPIN_COUNTER_PERIODICITY_BITS = 16"

text \<open>
  What the operators read of the process: \<open>getrandom\<close>, by call and length, the system clock in
  nanoseconds since the epoch, \<open>None\<close> before it, and the process-wide counter of \<open>fallback_nonce\<close>.
\<close>

record cv_env =
  ce_getrandom :: "nat \<Rightarrow> nat \<Rightarrow> u8 list option"
  ce_calls :: nat
  ce_clock :: "nat option"
  ce_counter :: u64

definition cv_env_wf :: "cv_env \<Rightarrow> bool" where
  "cv_env_wf env \<longleftrightarrow> (\<forall>k n bytes. ce_getrandom env k n = Some bytes \<longrightarrow> length bytes = n)"

definition os_random_bytes :: "nat \<Rightarrow> cv_env \<Rightarrow> u8 list option \<times> cv_env" where
  "os_random_bytes n env = (ce_getrandom env (ce_calls env) n, env\<lparr>ce_calls := ce_calls env + 1\<rparr>)"

definition fallback_nonce :: "cv_env \<Rightarrow> u64 \<times> cv_env" where
  "fallback_nonce env = (ce_counter env, env\<lparr>ce_counter := ce_counter env + 1\<rparr>)"

definition now_ticks_100ns :: "cv_env \<Rightarrow> u64" where
  "now_ticks_100ns env = (case ce_clock env of Some nanos \<Rightarrow> of_nat (nanos div 100) | None \<Rightarrow> 0)"

definition to_le_bytes64 :: "u64 \<Rightarrow> u8 list" where
  "to_le_bytes64 x = map (\<lambda>i. ucast (drop_bit (8 * i) x)) [0..<8]"

section \<open>Parsing\<close>

definition is_base64_char :: "char \<Rightarrow> bool" where
  "is_base64_char b \<longleftrightarrow> is_ascii_alphanumeric b \<or> b = CHR ''+'' \<or> b = CHR ''/''"

definition is_valid_base :: "string \<Rightarrow> bool" where
  "is_valid_base base \<longleftrightarrow>
     length base = BASE_LEN \<and> list_all is_base64_char base \<and>
     base ! (BASE_LEN - 1) \<in> {CHR ''A'', CHR ''Q'', CHR ''g'', CHR ''w''}"

definition parse_element :: "string \<Rightarrow> u32 option" where
  "parse_element element =
     (if element = [] \<or> \<not> list_all is_ascii_digit element \<or>
         (1 < length element \<and> hd element = CHR ''0'')
      then None
      else map_option of_nat (parse_unsigned (2 ^ 32) element))"

record MutableCv =
  mc_full :: string
  mc_prefix :: string
  mc_last :: u32

datatype Class = Frozen | Mutable MutableCv | Invalid

definition is_immutable :: "string \<Rightarrow> bool" where
  "is_immutable cv \<longleftrightarrow> cv \<noteq> [] \<and> last cv = TERMINATOR"

definition parse_mutable :: "string \<Rightarrow> MutableCv option" where
  "parse_mutable cv =
     (if cv = [] \<or> MAX_LEN < length cv \<or> is_immutable cv then None
      else case rsplit_once (CHR ''.'') cv of
        None \<Rightarrow> None
      | Some (prefix, last_str) \<Rightarrow>
          let (base, interior) =
            (case split_once (CHR ''.'') prefix of
               Some (base, interior) \<Rightarrow> (base, Some interior)
             | None \<Rightarrow> (prefix, None))
          in if \<not> is_valid_base base then None
             else if (case interior of
                 Some interior \<Rightarrow> list_ex (\<lambda>element. parse_element element = None) (split_char (CHR ''.'') interior)
               | None \<Rightarrow> False)
             then None
             else (case parse_element last_str of
               None \<Rightarrow> None
             | Some last_value \<Rightarrow> Some \<lparr>mc_full = cv, mc_prefix = prefix, mc_last = last_value\<rparr>))"

definition CorrelationVector_is_valid :: "string \<Rightarrow> bool" where
  "CorrelationVector_is_valid cv \<longleftrightarrow> parse_mutable cv \<noteq> None"

definition is_valid_frozen :: "string \<Rightarrow> bool" where
  "is_valid_frozen cv \<longleftrightarrow>
     length cv \<le> MAX_LEN \<and>
     (case strip_suffix TERMINATOR cv of Some body \<Rightarrow> CorrelationVector_is_valid body | None \<Rightarrow> False)"

definition classify :: "string \<Rightarrow> Class" where
  "classify cv =
     (if is_immutable cv then (if is_valid_frozen cv then Frozen else Invalid)
      else case parse_mutable cv of Some m \<Rightarrow> Mutable m | None \<Rightarrow> Invalid)"

definition is_relayable :: "string \<Rightarrow> bool" where
  "is_relayable cv \<longleftrightarrow> (case classify cv of Frozen \<Rightarrow> True | Mutable _ \<Rightarrow> True | Invalid \<Rightarrow> False)"

section \<open>Operators\<close>

text \<open>The position of the last dot, \<open>str::rfind\<close>.\<close>

definition rfind_dot :: "string \<Rightarrow> nat option" where
  "rfind_dot s = map_option (length \<circ> fst) (rsplit_once (CHR ''.'') s)"

definition terminate_if_oversized :: "string \<Rightarrow> string \<Rightarrow> string" where
  "terminate_if_oversized cv candidate =
     (if length candidate \<le> MAX_LEN then candidate
      else
        let keep = min (MAX_LEN - 1) (length cv);
            keep = (if keep < length cv
                    then (case rfind_dot (take keep cv) of Some dot \<Rightarrow> dot | None \<Rightarrow> keep)
                    else keep)
        in take keep cv @ [TERMINATOR])"

definition seed_from_bytes :: "(u8 list \<Rightarrow> string) \<Rightarrow> u8 list \<Rightarrow> string" where
  "seed_from_bytes encode bytes = encode bytes @ ''.0''"

definition seed_with :: "(u8 list \<Rightarrow> string) \<Rightarrow> u8 list option \<Rightarrow> u64 \<Rightarrow> u64 \<Rightarrow> string" where
  "seed_with encode random now_ticks nonce =
     seed_from_bytes encode
       (case random of
          Some bytes \<Rightarrow> bytes
        | None \<Rightarrow> to_le_bytes64 now_ticks @ rev (to_le_bytes64 nonce))"

definition seed :: "(u8 list \<Rightarrow> string) \<Rightarrow> cv_env \<Rightarrow> string \<times> cv_env" where
  "seed encode env =
     (let (random, env) = os_random_bytes 16 env;
          ((now_ticks, nonce), env) =
            (case random of
               Some _ \<Rightarrow> ((0, 0), env)
             | None \<Rightarrow> let (nonce, env') = fallback_nonce env in ((now_ticks_100ns env, nonce), env'))
      in (seed_with encode random now_ticks nonce, env))"

definition extend :: "(u8 list \<Rightarrow> string) \<Rightarrow> cv_env \<Rightarrow> string \<Rightarrow> string \<times> cv_env" where
  "extend encode env cv =
     (case classify cv of
        Frozen \<Rightarrow> (cv, env)
      | Invalid \<Rightarrow> seed encode env
      | Mutable m \<Rightarrow> (terminate_if_oversized (mc_full m) (mc_full m @ ''.0''), env))"

definition increment :: "(u8 list \<Rightarrow> string) \<Rightarrow> cv_env \<Rightarrow> string \<Rightarrow> string \<times> cv_env" where
  "increment encode env cv =
     (case classify cv of
        Frozen \<Rightarrow> (cv, env)
      | Invalid \<Rightarrow> seed encode env
      | Mutable m \<Rightarrow>
          if mc_last m = - 1 then (terminate_if_oversized (mc_full m) (mc_full m @ [TERMINATOR]), env)
          else (terminate_if_oversized (mc_full m)
                  (mc_prefix m @ ''.'' @ show_nat (unat (mc_last m + 1))), env))"

definition spin_with :: "string \<Rightarrow> u64 \<Rightarrow> u8 list option \<Rightarrow> u64 \<Rightarrow> string" where
  "spin_with cv now_ticks entropy nonce =
     (let entropy = (case entropy of Some bytes \<Rightarrow> bytes | None \<Rightarrow> take SPIN_ENTROPY_BYTES (to_le_bytes64 nonce));
          counter_mask = push_bit SPIN_COUNTER_PERIODICITY_BITS 1 - 1;
          counter = and (drop_bit SPIN_INTERVAL_BITS now_ticks) counter_mask;
          entropy = (or (push_bit 8 (ucast (entropy ! 0))) (ucast (entropy ! 1)) :: u16);
          spun = cv @ ''.'' @ show_nat (unat counter) @ ''.'' @ show_nat (unat entropy) @ ''.0''
      in terminate_if_oversized cv spun)"

definition spin :: "(u8 list \<Rightarrow> string) \<Rightarrow> cv_env \<Rightarrow> string \<Rightarrow> string \<times> cv_env" where
  "spin encode env cv =
     (case classify cv of
        Frozen \<Rightarrow> (cv, env)
      | Invalid \<Rightarrow> seed encode env
      | Mutable m \<Rightarrow>
          let (entropy, env) = os_random_bytes SPIN_ENTROPY_BYTES env;
              (nonce, env) = (if entropy = None then fallback_nonce env else (0, env))
          in (spin_with (mc_full m) (now_ticks_100ns env) entropy nonce, env))"

section \<open>The encoder\<close>

text \<open>Base64 without padding, RFC 4648 section 4: what \<open>STANDARD_NO_PAD\<close> of the \<open>base64\<close> crate computes.\<close>

definition base64_alphabet :: string where
  "base64_alphabet = ''ABCDEFGHIJKLMNOPQRSTUVWXYZabcdefghijklmnopqrstuvwxyz0123456789+/''"

definition sextet :: "nat \<Rightarrow> char" where
  "sextet n = base64_alphabet ! (n mod 64)"

fun base64_no_pad :: "u8 list \<Rightarrow> string" where
  "base64_no_pad [] = []"
| "base64_no_pad [a] = [sextet (unat a div 4), sextet (unat a mod 4 * 16)]"
| "base64_no_pad [a, b] =
     [sextet (unat a div 4), sextet (unat a mod 4 * 16 + unat b div 16), sextet (unat b mod 16 * 4)]"
| "base64_no_pad (a # b # c # rest) =
     sextet (unat a div 4) # sextet (unat a mod 4 * 16 + unat b div 16) #
     sextet (unat b mod 16 * 4 + unat c div 64) # sextet (unat c mod 64) # base64_no_pad rest"

lemma sextet_char: "is_base64_char (sextet n)"
proof -
  have "list_all is_base64_char base64_alphabet" by code_simp
  moreover have "n mod 64 < length base64_alphabet" by (simp add: base64_alphabet_def)
  ultimately show ?thesis by (simp add: sextet_def list_all_length)
qed

lemma sextet_last: "sextet (n mod 4 * 16) \<in> {CHR ''A'', CHR ''Q'', CHR ''g'', CHR ''w''}"
proof -
  have "n mod 4 \<in> {0, 1, 2, 3}" by auto
  then show ?thesis by (auto simp: sextet_def base64_alphabet_def)
qed

lemma base64_16_valid:
  assumes "length bytes = 16"
  shows "is_valid_base (base64_no_pad bytes)"
proof -
  obtain a b c d e f g h i j k l m n x y where
    "bytes = [a, b, c, d, e, f, g, h, i, j, k, l, m, n, x, y]"
    using assms by (auto simp: length_Suc_conv numeral_eq_Suc)
  then show ?thesis
    using sextet_last [of "unat y"] by (simp add: is_valid_base_def BASE_LEN_def sextet_char)
qed

section \<open>The shape of a vector\<close>

definition elements :: "nat list \<Rightarrow> string" where
  "elements es = concat (map (\<lambda>k. CHR ''.'' # show_nat k) es)"

text \<open>A base and at least one element below \<open>2 ^ 32\<close>.\<close>

definition vector_of :: "string \<Rightarrow> nat list \<Rightarrow> string \<Rightarrow> bool" where
  "vector_of base es cv \<longleftrightarrow>
     is_valid_base base \<and> es \<noteq> [] \<and> list_all (\<lambda>k. k < 2 ^ 32) es \<and> cv = base @ elements es"

lemma digit_to_digit: "is_ascii_digit c \<Longrightarrow> \<exists>d < 10. to_digit 10 c = Some d \<and> c = digit_char d"
proof -
  assume "is_ascii_digit c"
  then have "48 \<le> (of_char c :: nat)" "(of_char c :: nat) \<le> 57" by (simp_all add: is_ascii_digit_def)
  then show ?thesis
    by (intro exI [of _ "of_char c - 48 :: nat"]) (auto simp: to_digit_def digit_char_def)
qed

lemma u32_bound: "unat (k :: u32) < 2 ^ 32"
  using unsigned_less [of k] by simp

lemma u32_of_nat: "n < 2 ^ 32 \<Longrightarrow> unat (of_nat n :: u32) = n"
  by (simp add: unsigned_of_nat take_bit_nat_eq_self)

lemma digit_char_ascii: "d < 10 \<Longrightarrow> is_ascii_digit (digit_char d)"
  by (simp add: is_ascii_digit_def digit_char_def)

lemma show_nat_ascii: "list_all is_ascii_digit (show_nat n)"
  using show_nat_digits digit_char_ascii by (force simp: list_all_iff)

lemma digits_canonical:
  "e \<noteq> [] \<Longrightarrow> list_all is_ascii_digit e \<Longrightarrow> \<not> (1 < length e \<and> hd e = CHR ''0'') \<Longrightarrow>
   \<exists>n. parse_digits 0 e = Some n \<and> e = show_nat n"
proof (induction e rule: rev_induct)
  case (snoc c e)
  obtain d where d: "d < 10" "to_digit 10 c = Some d" "c = digit_char d"
    using snoc.prems(2) digit_to_digit [of c] by auto
  show ?case
  proof (cases "e = []")
    case True
    then show ?thesis using d by (auto simp: show_nat_small)
  next
    case False
    then have hd: "hd e \<noteq> CHR ''0''" using snoc.prems(3) by (cases e) auto
    then obtain n where n: "parse_digits 0 e = Some n" "e = show_nat n"
      using snoc False by auto
    then have "n \<noteq> 0" using hd hd_show_nat_zero [of n] by simp
    then have "show_nat (n * 10 + d) = e @ [c]" using d n by (simp add: show_nat_step)
    then show ?thesis using n d by (auto simp: parse_digits_append)
  qed
qed simp

lemma parse_element_iff: "parse_element e = Some k \<longleftrightarrow> e = show_nat (unat k)"
proof
  assume "e = show_nat (unat k)"
  moreover have "show_nat 0 = ''0''" by code_simp
  then have "\<not> (1 < length (show_nat n) \<and> hd (show_nat n) = CHR ''0'')" for n
    using hd_show_nat_zero [of n] by (cases "n = 0") auto
  moreover have "parse_unsigned (2 ^ 32) (show_nat (unat k)) = Some (unat k)"
    by (rule parse_unsigned_show_nat) (rule u32_bound)
  ultimately show "parse_element e = Some k"
    by (simp add: parse_element_def show_nat_ascii)
next
  assume p: "parse_element e = Some k"
  then have e: "e \<noteq> []" "list_all is_ascii_digit e" "\<not> (1 < length e \<and> hd e = CHR ''0'')"
    by (auto simp: parse_element_def split: if_splits)
  obtain n where n: "parse_digits 0 e = Some n" "e = show_nat n" using digits_canonical [OF e] by blast
  have "strip_prefix (CHR ''+'') e = None"
    using e by (cases e) (auto simp: strip_prefix_def is_ascii_digit_def)
  then have "parse_unsigned (2 ^ 32) e = (if n < 2 ^ 32 then Some n else None)"
    using e(1) n(1) by (simp add: parse_unsigned_def)
  then have "n < 2 ^ 32" "k = of_nat n" using p by (auto simp: parse_element_def split: if_splits)
  then show "e = show_nat (unat k)" using n(2) by (simp add: u32_of_nat)
qed

lemma split_char_concat: "concat (map (\<lambda>p. c # p) (split_char c s)) = c # s"
  by (induction s) (auto split: list.splits)

lemma dot_not_digit: "CHR ''.'' \<notin> set (show_nat n)"
  by (rule show_nat_no_char) (simp add: to_digit_def)

lemma base_no_dot: "is_valid_base b \<Longrightarrow> CHR ''.'' \<notin> set b"
  by (auto simp: is_valid_base_def list_all_iff is_base64_char_def is_ascii_alphanumeric_def is_ascii_alphabetic_def
      is_ascii_digit_def)

lemma elements_simps [simp]:
  "elements [] = []" "elements (k # es) = CHR ''.'' # show_nat k @ elements es"
  "elements (es @ fs) = elements es @ elements fs"
  by (simp_all add: elements_def)

lemma split_elements: "split_char (CHR ''.'') (show_nat k @ elements es) = map show_nat (k # es)"
proof (induction es arbitrary: k)
  case Nil
  then show ?case by (simp add: split_char_free dot_not_digit)
next
  case (Cons j es)
  then show ?case by (simp add: split_char_append dot_not_digit)
qed

lemma canonical_parts:
  assumes "\<not> list_ex (\<lambda>e. parse_element e = None) parts"
  obtains es where "parts = map show_nat es" and "list_all (\<lambda>k. k < 2 ^ 32) es"
proof
  let ?es = "map (\<lambda>e. unat (the (parse_element e))) parts"
  have "show_nat (unat (the (parse_element e))) = e" if "e \<in> set parts" for e
  proof -
    obtain k where "parse_element e = Some k" using assms \<open>e \<in> set parts\<close> by (auto simp: list_ex_iff)
    then show ?thesis using parse_element_iff [of e k] by simp
  qed
  then show "parts = map show_nat ?es" by (simp add: map_idI)
  show "list_all (\<lambda>k. k < 2 ^ 32) ?es" using u32_bound by (simp add: list_all_iff)
qed

lemma vector_not_immutable: "vector_of base es cv \<Longrightarrow> cv \<noteq> [] \<and> \<not> is_immutable cv"
proof -
  assume v: "vector_of base es cv"
  then obtain fs k where es: "es = fs @ [k]" by (auto simp: vector_of_def intro: rev_exhaust)
  then have "last cv = last (show_nat k)" "cv \<noteq> []" using v by (simp_all add: vector_of_def)
  moreover have "is_ascii_digit (last (show_nat k))"
    using show_nat_ascii [of k] show_nat_nonempty [of k] by (auto simp: list_all_iff)
  ultimately show ?thesis by (auto simp: is_immutable_def TERMINATOR_def is_ascii_digit_def)
qed

lemma parse_mutable_Some:
  assumes "parse_mutable cv = Some m"
  obtains base es where "vector_of base (es @ [unat (mc_last m)]) cv" and "mc_full m = cv"
    and "mc_prefix m = base @ elements es" and "length cv \<le> MAX_LEN"
proof -
  obtain prefix l where r: "rsplit_once (CHR ''.'') cv = Some (prefix, l)" "length cv \<le> MAX_LEN"
    using assms by (auto simp: parse_mutable_def split: if_splits option.splits)
  then have cv: "cv = prefix @ CHR ''.'' # l" by (simp add: rsplit_once_Some)
  have m: "mc_full m = cv" "mc_prefix m = prefix" "parse_element l = Some (mc_last m)"
    using assms r by (auto simp: parse_mutable_def Let_def split: if_splits option.splits)
  then have l: "l = show_nat (unat (mc_last m))" by (simp add: parse_element_iff)
  have last: "unat (mc_last m) < 2 ^ 32" by (rule u32_bound)
  show ?thesis
  proof (cases "split_once (CHR ''.'') prefix")
    case None
    then have "is_valid_base prefix" using assms r by (auto simp: parse_mutable_def Let_def split: if_splits option.splits)
    then show ?thesis using m cv l last r(2) by (intro that [of prefix "[]"]) (simp_all add: vector_of_def)
  next
    case (Some bi)
    obtain base interior where bi: "bi = (base, interior)" by (cases bi)
    then have p: "prefix = base @ CHR ''.'' # interior" using split_once_Some Some by simp
    have v: "is_valid_base base" "\<not> list_ex (\<lambda>e. parse_element e = None) (split_char (CHR ''.'') interior)"
      using assms r Some bi by (auto simp: parse_mutable_def Let_def split: if_splits option.splits)
    obtain es where es: "split_char (CHR ''.'') interior = map show_nat es" "list_all (\<lambda>k. k < 2 ^ 32) es"
      using canonical_parts [OF v(2)] by blast
    have "elements es = CHR ''.'' # interior"
      using split_char_concat [of "CHR ''.''" interior] unfolding es(1) by (simp add: elements_def comp_def)
    then show ?thesis using m cv l last r(2) p v(1) es(2)
      by (intro that [of base es]) (simp_all add: vector_of_def)
  qed
qed

lemma vector_valid:
  assumes "vector_of base es cv" and "length cv \<le> MAX_LEN"
  shows "parse_mutable cv \<noteq> None"
proof -
  obtain fs k where es: "es = fs @ [k]" using assms(1) by (auto simp: vector_of_def intro: rev_exhaust)
  have k: "k < 2 ^ 32" and fs: "list_all (\<lambda>k. k < 2 ^ 32) fs" and b: "is_valid_base base"
    using assms(1) by (auto simp: vector_of_def es)
  have pe: "parse_element (show_nat j) = Some (of_nat j)" if "j < 2 ^ 32" for j
    using that by (simp add: parse_element_iff u32_of_nat)
  have r: "rsplit_once (CHR ''.'') cv = Some (base @ elements fs, show_nat k)"
    using assms(1) rsplit_once_append [OF dot_not_digit, of "base @ elements fs" k] by (simp add: vector_of_def es)
  have "split_once (CHR ''.'') (base @ elements fs) =
      (case fs of [] \<Rightarrow> None | f # gs \<Rightarrow> Some (base, show_nat f @ elements gs))"
    using split_once_append [OF base_no_dot [OF b]] split_once_None [OF base_no_dot [OF b]] by (cases fs) simp_all
  moreover have "list_all (\<lambda>k. parse_element (show_nat k) \<noteq> None) fs" using fs pe by (auto simp: list_all_iff)
  ultimately show ?thesis
    using r b assms(2) pe [OF k] vector_not_immutable [OF assms(1)]
    by (cases fs) (auto simp: parse_mutable_def split_elements list_ex_iff list_all_iff)
qed

section \<open>Every operator returns a vector\<close>

lemma relayable_vector:
  assumes "vector_of base es cv" and "length cv \<le> MAX_LEN"
  shows "is_relayable cv"
  using vector_valid [OF assms] vector_not_immutable [OF assms(1)]
  by (auto simp: is_relayable_def classify_def split: option.splits)

lemma relayable_frozen:
  assumes "vector_of base es cv" and "length cv < MAX_LEN"
  shows "is_relayable (cv @ [TERMINATOR])"
  using vector_valid [OF assms(1)] assms(2)
  by (simp add: is_relayable_def classify_def is_immutable_def is_valid_frozen_def strip_suffix_def
      CorrelationVector_is_valid_def)

text \<open>An oversized candidate freezes the vector it came from, without its last element if need be.\<close>

lemma freeze_relayable:
  assumes "vector_of base es cv" and "length cv \<le> MAX_LEN" and "MAX_LEN < length candidate"
  shows "is_relayable (terminate_if_oversized cv candidate) \<and> length (terminate_if_oversized cv candidate) \<le> MAX_LEN"
proof (cases "length cv < MAX_LEN")
  case True
  then have "terminate_if_oversized cv candidate = cv @ [TERMINATOR]"
    using assms(3) by (simp add: terminate_if_oversized_def)
  then show ?thesis using relayable_frozen [OF assms(1) True] True by simp
next
  case False
  then have len: "length cv = 128" using assms(2) by (simp add: MAX_LEN_def)
  obtain fs k where es: "es = fs @ [k]" using assms(1) by (auto simp: vector_of_def intro: rev_exhaust)
  let ?p = "base @ elements fs"
  have cv: "cv = ?p @ CHR ''.'' # show_nat k" and k: "k < 2 ^ 32" and b: "length base = 22"
    using assms(1) by (simp_all add: vector_of_def es is_valid_base_def BASE_LEN_def)
  have "length (show_nat k) \<le> 10" using length_show_nat_le [of k 9] k by simp
  moreover have "1 \<le> length (show_nat k)" using show_nat_nonempty [of k] by (simp add: Suc_le_eq)
  moreover have "length ?p + 1 + length (show_nat k) = 128" using len unfolding cv by simp
  ultimately have p: "length ?p \<le> 126" "117 \<le> length ?p" by linarith+
  have "fs \<noteq> []" using p(2) b by auto
  then have v: "vector_of base fs ?p" using assms(1) by (simp add: vector_of_def es)
  have "take 127 cv = ?p @ CHR ''.'' # take (126 - length ?p) (show_nat k)"
    using p(1) unfolding cv by (simp add: take_Cons' )
  moreover have "CHR ''.'' \<notin> set (take (126 - length ?p) (show_nat k))"
    using dot_not_digit [of k] by (meson in_set_takeD)
  note rsplit_once_append [OF this, of ?p]
  ultimately have "rfind_dot (take 127 cv) = Some (length ?p)" by (simp add: rfind_dot_def)
  then have "terminate_if_oversized cv candidate = take (length ?p) cv @ [TERMINATOR]"
    using assms(3) len by (simp add: terminate_if_oversized_def MAX_LEN_def)
  also have "take (length ?p) cv = ?p" unfolding cv by simp
  finally show ?thesis using relayable_frozen [OF v] p(1) by (simp add: MAX_LEN_def)
qed

lemma candidate_relayable:
  assumes "vector_of base es cv" and "length cv \<le> MAX_LEN" and "vector_of base' es' candidate"
  shows "is_relayable (terminate_if_oversized cv candidate) \<and> length (terminate_if_oversized cv candidate) \<le> MAX_LEN"
proof (cases "MAX_LEN < length candidate")
  case True
  show ?thesis by (rule freeze_relayable [OF assms(1,2) True])
next
  case False
  then show ?thesis using relayable_vector [OF assms(3)] by (simp add: terminate_if_oversized_def)
qed

lemma seed_relayable:
  assumes "\<And>bytes. encode bytes = base64_no_pad bytes" and "cv_env_wf env"
  shows "is_relayable (fst (seed encode env)) \<and> length (fst (seed encode env)) \<le> MAX_LEN"
proof -
  have valid: "is_relayable (seed_from_bytes encode bytes) \<and> length (seed_from_bytes encode bytes) \<le> MAX_LEN"
    if "length bytes = 16" for bytes
  proof -
    have "is_valid_base (encode bytes)" using base64_16_valid [OF that] assms(1) by simp
    moreover have "show_nat 0 = ''0''" by code_simp
    ultimately have "vector_of (encode bytes) [0] (seed_from_bytes encode bytes)" "length (encode bytes) = 22"
      by (simp_all add: vector_of_def seed_from_bytes_def is_valid_base_def BASE_LEN_def)
    then show ?thesis using relayable_vector by (simp add: seed_from_bytes_def MAX_LEN_def)
  qed
  show ?thesis
  proof (cases "ce_getrandom env (ce_calls env) 16")
    case None
    have "length (to_le_bytes64 a @ rev (to_le_bytes64 b)) = 16" for a b by (simp add: to_le_bytes64_def)
    then show ?thesis using None valid by (simp add: seed_def os_random_bytes_def fallback_nonce_def seed_with_def)
  next
    case (Some bytes)
    then have "length bytes = 16" using assms(2) by (auto simp: cv_env_wf_def)
    then show ?thesis using Some valid by (simp add: seed_def os_random_bytes_def seed_with_def)
  qed
qed

lemma operator_cases:
  assumes "classify cv = Mutable m"
  obtains base es where "vector_of base (es @ [unat (mc_last m)]) (mc_full m)" and "length (mc_full m) \<le> MAX_LEN"
    and "mc_prefix m = base @ elements es"
proof -
  have "parse_mutable cv = Some m" using assms by (auto simp: classify_def split: if_splits option.splits)
  then show ?thesis by (rule parse_mutable_Some) (use that in blast)
qed

lemma frozen_relayable: "classify cv = Frozen \<Longrightarrow> is_relayable cv \<and> length cv \<le> MAX_LEN"
  by (auto simp: is_relayable_def classify_def is_valid_frozen_def split: if_splits option.splits)

lemma extend_relayable:
  assumes "\<And>bytes. encode bytes = base64_no_pad bytes" and "cv_env_wf env"
  shows "is_relayable (fst (extend encode env cv)) \<and> length (fst (extend encode env cv)) \<le> MAX_LEN"
proof (cases "classify cv")
  case (Mutable m)
  obtain base es where v: "vector_of base (es @ [unat (mc_last m)]) (mc_full m)" "length (mc_full m) \<le> MAX_LEN"
    using operator_cases [OF Mutable] by blast
  have "show_nat 0 = ''0''" by code_simp
  then have "vector_of base (es @ [unat (mc_last m), 0]) (mc_full m @ ''.0'')" using v(1) by (simp add: vector_of_def)
  from candidate_relayable [OF v this] show ?thesis by (simp add: extend_def Mutable)
qed (use frozen_relayable seed_relayable [OF assms] in \<open>simp_all add: extend_def\<close>)

lemma increment_relayable:
  assumes "\<And>bytes. encode bytes = base64_no_pad bytes" and "cv_env_wf env"
  shows "is_relayable (fst (increment encode env cv)) \<and> length (fst (increment encode env cv)) \<le> MAX_LEN"
proof (cases "classify cv")
  case (Mutable m)
  obtain base es where v: "vector_of base (es @ [unat (mc_last m)]) (mc_full m)" "length (mc_full m) \<le> MAX_LEN"
    and p: "mc_prefix m = base @ elements es"
    using operator_cases [OF Mutable] by blast
  show ?thesis
  proof (cases "mc_last m = - 1")
    case True
    show ?thesis
    proof (cases "length (mc_full m) < MAX_LEN")
      case True
      then show ?thesis using relayable_frozen [OF v(1)] \<open>mc_last m = - 1\<close>
        by (simp add: increment_def Mutable terminate_if_oversized_def)
    next
      case False
      then show ?thesis using freeze_relayable [OF v, of "mc_full m @ [TERMINATOR]"] \<open>mc_last m = - 1\<close>
        by (simp add: increment_def Mutable)
    qed
  next
    case False
    have "vector_of base (es @ [unat (mc_last m + 1)]) (mc_prefix m @ ''.'' @ show_nat (unat (mc_last m + 1)))"
      using v(1) u32_bound [of "mc_last m + 1"] by (simp add: vector_of_def p)
    from candidate_relayable [OF v this] False show ?thesis by (simp add: increment_def Mutable)
  qed
qed (use frozen_relayable seed_relayable [OF assms] in \<open>simp_all add: increment_def\<close>)

lemma spin_with_relayable:
  assumes "vector_of base es cv" and "length cv \<le> MAX_LEN"
  shows "is_relayable (spin_with cv now entropy nonce) \<and> length (spin_with cv now entropy nonce) \<le> MAX_LEN"
proof -
  define c :: u64 where "c = and (drop_bit SPIN_INTERVAL_BITS now) (push_bit SPIN_COUNTER_PERIODICITY_BITS 1 - 1)"
  define e :: u16 where "e = (let b = (case entropy of Some bytes \<Rightarrow> bytes | None \<Rightarrow> take SPIN_ENTROPY_BYTES (to_le_bytes64 nonce))
     in or (push_bit 8 (ucast (b ! 0))) (ucast (b ! 1)))"
  have "c \<le> 65535" unfolding c_def SPIN_COUNTER_PERIODICITY_BITS_def using word_and_le1 by simp
  then have "unat c < 2 ^ 32" by (simp add: word_le_nat_alt)
  moreover have "unat e < 2 ^ 32" using unsigned_less [of e, where ?'a = nat] by simp
  moreover have "show_nat 0 = ''0''" by code_simp
  ultimately have "vector_of base (es @ [unat c, unat e, 0])
      (cv @ ''.'' @ show_nat (unat c) @ ''.'' @ show_nat (unat e) @ ''.0'')"
    using assms(1) by (simp add: vector_of_def)
  from candidate_relayable [OF assms this] show ?thesis by (simp add: spin_with_def c_def e_def Let_def)
qed

lemma spin_relayable:
  assumes "\<And>bytes. encode bytes = base64_no_pad bytes" and "cv_env_wf env"
  shows "is_relayable (fst (spin encode env cv)) \<and> length (fst (spin encode env cv)) \<le> MAX_LEN"
proof (cases "classify cv")
  case (Mutable m)
  obtain base es where v: "vector_of base (es @ [unat (mc_last m)]) (mc_full m)" "length (mc_full m) \<le> MAX_LEN"
    using operator_cases [OF Mutable] by blast
  show ?thesis using spin_with_relayable [OF v]
    by (simp add: spin_def Mutable os_random_bytes_def split: prod.splits)
qed (use frozen_relayable seed_relayable [OF assms] in \<open>simp_all add: spin_def\<close>)

text \<open>
  C37: Correlation vectors stay well formed. With an encoder that computes RFC 4648 base64 and a random
  source that fills its buffer or fails, seeding, extending, incrementing and spinning any string at
  all, valid, frozen, malformed or hostile, returns a vector of at most 128 characters that the same
  module accepts: a canonical base and decimal 32-bit elements, possibly frozen.
\<close>

theorem operators_well_formed:
  assumes "\<And>bytes. encode bytes = base64_no_pad bytes" and "cv_env_wf env"
  shows "list_all (\<lambda>out. is_relayable out \<and> length out \<le> MAX_LEN)
    [fst (seed encode env), fst (extend encode env cv), fst (increment encode env cv), fst (spin encode env cv)]"
  using seed_relayable [OF assms] extend_relayable [OF assms] increment_relayable [OF assms] spin_relayable [OF assms]
  by simp

definition failing_env :: cv_env where
  "failing_env = \<lparr>ce_getrandom = (\<lambda>_ _. None), ce_calls = 0, ce_clock = Some 1700000000000000000, ce_counter = 5\<rparr>"

theorem operators_well_formed_witness:
  "is_relayable (fst (spin base64_no_pad failing_env ''user@contoso.com!''))"
  using operators_well_formed [of base64_no_pad failing_env "''user@contoso.com!''"]
  by (simp add: failing_env_def cv_env_wf_def)

end
