(* ===== verification/Fs_Plan.thy ===== *)
theory Fs_Plan
  imports Models "HOL-Library.Product_Lexorder"
begin

text \<open>
  \<open>filesystem_resolve.rs\<close> and \<open>default_env.rs\<close>: the order in which filesystem policy entries are applied,
  and the environment a request resolves to. The lemmas show what a back end gets that applies the
  plan in order and lets the last applicable entry decide: among the applicable entries of the policy
  the deepest one, and among equally deep ones the most restrictive.
\<close>

section \<open>Mount order\<close>

datatype FsIntent = ReadWrite | ReadOnly | Denied

text \<open>The derived order, from least to most restrictive.\<close>

fun intent_rank :: "FsIntent \<Rightarrow> nat" where
  "intent_rank ReadWrite = 0"
| "intent_rank ReadOnly = 1"
| "intent_rank Denied = 2"

instantiation FsIntent :: linorder
begin

definition less_eq_FsIntent :: "FsIntent \<Rightarrow> FsIntent \<Rightarrow> bool" where
  "less_eq_FsIntent a b \<longleftrightarrow> intent_rank a \<le> intent_rank b"

definition less_FsIntent :: "FsIntent \<Rightarrow> FsIntent \<Rightarrow> bool" where
  "less_FsIntent a b \<longleftrightarrow> intent_rank a < intent_rank b"

instance
proof
  have inj: "intent_rank a = intent_rank b \<Longrightarrow> a = b" for a b by (cases a; cases b) simp_all
  show "a \<le> b \<Longrightarrow> b \<le> a \<Longrightarrow> a = b" for a b :: FsIntent
    by (rule inj) (simp add: less_eq_FsIntent_def)
qed (auto simp: less_eq_FsIntent_def less_FsIntent_def)

end

record ResolvedMount =
  rm_path :: string
  rm_intent :: FsIntent

text \<open>\<open>str::split\<close> with a set of separators, without the empty pieces.\<close>

fun split_any :: "char set \<Rightarrow> string \<Rightarrow> string list" where
  "split_any seps [] = [[]]"
| "split_any seps (x # xs) =
     (if x \<in> seps then [] # split_any seps xs
      else (case split_any seps xs of [] \<Rightarrow> [[x]] | p # ps \<Rightarrow> (x # p) # ps))"

type_synonym PathKey = "string list"

definition PathKey_from_path :: "string \<Rightarrow> PathKey" where
  "PathKey_from_path path = filter (\<lambda>component. component \<noteq> []) (split_any {CHR ''/'', CHR 0x5C} path)"

definition PathKey_depth :: "PathKey \<Rightarrow> nat" where
  "PathKey_depth key = length key"

record Candidate =
  ca_path :: string
  ca_key :: PathKey
  ca_intent :: FsIntent
  ca_sequence :: nat

fun push_candidates :: "FsIntent \<Rightarrow> Candidate list \<Rightarrow> string list \<Rightarrow> Candidate list" where
  "push_candidates intent candidates [] = candidates"
| "push_candidates intent candidates (path # paths) =
     push_candidates intent
       (candidates @ [\<lparr>ca_path = path, ca_key = PathKey_from_path path, ca_intent = intent,
          ca_sequence = length candidates\<rparr>]) paths"

text \<open>
  The sequence number of a candidate is the number of candidates before it. \<open>sort_by\<close> is a stable sort;
  its comparison is the lexicographic one on depth and sequence.
\<close>

definition resolve_path_plan :: "string list \<Rightarrow> string list \<Rightarrow> string list \<Rightarrow> ResolvedMount list" where
  "resolve_path_plan rw ro dn =
     (let candidates = push_candidates ReadWrite [] rw;
          candidates = push_candidates ReadOnly candidates ro;
          candidates = push_candidates Denied candidates dn;
          candidates = sort_key (\<lambda>c. (PathKey_depth (ca_key c), ca_sequence c)) candidates
      in map (\<lambda>c. \<lparr>rm_path = ca_path c, rm_intent = ca_intent c\<rparr>) candidates)"

definition resolve_mount_order :: "ContainerPolicy \<Rightarrow> ResolvedMount list" where
  "resolve_mount_order policy =
     resolve_path_plan (readwrite_paths policy) (readonly_paths policy) (denied_paths policy)"

section \<open>Environment\<close>

datatype EnvResolution = EnvDefault | EnvReplace | EnvOverlay

definition EnvResolution_of :: "ExecutionRequest \<Rightarrow> EnvResolution" where
  "EnvResolution_of request =
     (case req_env request of
        None \<Rightarrow> EnvDefault
      | Some _ \<Rightarrow> if inherit_default_env request then EnvOverlay else EnvReplace)"

definition env_pairs :: "string list \<Rightarrow> (string \<times> string) list" where
  "env_pairs entries = List.map_filter (split_once (CHR ''='')) entries"

text \<open>
  The index of \<open>overlay\<close> maps a name to its position; for a name that occurs twice among the defaults
  the later position wins, as collecting into a map does.
\<close>

fun overlay_pairs ::
    "(string \<times> string) list \<Rightarrow> (string \<rightharpoonup> nat) \<Rightarrow> (string \<times> string) list \<Rightarrow> (string \<times> string) list" where
  "overlay_pairs entries index [] = entries"
| "overlay_pairs entries index ((key, value) # pairs) =
     (case index key of
        Some at \<Rightarrow> overlay_pairs (entries[at := (fst (entries ! at), value)]) index pairs
      | None \<Rightarrow> overlay_pairs (entries @ [(key, value)]) (index(key \<mapsto> length entries)) pairs)"

definition overlay :: "(string \<times> string) list \<Rightarrow> string list \<Rightarrow> (string \<times> string) list" where
  "overlay entries supplied =
     overlay_pairs entries
       (foldl (\<lambda>index (at, key, _). index(key \<mapsto> at)) Map.empty (enumerate 0 entries))
       (env_pairs supplied)"

definition resolve_env :: "ExecutionRequest \<Rightarrow> (string \<times> string) list \<Rightarrow> string list" where
  "resolve_env request defaults =
     (let supplied = env_entries request in
      case EnvResolution_of request of
        EnvReplace \<Rightarrow> supplied
      | EnvDefault \<Rightarrow> map (\<lambda>(key, value). key @ ''='' @ value) defaults
      | EnvOverlay \<Rightarrow> map (\<lambda>(key, value). key @ ''='' @ value) (overlay defaults supplied))"

section \<open>Most specific path wins\<close>

text \<open>The entries of a policy with the intents their lists give them.\<close>

definition policy_entries :: "string list \<Rightarrow> string list \<Rightarrow> string list \<Rightarrow> (string \<times> FsIntent) set" where
  "policy_entries rw ro dn = {(p, ReadWrite) | p. p \<in> set rw} \<union> {(p, ReadOnly) | p. p \<in> set ro} \<union> {(p, Denied) | p. p \<in> set dn}"

lemma push_candidates_eq:
  "push_candidates i cs ps =
     cs @ map (\<lambda>(k, p). \<lparr>ca_path = p, ca_key = PathKey_from_path p, ca_intent = i, ca_sequence = k\<rparr>)
       (enumerate (length cs) ps)"
  by (induction ps arbitrary: cs) simp_all

definition candidate_list :: "string list \<Rightarrow> string list \<Rightarrow> string list \<Rightarrow> Candidate list" where
  "candidate_list rw ro dn = push_candidates Denied (push_candidates ReadOnly (push_candidates ReadWrite [] rw) ro) dn"

definition list_intent :: "nat \<Rightarrow> nat \<Rightarrow> nat \<Rightarrow> FsIntent" where
  "list_intent n m k = (if k < n then ReadWrite else if k < m then ReadOnly else Denied)"

lemma list_intent_mono: "n \<le> m \<Longrightarrow> k \<le> k' \<Longrightarrow> list_intent n m k \<le> list_intent n m k'"
  by (auto simp: list_intent_def less_eq_FsIntent_def)

lemma candidate_list_mem:
  assumes "c \<in> set (candidate_list rw ro dn)"
  shows "ca_key c = PathKey_from_path (ca_path c) \<and>
    ca_intent c = list_intent (length rw) (length rw + length ro) (ca_sequence c) \<and>
    (ca_path c, ca_intent c) \<in> policy_entries rw ro dn"
  using assms unfolding candidate_list_def push_candidates_eq
  by (auto simp: in_set_enumerate_eq list_intent_def policy_entries_def)

lemma candidate_entry: "c \<in> set (candidate_list rw ro dn) \<Longrightarrow> (ca_path c, ca_intent c) \<in> policy_entries rw ro dn"
  using candidate_list_mem by blast

lemma candidate_list_complete:
  assumes "(p, i) \<in> policy_entries rw ro dn"
  obtains c where "c \<in> set (candidate_list rw ro dn)" and "ca_path c = p" and "ca_intent c = i"
proof -
  have push: "\<exists>c \<in> set (push_candidates j cs ps). ca_path c = p \<and> ca_intent c = j" if p: "p \<in> set ps" for j cs ps
  proof -
    obtain k where "k < length ps" "ps ! k = p" using p by (auto simp: in_set_conv_nth)
    then have "(length cs + k, p) \<in> set (enumerate (length cs) ps)" by (simp add: in_set_enumerate_eq)
    then show ?thesis unfolding push_candidates_eq by force
  qed
  have keep: "c \<in> set (push_candidates j cs ps)" if "c \<in> set cs" for c j cs ps
    using that by (simp add: push_candidates_eq)
  from assms consider "p \<in> set rw" "i = ReadWrite" | "p \<in> set ro" "i = ReadOnly" | "p \<in> set dn" "i = Denied"
    by (auto simp: policy_entries_def)
  then have "\<exists>c \<in> set (candidate_list rw ro dn). ca_path c = p \<and> ca_intent c = i"
    unfolding candidate_list_def using push keep by cases blast+
  then show ?thesis using that by blast
qed

lemma find_rev_sorted:
  "sorted (map k xs) \<Longrightarrow> find P (rev xs) = Some x \<Longrightarrow> x \<in> set xs \<and> P x \<and> (\<forall>y \<in> set xs. P y \<longrightarrow> k y \<le> k x)"
proof (induction xs rule: rev_induct)
  case (snoc z xs)
  then show ?case by (cases "P z") (auto simp: sorted_append)
qed simp

lemma find_map: "find P (map f xs) = map_option f (find (P \<circ> f) xs)"
  by (induction xs) simp_all

lemma resolve_path_plan_sorted:
  "resolve_path_plan rw ro dn =
     map (\<lambda>c. \<lparr>rm_path = ca_path c, rm_intent = ca_intent c\<rparr>)
       (sort_key (\<lambda>c. (PathKey_depth (ca_key c), ca_sequence c)) (candidate_list rw ro dn))"
  by (simp add: resolve_path_plan_def candidate_list_def Let_def)

lemma plan_last:
  assumes "find (\<lambda>m. applies (rm_path m)) (rev (resolve_path_plan rw ro dn)) = Some m"
  shows "(rm_path m, rm_intent m) \<in> policy_entries rw ro dn" and "applies (rm_path m)"
    and "\<And>p i. (p, i) \<in> policy_entries rw ro dn \<Longrightarrow> applies p \<Longrightarrow>
      PathKey_depth (PathKey_from_path p) < PathKey_depth (PathKey_from_path (rm_path m)) \<or>
      PathKey_depth (PathKey_from_path p) = PathKey_depth (PathKey_from_path (rm_path m)) \<and> i \<le> rm_intent m"
proof -
  let ?cs = "candidate_list rw ro dn" and ?k = "\<lambda>c. (PathKey_depth (ca_key c), ca_sequence c)"
  let ?f = "\<lambda>c. \<lparr>rm_path = ca_path c, rm_intent = ca_intent c\<rparr>"
  obtain c where c: "find (\<lambda>c. applies (ca_path c)) (rev (sort_key ?k ?cs)) = Some c" "m = ?f c"
    using assms unfolding resolve_path_plan_sorted rev_map find_map by (auto simp: comp_def)
  have mx: "c \<in> set ?cs" "applies (ca_path c)" "\<And>d. d \<in> set ?cs \<Longrightarrow> applies (ca_path d) \<Longrightarrow> ?k d \<le> ?k c"
    using find_rev_sorted [OF sorted_sort_key c(1)] by auto
  show "(rm_path m, rm_intent m) \<in> policy_entries rw ro dn" "applies (rm_path m)"
    using mx(2) candidate_entry [OF mx(1)] c(2) by simp_all
  fix p i assume entry: "(p, i) \<in> policy_entries rw ro dn" and "applies p"
  obtain d where d: "d \<in> set ?cs" "ca_path d = p" "ca_intent d = i" using candidate_list_complete [OF entry] by blast
  have "?k d \<le> ?k c" using mx(3) [OF d(1)] \<open>applies p\<close> d(2) by simp
  then show "PathKey_depth (PathKey_from_path p) < PathKey_depth (PathKey_from_path (rm_path m)) \<or>
      PathKey_depth (PathKey_from_path p) = PathKey_depth (PathKey_from_path (rm_path m)) \<and> i \<le> rm_intent m"
    using candidate_list_mem [OF d(1)] candidate_list_mem [OF mx(1)] d c(2) list_intent_mono
    by (auto simp: less_eq_prod_def)
qed

lemma plan_none:
  "find (\<lambda>m. applies (rm_path m)) (rev (resolve_path_plan rw ro dn)) = None \<longleftrightarrow>
     (\<forall>(p, i) \<in> policy_entries rw ro dn. \<not> applies p)"
proof -
  have "find (\<lambda>m. applies (rm_path m)) (rev (resolve_path_plan rw ro dn)) = None \<longleftrightarrow>
      (\<forall>c \<in> set (candidate_list rw ro dn). \<not> applies (ca_path c))"
    by (auto simp: resolve_path_plan_sorted find_None_iff)
  also have "\<dots> \<longleftrightarrow> (\<forall>(p, i) \<in> policy_entries rw ro dn. \<not> applies p)"
  proof
    assume none: "\<forall>c \<in> set (candidate_list rw ro dn). \<not> applies (ca_path c)"
    show "\<forall>(p, i) \<in> policy_entries rw ro dn. \<not> applies p"
      using none by (auto elim: candidate_list_complete)
  next
    assume none: "\<forall>(p, i) \<in> policy_entries rw ro dn. \<not> applies p"
    show "\<forall>c \<in> set (candidate_list rw ro dn). \<not> applies (ca_path c)"
      using none candidate_list_mem [of _ rw ro dn] by blast
  qed
  finally show ?thesis .
qed

lemma plan_entries: "m \<in> set (resolve_path_plan rw ro dn) \<Longrightarrow> (rm_path m, rm_intent m) \<in> policy_entries rw ro dn"
  using candidate_entry by (auto simp: resolve_path_plan_sorted)

text \<open>The deepest entry that applies, and the most restrictive one among equally deep ones.\<close>

definition deepest :: "(string \<times> FsIntent) set \<Rightarrow> (string \<Rightarrow> bool) \<Rightarrow> string \<Rightarrow> FsIntent \<Rightarrow> bool" where
  "deepest entries applies p i \<longleftrightarrow>
     (p, i) \<in> entries \<and> applies p \<and>
     (\<forall>(p', i') \<in> entries. applies p' \<longrightarrow>
        PathKey_depth (PathKey_from_path p') < PathKey_depth (PathKey_from_path p) \<or>
        PathKey_depth (PathKey_from_path p') = PathKey_depth (PathKey_from_path p) \<and> i' \<le> i)"

lemma deepest_intent: "deepest entries applies p i \<Longrightarrow> deepest entries applies p' i' \<Longrightarrow> i = i'"
  unfolding deepest_def by fastforce

lemma plan_deepest:
  "find (\<lambda>m. applies (rm_path m)) (rev (resolve_path_plan rw ro dn)) = Some m \<Longrightarrow>
   deepest (policy_entries rw ro dn) applies (rm_path m) (rm_intent m)"
  using plan_last [of applies rw ro dn m] unfolding deepest_def by blast

end
