(* ===== verification/Rust_Path.thy ===== *)
theory Rust_Path
  imports Models
begin

text \<open>
  \<open>std::path::Path\<close> on Unix, as far as the sources use it: a path is compared, prefixed and shortened by
  its components, in which repeated separators and inner \<open>.\<close> components vanish.
\<close>

datatype Component = RootDir | CurDir | ParentDir | Normal string

definition has_root :: "string \<Rightarrow> bool" where
  "has_root path \<longleftrightarrow> path \<noteq> [] \<and> hd path = CHR ''/''"

definition component_of :: "string \<Rightarrow> Component" where
  "component_of part = (if part = ''.'' then CurDir else if part = ''..'' then ParentDir else Normal part)"

text \<open>A leading \<open>.\<close> of a relative path is kept.\<close>

definition path_components :: "string \<Rightarrow> Component list" where
  "path_components path =
     (let parts = map component_of (filter (\<lambda>part. part \<noteq> []) (split_char (CHR ''/'') path))
      in if has_root path then RootDir # filter (\<lambda>c. c \<noteq> CurDir) parts
         else (case split_char (CHR ''/'') path of
           ''.'' # _ \<Rightarrow> CurDir # filter (\<lambda>c. c \<noteq> CurDir) parts
         | _ \<Rightarrow> filter (\<lambda>c. c \<noteq> CurDir) parts))"

fun component_str :: "Component \<Rightarrow> string" where
  "component_str RootDir = ''/''"
| "component_str CurDir = ''.''"
| "component_str ParentDir = ''..''"
| "component_str (Normal s) = s"

definition is_prefix :: "'a list \<Rightarrow> 'a list \<Rightarrow> bool" where
  "is_prefix xs ys \<longleftrightarrow> take (length xs) ys = xs"

definition Path_starts_with :: "string \<Rightarrow> string \<Rightarrow> bool" where
  "Path_starts_with path base \<longleftrightarrow> is_prefix (path_components base) (path_components path)"

text \<open>\<open>Path::parent\<close>, as the components of the result.\<close>

definition parent_components :: "string \<Rightarrow> Component list option" where
  "parent_components path =
     (let cs = path_components path
      in if cs = [] \<or> last cs = RootDir then None else Some (butlast cs))"

text \<open>\<open>trim_end_matches('/')\<close>.\<close>

definition trim_end_slashes :: "string \<Rightarrow> string" where
  "trim_end_slashes s = rev (dropWhile (\<lambda>c. c = CHR ''/'') (rev s))"

text \<open>An absolute path written with its components: a slash before each.\<close>

definition absolute_path :: "string list \<Rightarrow> string" where
  "absolute_path parts = (if parts = [] then ''/'' else concat (map (\<lambda>p. CHR ''/'' # p) parts))"

lemma split_concat_parts:
  "list_all (\<lambda>p. CHR ''/'' \<notin> set p) ps \<Longrightarrow> split_char (CHR ''/'') (concat (map (\<lambda>p. CHR ''/'' # p) ps)) = [] # ps"
proof (induction ps)
  case Nil
  then show ?case by simp
next
  case (Cons p ps)
  have "split_char (CHR ''/'') (p @ concat (map (\<lambda>p. CHR ''/'' # p) ps)) = p # ps"
  proof (cases ps)
    case Nil
    then show ?thesis using Cons.prems by (simp add: split_char_free)
  next
    case (Cons q qs)
    then have "split_char (CHR ''/'') (concat (map (\<lambda>p. CHR ''/'' # p) ps)) = [] # ps"
      using Cons.IH Cons.prems by simp
    then have "split_char (CHR ''/'') (q @ concat (map (\<lambda>p. CHR ''/'' # p) qs)) = ps" using \<open>ps = q # qs\<close> by simp
    then show ?thesis using \<open>ps = q # qs\<close> Cons.prems by (simp add: split_char_append)
  qed
  then show ?case by simp
qed

lemma components_absolute:
  assumes "list_all proper_segment ps"
  shows "path_components (absolute_path ps) = RootDir # map Normal ps"
proof (cases "ps = []")
  case True
  have "path_components ''/'' = [RootDir]" by code_simp
  with True show ?thesis by (simp add: absolute_path_def)
next
  case False
  have "filter (\<lambda>c. c \<noteq> CurDir) (map component_of ps) = map Normal ps" "filter (\<lambda>p. p \<noteq> []) ps = ps"
    using assms by (induction ps) (auto simp: component_of_def proper_segment_def)
  moreover have "has_root (absolute_path ps)" using False by (cases ps) (simp_all add: absolute_path_def has_root_def)
  moreover have "split_char (CHR ''/'') (absolute_path ps) = [] # ps"
    using split_concat_parts [of ps] assms False by (auto simp: absolute_path_def list_all_iff proper_segment_def)
  ultimately show ?thesis by (simp add: path_components_def)
qed

end
