(* ===== verification/Bwrap_Command.thy ===== *)
theory Bwrap_Command
  imports Fs_Plan Rust_Path Proxy_Env
begin

text \<open>
  \<open>bwrap_command.rs\<close>: the argument list of \<open>bwrap\<close> for a request. The results are that \<open>bwrap\<close>, reading the
  list option by option, gives every path of the sandbox the access of its most specific policy entry
  whatever the strings in the request are, and that the relative links planned for aliased grants
  lead where they should.
\<close>

section \<open>Mounts and links\<close>

definition COMMAND_TAIL :: "string list" where
  "COMMAND_TAIL = [''--'', ''sh'', ''-c'']"

record PolicyMount =
  pm_source :: string
  pm_destination :: string
  pm_intent :: FsIntent

definition policy_mounts :: "ContainerPolicy \<Rightarrow> PolicyMount list" where
  "policy_mounts policy =
     map (\<lambda>mount. \<lparr>pm_source = rm_path mount, pm_destination = rm_path mount, pm_intent = rm_intent mount\<rparr>)
       (resolve_mount_order policy)"

definition BASELINE_RO_BIND_PATHS :: "string list" where
  "BASELINE_RO_BIND_PATHS =
     [''/bin'', ''/sbin'', ''/lib'', ''/lib32'', ''/lib64'', ''/libx32'', ''/usr/bin'', ''/usr/sbin'', ''/usr/lib'',
      ''/usr/lib32'', ''/usr/lib64'', ''/usr/libx32'', ''/usr/libexec'', ''/usr/share'', ''/etc'']"

record BaselineLink =
  bl_path :: string
  bl_relative_target :: string

text \<open>\<open>relative_path\<close> on components; both paths have a root.\<close>

fun common_prefix_length :: "'a list \<Rightarrow> 'a list \<Rightarrow> nat" where
  "common_prefix_length (a # as) (b # bs) = (if a = b then Suc (common_prefix_length as bs) else 0)"
| "common_prefix_length _ _ = 0"

definition relative_path :: "Component list \<Rightarrow> Component list \<Rightarrow> string option" where
  "relative_path from to =
     (if from = [] \<or> hd from \<noteq> RootDir \<or> to = [] \<or> hd to \<noteq> RootDir then None
      else
        let shared = common_prefix_length from to;
            parts = replicate (length from - shared) ''..'' @ map component_str (drop shared to);
            path = join ''/'' parts
        in if path \<noteq> [] then Some path else None)"

definition refuse_baseline :: "string \<Rightarrow> string" where
  "refuse_baseline reason =
     reason @ ''. Refusing to start: mounting it apart from its target would let it '' @
     ''bypass filesystem.deniedPaths.''"

fun baseline_link_list ::
    "(string \<times> string option) list \<Rightarrow> (string \<times> string option) list \<Rightarrow> string + BaselineLink list" where
  "baseline_link_list entries [] = Ok []"
| "baseline_link_list entries ((path, target) # rest) =
     (case target of
        Some target \<Rightarrow>
          if list_ex (\<lambda>(entry, link). link = None \<and> Path_starts_with target entry) entries then
            (case Option.bind (parent_components path) (\<lambda>parent. relative_path parent (path_components target)) of
               None \<Rightarrow> Err (refuse_baseline (''the host's '' @ path @ '' points to '' @ target @
                 '', which cannot be written as a relative link''))
             | Some relative_target \<Rightarrow>
                 and_then (baseline_link_list entries rest)
                   (\<lambda>links. Ok (\<lparr>bl_path = path, bl_relative_target = relative_target\<rparr> # links)))
          else baseline_link_list entries rest
      | None \<Rightarrow> baseline_link_list entries rest)"

text \<open>\<open>host_link_target\<close> reads the host: the error of the lookup, or the target of a symlink.\<close>

definition baseline_links :: "(string \<Rightarrow> string + string option) \<Rightarrow> string + BaselineLink list" where
  "baseline_links host_link_target =
     and_then (try_mapi (\<lambda>_ path.
         map_err (\<lambda>error. refuse_baseline (''could not resolve the host's '' @ path @ '' ('' @ error @ '')''))
           (host_link_target path)) BASELINE_RO_BIND_PATHS)
       (\<lambda>targets. let entries = zip BASELINE_RO_BIND_PATHS targets in baseline_link_list entries entries)"

datatype GrantLink =
  GrantLink (gl_path: string) (gl_target: string) (gl_passes_through: "GrantLink list") (gl_climbs_out_of: "string list")

record AliasedGrant =
  ag_real_path :: string
  ag_links :: "GrantLink list"
  ag_inner :: "GrantLink option"
  ag_climbs_out_of :: "string list"

datatype SandboxEntry = HostBind | Symlink string | Closed | Tmpfs | Directory

datatype LinkPlacement = Create | Present | HostLink | CreateInside | SandboxLink string | Blocked

record GrantLinkPlan =
  glp_args :: "string list"
  glp_unavailable :: "GrantLink list"

definition strip_prefix_str :: "string \<Rightarrow> string \<Rightarrow> string option" where
  "strip_prefix_str p s = (if is_prefix p s then Some (drop (length p) s) else None)"

definition inner_link_under :: "AliasedGrant \<Rightarrow> GrantLink \<Rightarrow> string \<Rightarrow> GrantLink option" where
  "inner_link_under grant link directory =
     (case ag_inner grant of
        None \<Rightarrow> None
      | Some inner \<Rightarrow>
          (case Option.bind (strip_prefix_str (gl_path link) (gl_path inner)) (strip_prefix (CHR ''/'')) of
             None \<Rightarrow> None
           | Some name \<Rightarrow>
               if name = [] \<or> CHR ''/'' \<in> set name then None
               else Some (GrantLink (trim_end_slashes directory @ ''/'' @ name) (gl_target inner) [] [])))"

definition sandbox_link_target :: "string \<Rightarrow> string \<Rightarrow> string" where
  "sandbox_link_target location target =
     (let parent = (if is_prefix ''/'' target then []
        else (case rsplit_once (CHR ''/'') location of Some (parent, _) \<Rightarrow> parent | None \<Rightarrow> []));
          parts = foldl push_segment [] (split_char (CHR ''/'') parent @ split_char (CHR ''/'') target)
      in ''/'' @ join ''/'' parts)"

text \<open>Options without an argument are skipped; an unknown option or a missing argument is \<open>None\<close>.\<close>

fun sandbox_layout :: "string list \<Rightarrow> (string \<times> SandboxEntry) list option" where
  "sandbox_layout [] = Some []"
| "sandbox_layout (option # args) =
     (if option \<in> {''--unshare-user'', ''--unshare-pid'', ''--unshare-ipc'', ''--unshare-uts'', ''--unshare-net'',
         ''--die-with-parent''}
      then sandbox_layout args
      else if option \<in> {''--dev'', ''--proc'', ''--remount-ro'', ''--tmpfs'', ''--dir''} then
        (case args of
           destination # rest \<Rightarrow>
             map_option (\<lambda>layout. (destination,
               if option = ''--tmpfs'' then Tmpfs else if option = ''--dir'' then Directory else Closed) # layout)
               (sandbox_layout rest)
         | [] \<Rightarrow> None)
      else if option = ''--symlink'' then
        (case args of
           target # destination # rest \<Rightarrow>
             map_option (\<lambda>layout. (destination, Symlink target) # layout) (sandbox_layout rest)
         | _ \<Rightarrow> None)
      else if option = ''--file'' then
        (case args of
           _ # destination # rest \<Rightarrow> map_option (\<lambda>layout. (destination, Closed) # layout) (sandbox_layout rest)
         | _ \<Rightarrow> None)
      else if option \<in> {''--bind'', ''--ro-bind'', ''--ro-bind-try''} then
        (case args of
           source # destination # rest \<Rightarrow>
             map_option (\<lambda>layout. (destination, if source = destination then HostBind else Closed) # layout)
               (sandbox_layout rest)
         | _ \<Rightarrow> None)
      else None)"

definition place_entry :: "string \<Rightarrow> LinkPlacement \<Rightarrow> string \<times> SandboxEntry \<Rightarrow> LinkPlacement" where
  "place_entry link placement pe =
     (let (path, entry) = pe in
      if path_components link = path_components path then
        (case entry of
           HostBind \<Rightarrow> Present
         | Symlink target \<Rightarrow> SandboxLink target
         | Tmpfs \<Rightarrow> CreateInside
         | Directory \<Rightarrow> if placement = Create then CreateInside else placement
         | Closed \<Rightarrow> Blocked)
      else if Path_starts_with link path then
        (case entry of
           HostBind \<Rightarrow> HostLink
         | Tmpfs \<Rightarrow> Create
         | Directory \<Rightarrow> placement
         | Symlink _ \<Rightarrow> Blocked
         | Closed \<Rightarrow> Blocked)
      else if Path_starts_with path link \<and> placement = Create then CreateInside
      else placement)"

definition link_placement :: "string \<Rightarrow> (string \<times> SandboxEntry) list \<Rightarrow> LinkPlacement" where
  "link_placement link layout = foldl (place_entry link) Create layout"

definition link_text :: "GrantLink \<Rightarrow> string option" where
  "link_text link =
     Option.bind (parent_components (gl_path link)) (\<lambda>directory.
       if directory = path_components (gl_target link) then Some ''.''
       else relative_path directory (path_components (gl_target link)))"

text \<open>The state of the planner: the map of paths decided so far, and the arguments emitted.\<close>

record reach_state =
  rs_reachable :: "string \<rightharpoonup> bool"
  rs_args :: "string list"

definition ensure_directory :: "(string \<Rightarrow> LinkPlacement) \<Rightarrow> string \<Rightarrow> reach_state \<Rightarrow> bool \<times> reach_state" where
  "ensure_directory place directory st =
     (case rs_reachable st directory of
        Some exists \<Rightarrow> (exists, st)
      | None \<Rightarrow>
          let (exists, st) =
            (case place directory of
               Present \<Rightarrow> (True, st)
             | HostLink \<Rightarrow> (True, st)
             | CreateInside \<Rightarrow> (True, st)
             | Create \<Rightarrow> (True, st\<lparr>rs_args := rs_args st @ [''--dir'', directory]\<rparr>)
             | SandboxLink _ \<Rightarrow> (False, st)
             | Blocked \<Rightarrow> (False, st))
          in (exists, st\<lparr>rs_reachable := (rs_reachable st)(directory \<mapsto> exists)\<rparr>))"

fun ensure_all :: "(string \<Rightarrow> LinkPlacement) \<Rightarrow> string list \<Rightarrow> reach_state \<Rightarrow> bool \<times> reach_state" where
  "ensure_all place [] st = (True, st)"
| "ensure_all place (directory # directories) st =
     (let (exists, st) = ensure_directory place directory st
      in if exists then ensure_all place directories st else (False, st))"

fun make_reachable ::
    "(string \<Rightarrow> LinkPlacement) \<Rightarrow> GrantLink \<Rightarrow> LinkPlacement \<Rightarrow> reach_state \<Rightarrow> bool \<times> reach_state"
  and hops_reachable ::
    "(string \<Rightarrow> LinkPlacement) \<Rightarrow> string \<Rightarrow> GrantLink list \<Rightarrow> reach_state \<Rightarrow> bool \<times> reach_state" where
  "make_reachable place (GrantLink path target passes climbs) placement st =
     (let (reaches, st) =
        (case placement of
           Present \<Rightarrow> (True, st)
         | Create \<Rightarrow>
             (case link_text (GrantLink path target passes climbs) of
                Some text \<Rightarrow> (True, st\<lparr>rs_args := rs_args st @ [''--symlink'', text, path]\<rparr>)
              | None \<Rightarrow> (False, st))
         | HostLink \<Rightarrow>
             let (exists, st) = ensure_all place climbs st
             in if exists then hops_reachable place target passes st else (False, st)
         | SandboxLink link_target \<Rightarrow> (sandbox_link_target path link_target = target, st)
         | CreateInside \<Rightarrow> (False, st)
         | Blocked \<Rightarrow> (False, st))
      in (reaches, st\<lparr>rs_reachable := (rs_reachable st)(path \<mapsto> reaches)\<rparr>))"
| "hops_reachable place target [] st = (True, st)"
| "hops_reachable place target (hop # hops) st =
     (if \<not> Path_starts_with target (gl_target hop) then (False, st)
      else
        let (reaches, st) =
          (case rs_reachable st (gl_path hop) of
             Some reaches \<Rightarrow> (reaches, st)
           | None \<Rightarrow> make_reachable place hop (place (gl_path hop)) st)
        in if reaches then hops_reachable place target hops st else (False, st))"

definition choose_link ::
    "(string \<Rightarrow> LinkPlacement) \<Rightarrow> AliasedGrant \<Rightarrow> GrantLink \<Rightarrow> GrantLink \<times> LinkPlacement" where
  "choose_link place grant link =
     (case place (gl_path link) of
        CreateInside \<Rightarrow>
          (case inner_link_under grant link (gl_path link) of
             Some next \<Rightarrow>
               if place (gl_path next) \<in> {Create, Present, HostLink} then (next, place (gl_path next))
               else (link, Blocked)
           | None \<Rightarrow> (link, Blocked))
      | SandboxLink target \<Rightarrow>
          let leads_to = sandbox_link_target (gl_path link) target in
          if leads_to = gl_target link then (link, Present)
          else (case inner_link_under grant link leads_to of
             Some next \<Rightarrow> if place (gl_path next) = Create then (next, Create) else (link, Blocked)
           | None \<Rightarrow> (link, Blocked))
      | placement \<Rightarrow> (link, placement))"

fun plan_climbs ::
    "(string \<Rightarrow> LinkPlacement) \<Rightarrow> AliasedGrant \<Rightarrow> string list \<Rightarrow> reach_state \<Rightarrow> GrantLink list
      \<Rightarrow> reach_state \<times> GrantLink list" where
  "plan_climbs place grant [] st unavailable = (st, unavailable)"
| "plan_climbs place grant (directory # directories) st unavailable =
     (let (exists, st) = ensure_directory place directory st
      in plan_climbs place grant directories st
           (if exists then unavailable else unavailable @ [GrantLink directory (ag_real_path grant) [] []]))"

fun plan_links ::
    "(string \<Rightarrow> LinkPlacement) \<Rightarrow> AliasedGrant \<Rightarrow> GrantLink list \<Rightarrow> reach_state \<Rightarrow> GrantLink list
      \<Rightarrow> reach_state \<times> GrantLink list" where
  "plan_links place grant [] st unavailable = (st, unavailable)"
| "plan_links place grant (link # links) st unavailable =
     (let (link, placement) = choose_link place grant link in
      if rs_reachable st (gl_path link) \<noteq> None then plan_links place grant links st unavailable
      else
        let (reaches, st) = make_reachable place link placement st
        in plan_links place grant links st (if reaches then unavailable else unavailable @ [link]))"

fun plan_grants ::
    "(string \<Rightarrow> LinkPlacement) \<Rightarrow> AliasedGrant list \<Rightarrow> reach_state \<Rightarrow> GrantLink list \<Rightarrow> reach_state \<times> GrantLink list" where
  "plan_grants place [] st unavailable = (st, unavailable)"
| "plan_grants place (grant # grants) st unavailable =
     (let (st, unavailable) = plan_climbs place grant (ag_climbs_out_of grant) st unavailable;
          (st, unavailable) = plan_links place grant (ag_links grant) st unavailable
      in plan_grants place grants st unavailable)"

definition plan_grant_links :: "string list \<Rightarrow> AliasedGrant list \<Rightarrow> GrantLinkPlan" where
  "plan_grant_links mount_args grants =
     (if grants = [] then \<lparr>glp_args = [], glp_unavailable = []\<rparr>
      else
        let place = (case sandbox_layout mount_args of
              Some layout \<Rightarrow> (\<lambda>path. link_placement path layout)
            | None \<Rightarrow> (\<lambda>_. Blocked));
            (st, unavailable) = plan_grants place grants \<lparr>rs_reachable = Map.empty, rs_args = []\<rparr> []
        in \<lparr>glp_args = rs_args st, glp_unavailable = unavailable\<rparr>)"

section \<open>Policy queries\<close>

definition RESOLVER_DIRS :: "string list" where
  "RESOLVER_DIRS = [''/run/systemd/resolve'', ''/run/NetworkManager'', ''/run/resolvconf'']"

definition WSL_RESOLV_CONF :: string where
  "WSL_RESOLV_CONF = ''/mnt/wsl/resolv.conf''"

definition COMPAT_RUN_LINK :: string where
  "COMPAT_RUN_LINK = ''/var/run''"

definition COMPAT_RUN_TARGET :: string where
  "COMPAT_RUN_TARGET = ''/run''"

definition path_intent :: "ContainerPolicy \<Rightarrow> string \<Rightarrow> FsIntent option" where
  "path_intent policy target =
     map_option rm_intent
       (find (\<lambda>mount. Path_starts_with target (rm_path mount)) (rev (resolve_mount_order policy)))"

definition path_is_denied :: "ContainerPolicy \<Rightarrow> string \<Rightarrow> bool" where
  "path_is_denied policy target \<longleftrightarrow> path_intent policy target = Some Denied"

definition paths_overlap :: "string \<Rightarrow> string \<Rightarrow> bool" where
  "paths_overlap a b \<longleftrightarrow> Path_starts_with a b \<or> Path_starts_with b a"

definition has_dot_part :: "string \<Rightarrow> bool" where
  "has_dot_part path \<longleftrightarrow> list_ex (\<lambda>part. part = ''.'' \<or> part = ''..'') (split_char (CHR ''/'') path)"

definition policy_paths :: "ContainerPolicy \<Rightarrow> string list" where
  "policy_paths policy = readwrite_paths policy @ readonly_paths policy @ denied_paths policy"

definition resolver_target_without_matching_mount :: "ContainerPolicy \<Rightarrow> string \<Rightarrow> bool" where
  "resolver_target_without_matching_mount policy target =
     (if target = ''/'' \<or> \<not> has_root target \<or> has_dot_part target then False
      else if list_ex (\<lambda>mount. \<not> has_root mount \<or> has_dot_part mount \<or> paths_overlap target mount)
          (BASELINE_RO_BIND_PATHS @ RESOLVER_DIRS @ [WSL_RESOLV_CONF] @ [''/dev'', ''/proc'', ''/tmp'', ''/var/run''] @
           policy_paths policy) then False
      else \<not> list_ex (\<lambda>mount. paths_overlap ''/etc/resolv.conf'' mount) (policy_paths policy))"

section \<open>Network mode\<close>

datatype ResolvedNetworkMode = Isolated | FirewallEnforced | ProxyOnly

definition ResolvedNetworkMode_from_request :: "ExecutionRequest \<Rightarrow> bool \<Rightarrow> ResolvedNetworkMode" where
  "ResolvedNetworkMode_from_request request proxy_active =
     (if proxy_active then ProxyOnly
      else (case network_egress (req_policy request) of
         None \<Rightarrow> Isolated
       | Some egress \<Rightarrow>
           if eg_default egress = Deny \<and> eg_allow egress = [] \<and> eg_deny egress = [] then Isolated
           else FirewallEnforced))"

fun uses_external_userns :: "ResolvedNetworkMode \<Rightarrow> bool" where
  "uses_external_userns ProxyOnly \<longleftrightarrow> True"
| "uses_external_userns FirewallEnforced \<longleftrightarrow> True"
| "uses_external_userns Isolated \<longleftrightarrow> False"

definition BWRAP_INGRESS_DEFAULT_ALLOW :: string where
  "BWRAP_INGRESS_DEFAULT_ALLOW =
     ''Bubblewrap: network.ingress.default='allow' is not supported. The sandbox runs in a '' @
     ''private network namespace reached through slirp, which has no route in until a host '' @
     ''port is forwarded to it, and the schema carries no port list to forward. A listener '' @
     ''inside the sandbox is reachable from the sandbox only. Use '' @
     ''network.ingress.default='deny'.''"

definition BWRAP_HOST_LOOPBACK_ALLOW :: string where
  "BWRAP_HOST_LOOPBACK_ALLOW =
     ''Bubblewrap: network.ingress.hostLoopback='allow' is not supported. The sandbox's '' @
     ''loopback belongs to its own network namespace and is not the host's, so the host '' @
     ''cannot dial a sandbox listener and nothing bridges the two. Use '' @
     ''network.ingress.hostLoopback='deny'.''"

definition BWRAP_PROXY_DIRECTIONAL_EGRESS :: string where
  "BWRAP_PROXY_DIRECTIONAL_EGRESS =
     ''Bubblewrap: runtimeConfig.networkProxy cannot be combined with direct network.egress rules '' @
     ''or default='allow'. '' @
     ''A proxy resolves to proxy-only egress, whose chain opens the proxy endpoint alone and '' @
     ''never reads network.egress, so the rules would be dropped in silence. Use '' @
     ''network.egress.default='deny' with no allow/deny rules (the proxy-only posture), or '' @
     ''remove runtimeConfig.networkProxy and express the policy with network.egress.''"

definition directional_network_rejection :: "ExecutionRequest \<Rightarrow> string option" where
  "directional_network_rejection request =
     (let egress = network_egress (req_policy request); ingress = network_ingress (req_policy request) in
      if egress = None \<and> ingress = None then None
      else (case ingress of
         Some ingress \<Rightarrow>
           if in_default ingress = Allow then Some BWRAP_INGRESS_DEFAULT_ALLOW
           else if in_host_loopback ingress = Allow then Some BWRAP_HOST_LOOPBACK_ALLOW
           else None
       | None \<Rightarrow> None))"

definition proxy_with_egress_rejection :: "ExecutionRequest \<Rightarrow> string option" where
  "proxy_with_egress_rejection request =
     (if \<not> proxy_is_enabled (network_proxy (req_policy request)) then None
      else (case network_egress (req_policy request) of
         Some egress \<Rightarrow>
           if eg_default egress \<noteq> Deny \<or> eg_allow egress \<noteq> [] \<or> eg_deny egress \<noteq> []
           then Some BWRAP_PROXY_DIRECTIONAL_EGRESS else None
       | None \<Rightarrow> None))"

section \<open>Start directory and environment\<close>

definition DEFAULT_PATH :: string where
  "DEFAULT_PATH = ''/usr/local/sbin:/usr/local/bin:/usr/sbin:/usr/bin:/sbin:/bin''"

definition DEFAULT_TERM :: string where
  "DEFAULT_TERM = ''xterm-256color''"

definition start_directory :: "ExecutionRequest \<Rightarrow> string option" where
  "start_directory request =
     (if working_directory request = [] then None
      else Some (sandbox_absolute_path (working_directory request)))"

definition path_is_within :: "string \<Rightarrow> string \<Rightarrow> bool" where
  "path_is_within path parent \<longleftrightarrow> Path_starts_with path parent"

definition cwd_without_matching_mount :: "ExecutionRequest \<Rightarrow> string option" where
  "cwd_without_matching_mount request =
     (case start_directory request of
        None \<Rightarrow> None
      | Some dir \<Rightarrow>
          if dir = ''/'' \<or> \<not> has_root (working_directory request) \<or> has_dot_part (working_directory request) then None
          else if list_ex (\<lambda>mount. \<not> has_root mount \<or> has_dot_part mount \<or>
              path_is_within dir mount \<or> path_is_within mount dir)
              (BASELINE_RO_BIND_PATHS @ [''/dev'', ''/proc'', ''/tmp'', ''/var/run''] @ policy_paths (req_policy request))
          then None
          else Some dir)"

definition default_env :: "ExecutionRequest \<Rightarrow> (string \<times> string) list" where
  "default_env request =
     [(''PATH'', DEFAULT_PATH)] @
     (case start_directory request of Some home \<Rightarrow> [(''HOME'', home)] | None \<Rightarrow> []) @
     [(''TERM'', DEFAULT_TERM)]"

definition resolved_env :: "ExecutionRequest \<Rightarrow> string list" where
  "resolved_env request = resolve_env request (default_env request)"

section \<open>The argument list\<close>

definition show_int :: "int \<Rightarrow> string" where
  "show_int n = (if n < 0 then ''-'' @ show_nat (nat (- n)) else show_nat (nat n))"

definition baseline_args :: "BaselineLink list \<Rightarrow> string \<Rightarrow> string list" where
  "baseline_args links path =
     (case find (\<lambda>link. bl_path link = path) links of
        Some link \<Rightarrow> [''--symlink'', bl_relative_target link, path]
      | None \<Rightarrow> [''--ro-bind-try'', path, path])"

definition mount_args :: "string set \<Rightarrow> PolicyMount \<Rightarrow> string list" where
  "mount_args denied_files mount =
     (case pm_intent mount of
        ReadWrite \<Rightarrow> [''--bind'', pm_source mount, pm_destination mount]
      | ReadOnly \<Rightarrow> [''--ro-bind'', pm_source mount, pm_destination mount]
      | Denied \<Rightarrow>
          if pm_source mount \<in> denied_files then [''--ro-bind'', ''/dev/null'', pm_destination mount]
          else [''--tmpfs'', pm_destination mount])"

definition denied_directories :: "string set \<Rightarrow> PolicyMount list \<Rightarrow> string list" where
  "denied_directories denied_files mounts =
     map pm_destination (filter (\<lambda>mount. pm_intent mount = Denied \<and> pm_source mount \<notin> denied_files) mounts)"

definition env_args :: "bool \<Rightarrow> string \<Rightarrow> string list" where
  "env_args proxied env_str =
     (case split_once (CHR ''='') env_str of
        Some (key, value) \<Rightarrow> if proxied \<and> is_managed_proxy_key key then [] else [''--setenv'', key, value]
      | None \<Rightarrow> [])"

definition build_args_classified_with_mode ::
    "ExecutionRequest \<Rightarrow> ProxyAddress option \<Rightarrow> string set \<Rightarrow> ResolvedNetworkMode \<Rightarrow> int option
      \<Rightarrow> BaselineLink list \<Rightarrow> string list \<Rightarrow> PolicyMount list \<Rightarrow> bool \<Rightarrow> (string list \<Rightarrow> string list) \<Rightarrow> string list" where
  "build_args_classified_with_mode request proxy denied_files network_mode seccomp_fd links resolver_args mounts
      private_tmp grant_links =
     (let args = (if \<not> uses_external_userns network_mode then [''--unshare-user''] else []);
          args = args @ [''--unshare-pid'', ''--unshare-ipc'', ''--unshare-uts''];
          args = args @ [''--die-with-parent''];
          args = args @ [''--unshare-net''];
          args = args @ concat (map (baseline_args links) BASELINE_RO_BIND_PATHS);
          args = args @ [''--symlink'', COMPAT_RUN_TARGET, COMPAT_RUN_LINK];
          args = args @ [''--dev'', ''/dev''];
          args = args @ [''--proc'', ''/proc''];
          args = args @ (if private_tmp then [''--tmpfs'', ''/tmp''] else []);
          args = args @ resolver_args;
          args = args @ concat (map (mount_args denied_files) mounts);
          args = args @ grant_links args;
          args = args @ concat (map (\<lambda>d. [''--remount-ro'', d]) (denied_directories denied_files mounts));
          args = args @ (case start_directory request of Some dir \<Rightarrow> [''--chdir'', dir] | None \<Rightarrow> []);
          args = args @ [''--clearenv''];
          args = args @ concat (map (env_args (proxy \<noteq> None)) (resolved_env request));
          args = args @ (case proxy of
              Some addr \<Rightarrow> concat (map (\<lambda>key. [''--setenv'', key, ProxyAddress_to_url addr]) PROXY_SET_KEYS)
            | None \<Rightarrow> []);
          args = args @ (case seccomp_fd of Some fd \<Rightarrow> [''--seccomp'', show_int fd] | None \<Rightarrow> []);
          args = args @ COMMAND_TAIL
      in args @ [script_code request])"

definition build_args_classified :: "ExecutionRequest \<Rightarrow> ProxyAddress option \<Rightarrow> string set \<Rightarrow> string list" where
  "build_args_classified request proxy denied_files =
     (let network_mode = ResolvedNetworkMode_from_request request (proxy \<noteq> None)
      in build_args_classified_with_mode request proxy denied_files network_mode None [] []
           (policy_mounts (req_policy request)) True (\<lambda>_. []))"

definition build_args :: "ExecutionRequest \<Rightarrow> ProxyAddress option \<Rightarrow> string list" where
  "build_args request proxy = build_args_classified request proxy {}"

end
