(* ===== verification/Bwrap_Access.thy ===== *)
theory Bwrap_Access
  imports Bwrap_Command
begin

text \<open>
  What \<open>bwrap\<close> makes of the argument list of \<open>Bwrap_Command\<close>. The arities of its options are a parameter
  with their documented values as a hypothesis; options are read left to right, and mounts are applied
  in that order. The results are that no string of the request is ever read as an option, that every
  path gets the access of its most specific policy entry, and that the environment is the resolved one.
\<close>

section \<open>Reading the options\<close>

type_synonym bwrap_op = "string \<times> string list"

function read_options :: "(string \<Rightarrow> nat option) \<Rightarrow> string list \<Rightarrow> (bwrap_op list \<times> string list) option" where
  "read_options arity [] = None"
| "read_options arity (option # args) =
     (if option = ''--'' then Some ([], args)
      else (case arity option of
         None \<Rightarrow> None
       | Some n \<Rightarrow>
           if length args < n then None
           else map_option (\<lambda>(ops, command). ((option, take n args) # ops, command)) (read_options arity (drop n args))))"
  by pat_completeness auto
termination by (relation "measure (\<lambda>(_, args). length args)") auto

definition BWRAP_ARITIES :: "(string \<times> nat) list" where
  "BWRAP_ARITIES =
     [(''--unshare-user'', 0), (''--unshare-pid'', 0), (''--unshare-ipc'', 0), (''--unshare-uts'', 0),
      (''--unshare-net'', 0), (''--die-with-parent'', 0), (''--clearenv'', 0), (''--dev'', 1), (''--proc'', 1),
      (''--tmpfs'', 1), (''--dir'', 1), (''--remount-ro'', 1), (''--chdir'', 1), (''--seccomp'', 1), (''--bind'', 2),
      (''--ro-bind'', 2), (''--ro-bind-try'', 2), (''--symlink'', 2), (''--file'', 2), (''--setenv'', 2)]"

definition documented_arity :: "(string \<Rightarrow> nat option) \<Rightarrow> bool" where
  "documented_arity arity \<longleftrightarrow> list_all (\<lambda>(option, n). arity option = Some n) BWRAP_ARITIES"

definition known_op :: "bwrap_op \<Rightarrow> bool" where
  "known_op op \<longleftrightarrow> (fst op, length (snd op)) \<in> set BWRAP_ARITIES"

definition args_of :: "bwrap_op list \<Rightarrow> string list" where
  "args_of ops = concat (map (\<lambda>(option, args). option # args) ops)"

lemma args_of_simps [simp]:
  "args_of [] = []" "args_of ((option, args) # ops) = option # args @ args_of ops"
  "args_of (xs @ ys) = args_of xs @ args_of ys"
  by (simp_all add: args_of_def)

lemma args_of_concat: "args_of (concat (map f xs)) = concat (map (\<lambda>x. args_of (f x)) xs)"
  by (induction xs) simp_all

lemma read_args_of:
  assumes "documented_arity arity" and "list_all known_op ops"
  shows "read_options arity (args_of ops @ ''--'' # command) = Some (ops, command)"
  using assms(2)
proof (induction ops)
  case (Cons op ops)
  obtain option args where op: "op = (option, args)" by (cases op)
  have known: "(option, length args) \<in> set BWRAP_ARITIES" using Cons.prems by (simp add: op known_op_def)
  then have "arity option = Some (length args)" using assms(1) by (auto simp: documented_arity_def list_all_iff)
  moreover have "option \<noteq> ''--''" using known by (auto simp: BWRAP_ARITIES_def)
  ultimately show ?case using Cons by (simp add: op)
qed simp

section \<open>Mounts and environment\<close>

text \<open>
  What a path of the sandbox shows: a host path, writable or not, a writable or sealed empty
  filesystem, or a virtual one. A mount on or above the path replaces what was there; remounting
  affects the mount point only.
\<close>

datatype access = Writable string | Readable string | Scratch | Sealed | Virtual

fun read_only :: "access \<Rightarrow> access" where
  "read_only (Writable s) = Readable s"
| "read_only Scratch = Sealed"
| "read_only a = a"

fun mounted :: "bwrap_op \<Rightarrow> access option" where
  "mounted (option, args) =
     (if option = ''--bind'' then Some (Writable (hd args))
      else if option = ''--ro-bind'' \<or> option = ''--ro-bind-try'' then Some (Readable (hd args))
      else if option = ''--tmpfs'' then Some Scratch
      else if option = ''--dev'' \<or> option = ''--proc'' then Some Virtual
      else None)"

definition mount_step :: "string \<Rightarrow> (Component list \<times> access) option \<Rightarrow> bwrap_op \<Rightarrow> (Component list \<times> access) option" where
  "mount_step q st op =
     (let point = last (snd op) in
      if fst op = ''--remount-ro'' then
        map_option (\<lambda>(at, a). (at, if at = path_components point then read_only a else a)) st
      else (case mounted op of
         Some a \<Rightarrow> if Path_starts_with q point then Some (path_components point, a) else st
       | None \<Rightarrow> st))"

definition access_at :: "bwrap_op list \<Rightarrow> string \<Rightarrow> access option" where
  "access_at ops q = map_option snd (foldl (mount_step q) None ops)"

definition env_step :: "(string \<rightharpoonup> string) \<Rightarrow> bwrap_op \<Rightarrow> (string \<rightharpoonup> string)" where
  "env_step env op =
     (if fst op = ''--clearenv'' then Map.empty
      else if fst op = ''--setenv'' then env(hd (snd op) \<mapsto> last (snd op))
      else env)"

definition env_after :: "(string \<rightharpoonup> string) \<Rightarrow> bwrap_op list \<Rightarrow> (string \<rightharpoonup> string)" where
  "env_after host ops = foldl env_step host ops"

section \<open>The options of a request\<close>

definition baseline_op :: "BaselineLink list \<Rightarrow> string \<Rightarrow> bwrap_op" where
  "baseline_op links path =
     (case find (\<lambda>link. bl_path link = path) links of
        Some link \<Rightarrow> (''--symlink'', [bl_relative_target link, path])
      | None \<Rightarrow> (''--ro-bind-try'', [path, path]))"

definition mount_op :: "string set \<Rightarrow> PolicyMount \<Rightarrow> bwrap_op" where
  "mount_op denied_files mount =
     (case pm_intent mount of
        ReadWrite \<Rightarrow> (''--bind'', [pm_source mount, pm_destination mount])
      | ReadOnly \<Rightarrow> (''--ro-bind'', [pm_source mount, pm_destination mount])
      | Denied \<Rightarrow>
          if pm_source mount \<in> denied_files then (''--ro-bind'', [''/dev/null'', pm_destination mount])
          else (''--tmpfs'', [pm_destination mount]))"

definition base_ops :: "ResolvedNetworkMode \<Rightarrow> BaselineLink list \<Rightarrow> bool \<Rightarrow> bwrap_op list" where
  "base_ops mode links private_tmp =
     (if \<not> uses_external_userns mode then [(''--unshare-user'', [])] else []) @
     [(''--unshare-pid'', []), (''--unshare-ipc'', []), (''--unshare-uts'', []), (''--die-with-parent'', []),
      (''--unshare-net'', [])] @
     map (baseline_op links) BASELINE_RO_BIND_PATHS @
     [(''--symlink'', [COMPAT_RUN_TARGET, COMPAT_RUN_LINK]), (''--dev'', [''/dev'']), (''--proc'', [''/proc''])] @
     (if private_tmp then [(''--tmpfs'', [''/tmp''])] else [])"

definition seal_ops :: "string set \<Rightarrow> PolicyMount list \<Rightarrow> bwrap_op list" where
  "seal_ops denied_files mounts = map (\<lambda>d. (''--remount-ro'', [d])) (denied_directories denied_files mounts)"

definition env_ops :: "ExecutionRequest \<Rightarrow> ProxyAddress option \<Rightarrow> bwrap_op list" where
  "env_ops request proxy =
     (''--clearenv'', []) #
     map (\<lambda>(key, value). (''--setenv'', [key, value]))
       (filter (\<lambda>(key, _). \<not> (proxy \<noteq> None \<and> is_managed_proxy_key key)) (env_pairs (resolved_env request))) @
     (case proxy of
        Some addr \<Rightarrow> map (\<lambda>key. (''--setenv'', [key, ProxyAddress_to_url addr])) PROXY_SET_KEYS
      | None \<Rightarrow> [])"

definition tail_ops :: "ExecutionRequest \<Rightarrow> ProxyAddress option \<Rightarrow> int option \<Rightarrow> bwrap_op list" where
  "tail_ops request proxy fd =
     (case start_directory request of Some dir \<Rightarrow> [(''--chdir'', [dir])] | None \<Rightarrow> []) @
     env_ops request proxy @
     (case fd of Some fd \<Rightarrow> [(''--seccomp'', [show_int fd])] | None \<Rightarrow> [])"

lemma env_args_of:
  "concat (map (env_args proxied) entries) =
     args_of (map (\<lambda>(key, value). (''--setenv'', [key, value]))
       (filter (\<lambda>(key, _). \<not> (proxied \<and> is_managed_proxy_key key)) (env_pairs entries)))"
  by (induction entries) (auto simp: env_args_def env_pairs_def map_filter_simps split: option.splits)

lemma build_reads:
  assumes "\<And>args. grant_links args = args_of (lops args)"
  shows "build_args_classified_with_mode request proxy denied_files mode fd links (args_of rops) mounts
      private_tmp grant_links =
    args_of (base_ops mode links private_tmp @ rops @ map (mount_op denied_files) mounts @
      lops (args_of (base_ops mode links private_tmp @ rops @ map (mount_op denied_files) mounts)) @
      seal_ops denied_files mounts @ tail_ops request proxy fd) @ ''--'' # [''sh'', ''-c'', script_code request]"
proof -
  have b: "concat (map (baseline_args links) ps) = args_of (map (baseline_op links) ps)" for ps
    by (induction ps) (auto simp: baseline_args_def baseline_op_def split: option.splits)
  have m: "concat (map (mount_args denied_files) ms) = args_of (map (mount_op denied_files) ms)" for ms
    by (induction ms) (auto simp: mount_args_def mount_op_def split: FsIntent.splits)
  have s: "concat (map (\<lambda>d. [''--remount-ro'', d]) ds) = args_of (map (\<lambda>d. (''--remount-ro'', [d])) ds)" for ds
    by (induction ds) simp_all
  have u: "concat (map (\<lambda>key. [''--setenv'', key, url]) ks) = args_of (map (\<lambda>key. (''--setenv'', [key, url])) ks)" for ks url
    by (induction ks) simp_all
  show ?thesis
    unfolding build_args_classified_with_mode_def Let_def assms b m s u env_args_of COMMAND_TAIL_def
      base_ops_def seal_ops_def tail_ops_def env_ops_def
    by (auto split: option.splits)
qed

section \<open>The planned grant links\<close>

fun all_links :: "(string \<Rightarrow> string \<Rightarrow> bool) \<Rightarrow> GrantLink \<Rightarrow> bool" where
  "all_links R (GrantLink path target passes climbs) \<longleftrightarrow> R path target \<and> list_all (all_links R) passes"

text \<open>The options the planner emits: a directory or a relative link, where nothing else is.\<close>

definition emitted :: "(string \<Rightarrow> LinkPlacement) \<Rightarrow> (string \<Rightarrow> string \<Rightarrow> bool) \<Rightarrow> bwrap_op \<Rightarrow> bool" where
  "emitted place R op \<longleftrightarrow>
     (\<exists>d. op = (''--dir'', [d]) \<and> place d = Create) \<or>
     (\<exists>text path target. op = (''--symlink'', [text, path]) \<and> place path = Create \<and> R path target \<and>
        link_text (GrantLink path target [] []) = Some text)"

definition emits :: "(string \<Rightarrow> LinkPlacement) \<Rightarrow> (string \<Rightarrow> string \<Rightarrow> bool) \<Rightarrow> reach_state \<Rightarrow> reach_state \<Rightarrow> bool" where
  "emits place R st st' \<longleftrightarrow> (\<exists>ops. rs_args st' = rs_args st @ args_of ops \<and> list_all (emitted place R) ops)"

lemma emits_refl: "rs_args st' = rs_args st \<Longrightarrow> emits place R st st'"
  unfolding emits_def by (intro exI [of _ "[]"]) simp

lemma emits_trans: "emits place R a b \<Longrightarrow> emits place R b c \<Longrightarrow> emits place R a c"
  unfolding emits_def by (metis append_assoc args_of_simps(3) list_all_append)

lemma emits_reachable [simp]: "emits place R st (st'\<lparr>rs_reachable := r\<rparr>) = emits place R st st'"
  by (simp add: emits_def)

lemma emits_self [simp]: "emits place R st st"
  by (rule emits_refl) simp

lemma emits_dir: "place d = Create \<Longrightarrow> emits place R st (st\<lparr>rs_args := rs_args st @ [''--dir'', d]\<rparr>)"
  unfolding emits_def by (intro exI [of _ "[(''--dir'', [d])]"]) (simp add: emitted_def)

lemma emits_symlink:
  "place path = Create \<Longrightarrow> R path target \<Longrightarrow> link_text (GrantLink path target [] []) = Some text \<Longrightarrow>
     emits place R st (st\<lparr>rs_args := rs_args st @ [''--symlink'', text, path]\<rparr>)"
  unfolding emits_def by (intro exI [of _ "[(''--symlink'', [text, path])]"]) (auto simp: emitted_def)

lemma ensure_directory_emits: "emits place R st (snd (ensure_directory place d st))"
  by (simp add: ensure_directory_def emits_dir split: option.splits LinkPlacement.splits)

lemma ensure_all_emits: "emits place R st (snd (ensure_all place ds st))"
proof (induction ds arbitrary: st)
  case (Cons d ds)
  have "emits place R st (snd (ensure_directory place d st))" by (rule ensure_directory_emits)
  with Cons show ?case by (auto split: prod.splits intro: emits_trans)
qed (simp add: emits_refl)

lemma link_text_parts: "link_text (GrantLink path target passes climbs) = link_text (GrantLink path target [] [])"
  by (simp only: link_text_def GrantLink.sel)

lemma make_reachable_emits:
  "all_links R link \<Longrightarrow> (placement = Create \<Longrightarrow> place (gl_path link) = Create) \<Longrightarrow>
     emits place R st (snd (make_reachable place link placement st))"
  "list_all (all_links R) hops \<Longrightarrow> emits place R st (snd (hops_reachable place target hops st))"
proof (induction place link placement st and place target hops st rule: make_reachable_hops_reachable.induct)
  case (1 place path target passes climbs placement st)
  show ?case
  proof (cases placement)
    case Create
    then show ?thesis
      using 1(2,3) link_text_parts [of path target passes climbs]
      by (auto split: option.splits intro: emits_symlink)
  next
    case HostLink
    obtain ok st1 where e: "ensure_all place climbs st = (ok, st1)" by (cases "ensure_all place climbs st")
    then have "emits place R st st1" using ensure_all_emits [of place R st climbs] by simp
    moreover have "emits place R st1 (snd (hops_reachable place target passes st1))" if ok
      using 1(1) [OF HostLink e [symmetric] refl that] 1(2) by simp
    ultimately show ?thesis using HostLink e by (auto split: prod.splits intro: emits_trans)
  qed auto
next
  case (2 place target st)
  then show ?case by (simp add: emits_refl)
next
  case (3 place target hop hops st)
  show ?case
  proof (cases "Path_starts_with target (gl_target hop)")
    case True
    define r where "r = (case rs_reachable st (gl_path hop) of Some reaches \<Rightarrow> (reaches, st)
      | None \<Rightarrow> make_reachable place hop (place (gl_path hop)) st)"
    have "emits place R st (snd r)" using 3(1) 3(3) True by (auto simp: r_def split: option.splits)
    moreover have "emits place R (snd r) (snd (hops_reachable place target hops (snd r)))" if "fst r"
      using 3(2) [of r "fst r" "snd r"] 3(3) True that by (simp add: r_def)
    ultimately show ?thesis using True by (auto simp: r_def [symmetric] split: prod.splits intro: emits_trans)
  qed simp
qed

text \<open>
  The links a grant asks for satisfy \<open>R\<close>, and so do the ones moved below a directory or a link of the
  sandbox.
\<close>

definition grant_links_in :: "(string \<Rightarrow> string \<Rightarrow> bool) \<Rightarrow> AliasedGrant \<Rightarrow> bool" where
  "grant_links_in R grant \<longleftrightarrow>
     list_all (\<lambda>link. all_links R link \<and>
       (\<forall>directory next. (directory = gl_path link \<or> (\<exists>text. directory = sandbox_link_target (gl_path link) text)) \<longrightarrow>
          inner_link_under grant link directory = Some next \<longrightarrow> R (gl_path next) (gl_target next))) (ag_links grant)"

lemma inner_link_shape: "inner_link_under grant link d = Some next \<Longrightarrow> gl_passes_through next = []"
  by (auto simp: inner_link_under_def split: option.splits if_splits)

lemma all_links_flat: "gl_passes_through link = [] \<Longrightarrow> all_links R link \<longleftrightarrow> R (gl_path link) (gl_target link)"
  by (cases link) simp

lemma choose_link_ok:
  assumes "grant_links_in R grant" and "link \<in> set (ag_links grant)" and "choose_link place grant link = (l, placement)"
  shows "all_links R l" and "placement = Create \<Longrightarrow> place (gl_path l) = Create"
proof -
  have g: "all_links R link"
    "\<And>d next. d = gl_path link \<or> (\<exists>text. d = sandbox_link_target (gl_path link) text) \<Longrightarrow>
       inner_link_under grant link d = Some next \<Longrightarrow> all_links R next"
    using assms(1,2) unfolding grant_links_in_def list_all_iff by (blast, metis inner_link_shape all_links_flat)
  show "all_links R l"
  proof (cases "place (gl_path link)")
    case CreateInside
    then show ?thesis using assms(3) g(1) g(2) [of "gl_path link"]
      by (auto simp: choose_link_def split: option.splits if_splits)
  next
    case (SandboxLink target)
    then show ?thesis using assms(3) g(1) g(2) [of "sandbox_link_target (gl_path link) target"]
      by (auto simp: choose_link_def Let_def split: option.splits if_splits)
  qed (use assms(3) g(1) in \<open>auto simp: choose_link_def\<close>)
  show "placement = Create \<Longrightarrow> place (gl_path l) = Create"
    using assms(3) by (cases "place (gl_path link)") (auto simp: choose_link_def Let_def split: option.splits if_splits)
qed

lemma plan_climbs_emits: "emits place R st (fst (plan_climbs place grant ds st un))"
proof (induction ds arbitrary: st un)
  case (Cons d ds)
  have "emits place R st (snd (ensure_directory place d st))" by (rule ensure_directory_emits)
  with Cons show ?case by (auto split: prod.splits intro: emits_trans)
qed simp

lemma plan_links_emits:
  "grant_links_in R grant \<Longrightarrow> set links \<subseteq> set (ag_links grant) \<Longrightarrow>
     emits place R st (fst (plan_links place grant links st un))"
proof (induction links arbitrary: st un)
  case (Cons link links)
  obtain l placement where c: "choose_link place grant link = (l, placement)" by (cases "choose_link place grant link")
  obtain ok st' where m: "make_reachable place l placement st = (ok, st')" by (cases "make_reachable place l placement st")
  have "emits place R st st'"
    using make_reachable_emits(1) [of R l placement place st] choose_link_ok [OF Cons.prems(1) _ c] Cons.prems(2) m
    by simp
  moreover have "emits place R st' (fst (plan_links place grant links st' u))" "emits place R st (fst (plan_links place grant links st u))" for u
    using Cons by simp_all
  ultimately show ?case using c m by (auto intro: emits_trans)
qed simp

lemma plan_grants_emits:
  "list_all (grant_links_in R) grants \<Longrightarrow> emits place R st (fst (plan_grants place grants st un))"
proof (induction grants arbitrary: st un)
  case (Cons grant grants)
  obtain st1 un1 where c: "plan_climbs place grant (ag_climbs_out_of grant) st un = (st1, un1)"
    by (cases "plan_climbs place grant (ag_climbs_out_of grant) st un")
  obtain st2 un2 where l: "plan_links place grant (ag_links grant) st1 un1 = (st2, un2)"
    by (cases "plan_links place grant (ag_links grant) st1 un1")
  have "emits place R st st1" using plan_climbs_emits [of place R st grant "ag_climbs_out_of grant" un] c by simp
  moreover have "emits place R st1 st2"
    using plan_links_emits [of R grant "ag_links grant" place st1 un1] Cons.prems l by simp
  moreover have "emits place R st2 (fst (plan_grants place grants st2 un2))" using Cons by simp
  ultimately show ?case using c l by (auto intro: emits_trans)
qed simp

definition layout_place :: "string list \<Rightarrow> string \<Rightarrow> LinkPlacement" where
  "layout_place margs path =
     (case sandbox_layout margs of Some layout \<Rightarrow> link_placement path layout | None \<Rightarrow> Blocked)"

lemma plan_emits:
  assumes "list_all (grant_links_in R) grants"
  obtains ops where "glp_args (plan_grant_links margs grants) = args_of ops" and "list_all (emitted (layout_place margs) R) ops"
proof (cases "grants = []")
  case True
  then show ?thesis using that [of "[]"] by (simp add: plan_grant_links_def)
next
  case False
  let ?st0 = "\<lparr>rs_reachable = Map.empty, rs_args = []\<rparr>"
  have place: "(case sandbox_layout margs of Some layout \<Rightarrow> (\<lambda>path. link_placement path layout) | None \<Rightarrow> (\<lambda>_. Blocked)) =
      layout_place margs"
    by (auto simp: layout_place_def split: option.splits)
  have "emits (layout_place margs) R ?st0 (fst (plan_grants (layout_place margs) grants ?st0 []))"
    by (rule plan_grants_emits [OF assms])
  moreover have "glp_args (plan_grant_links margs grants) = rs_args (fst (plan_grants (layout_place margs) grants ?st0 []))"
    using False by (simp add: plan_grant_links_def place split: prod.splits)
  ultimately show ?thesis using that by (auto simp: emits_def)
qed

section \<open>The effect of the options\<close>

text \<open>The options with which the resolver's directories are laid out.\<close>

definition resolver_op :: "bwrap_op \<Rightarrow> bool" where
  "resolver_op op \<longleftrightarrow>
     known_op op \<and> fst op \<in> set [''--tmpfs'', ''--file'', ''--dir'', ''--ro-bind'', ''--remount-ro'', ''--symlink'']"

definition inert :: "bwrap_op \<Rightarrow> bool" where
  "inert op \<longleftrightarrow> fst op \<noteq> ''--remount-ro'' \<and> mounted op = None"

lemma known_simps [simp]:
  "known_op (''--unshare-user'', [])" "known_op (''--unshare-pid'', [])" "known_op (''--unshare-ipc'', [])"
  "known_op (''--unshare-uts'', [])" "known_op (''--unshare-net'', [])" "known_op (''--die-with-parent'', [])"
  "known_op (''--clearenv'', [])" "known_op (''--dev'', [a])" "known_op (''--proc'', [a])" "known_op (''--tmpfs'', [a])"
  "known_op (''--dir'', [a])" "known_op (''--remount-ro'', [a])" "known_op (''--chdir'', [a])"
  "known_op (''--seccomp'', [a])" "known_op (''--bind'', [a, b])" "known_op (''--ro-bind'', [a, b])"
  "known_op (''--ro-bind-try'', [a, b])" "known_op (''--symlink'', [a, b])" "known_op (''--setenv'', [a, b])"
  by (simp_all add: known_op_def BWRAP_ARITIES_def)

lemma known_mount_op [simp]: "known_op (mount_op dfs m)"
  by (simp add: mount_op_def split: FsIntent.splits)

lemma known_baseline_op [simp]: "known_op (baseline_op links p)"
  by (simp add: baseline_op_def split: option.splits)

lemma emitted_known: "emitted place R op \<Longrightarrow> known_op op"
  by (auto simp: emitted_def)

lemma emitted_inert: "emitted place R op \<Longrightarrow> inert op"
  by (auto simp: emitted_def inert_def)

lemma tail_inert: "list_all inert (tail_ops request proxy fd)"
  by (auto simp: tail_ops_def env_ops_def inert_def list_all_iff split: option.splits)

lemma known_parts:
  "list_all known_op (base_ops mode links tmp)" "list_all known_op (map (mount_op dfs) mounts)"
  "list_all known_op (seal_ops dfs mounts)" "list_all known_op (tail_ops request proxy fd)"
  by (auto simp: base_ops_def seal_ops_def tail_ops_def env_ops_def list_all_iff split: option.splits)

lemma foldl_inert: "list_all inert ops \<Longrightarrow> foldl (mount_step q) st ops = st"
  by (induction ops) (auto simp: mount_step_def inert_def)

lemma foldl_remount:
  "foldl (mount_step q) st (map (\<lambda>d. (''--remount-ro'', [d])) ds) =
     map_option (\<lambda>(at, a). (at, if at \<in> path_components ` set ds then read_only a else a)) st"
proof (induction ds arbitrary: st)
  case Nil
  show ?case by (simp add: option.map_id [unfolded id_def] case_prod_unfold)
next
  case (Cons d ds)
  have idem: "read_only (read_only a) = read_only a" for a by (cases a) simp_all
  have "foldl (mount_step q) st (map (\<lambda>d. (''--remount-ro'', [d])) (d # ds)) =
      foldl (mount_step q) (map_option (\<lambda>(at, a). (at, if at = path_components d then read_only a else a)) st)
        (map (\<lambda>d. (''--remount-ro'', [d])) ds)"
    by (simp add: mount_step_def)
  then show ?case unfolding Cons.IH by (cases st) (auto simp: idem)
qed

definition shown :: "string set \<Rightarrow> PolicyMount \<Rightarrow> access" where
  "shown denied_files m =
     (case pm_intent m of
        ReadWrite \<Rightarrow> Writable (pm_source m)
      | ReadOnly \<Rightarrow> Readable (pm_source m)
      | Denied \<Rightarrow> if pm_source m \<in> denied_files then Readable ''/dev/null'' else Scratch)"

lemma step_mount_op:
  "mount_step q st (mount_op dfs m) =
     (if Path_starts_with q (pm_destination m) then Some (path_components (pm_destination m), shown dfs m) else st)"
  by (simp add: mount_step_def mount_op_def shown_def split: FsIntent.splits)

lemma foldl_mounts:
  "foldl (mount_step q) st (map (mount_op dfs) mounts) =
     (case find (\<lambda>m. Path_starts_with q (pm_destination m)) (rev mounts) of
        Some m \<Rightarrow> Some (path_components (pm_destination m), shown dfs m)
      | None \<Rightarrow> st)"
  by (induction mounts rule: rev_induct) (simp_all add: step_mount_op)

definition not_writable :: "(Component list \<times> access) option \<Rightarrow> bool" where
  "not_writable st \<longleftrightarrow> (\<forall>at s. st \<noteq> Some (at, Writable s))"

lemma not_writable_step: "not_writable st \<Longrightarrow> fst op \<noteq> ''--bind'' \<Longrightarrow> not_writable (mount_step q st op)"
proof -
  assume h: "not_writable st" "fst op \<noteq> ''--bind''"
  have "read_only a \<noteq> Writable s" for a s by (cases a) simp_all
  moreover have "mounted op \<noteq> Some (Writable s)" for s using h(2) by (cases op) simp
  ultimately show ?thesis
    using h(1) by (auto simp: not_writable_def mount_step_def Let_def split: option.splits)
qed

lemma not_writable_foldl:
  "not_writable st \<Longrightarrow> list_all (\<lambda>op. fst op \<noteq> ''--bind'') ops \<Longrightarrow> not_writable (foldl (mount_step q) st ops)"
  by (induction ops arbitrary: st) (simp_all add: not_writable_step)

lemma base_not_bind: "list_all (\<lambda>op. fst op \<noteq> ''--bind'') (base_ops mode links tmp)"
  by (auto simp: base_ops_def baseline_op_def list_all_iff split: option.splits)

lemma foldl_setenv:
  "foldl env_step env (map (\<lambda>(k, v). (''--setenv'', [k, v])) kvs) = env ++ map_of (rev kvs)"
  by (induction kvs rule: rev_induct) (auto simp: env_step_def map_add_def fun_eq_iff split: option.splits)

lemma foldl_env_inert:
  "list_all (\<lambda>op. fst op \<notin> {''--setenv'', ''--clearenv''}) ops \<Longrightarrow> foldl env_step env ops = env"
  by (induction ops) (auto simp: env_step_def)

section \<open>Enforcement\<close>

definition plain_path :: "string \<Rightarrow> bool" where
  "plain_path p \<longleftrightarrow> has_root p \<and> CHR 0x5C \<notin> set p \<and> \<not> has_dot_part p"

lemma split_any_char: "CHR 0x5C \<notin> set p \<Longrightarrow> split_any {CHR ''/'', CHR 0x5C} p = split_char (CHR ''/'') p"
  by (induction p) auto

lemma plain_depth: "plain_path p \<Longrightarrow> length (path_components p) = Suc (PathKey_depth (PathKey_from_path p))"
proof -
  assume p: "plain_path p"
  let ?ps = "filter (\<lambda>part. part \<noteq> []) (split_char (CHR ''/'') p)"
  have "\<forall>part \<in> set ?ps. component_of part \<noteq> CurDir"
    using p by (auto simp: plain_path_def has_dot_part_def list_ex_iff component_of_def)
  then have "filter (\<lambda>c. c \<noteq> CurDir) (map component_of ?ps) = map component_of ?ps"
    by (auto simp: filter_id_conv)
  then show ?thesis using p
    by (simp add: plain_path_def path_components_def Let_def PathKey_depth_def PathKey_from_path_def split_any_char)
qed

text \<open>The deepest entry at or above a path, and the most restrictive one where several are as deep.\<close>

definition most_specific :: "ContainerPolicy \<Rightarrow> string \<Rightarrow> string \<Rightarrow> FsIntent \<Rightarrow> bool" where
  "most_specific policy q p i \<longleftrightarrow>
     (let entries = policy_entries (readwrite_paths policy) (readonly_paths policy) (denied_paths policy) in
      (p, i) \<in> entries \<and> Path_starts_with q p \<and>
      (\<forall>(p', i') \<in> entries. Path_starts_with q p' \<longrightarrow>
         length (path_components p') < length (path_components p) \<or>
         length (path_components p') = length (path_components p) \<and> i' \<le> i))"

definition granted :: "string set \<Rightarrow> string \<Rightarrow> FsIntent \<Rightarrow> access" where
  "granted denied_files p i =
     (case i of
        ReadWrite \<Rightarrow> Writable p
      | ReadOnly \<Rightarrow> Readable p
      | Denied \<Rightarrow> if p \<in> denied_files then Readable ''/dev/null'' else Sealed)"

lemma entry_path: "(p, i) \<in> policy_entries (readwrite_paths policy) (readonly_paths policy) (denied_paths policy) \<Longrightarrow> p \<in> set (policy_paths policy)"
  by (auto simp: policy_entries_def policy_paths_def)

lemma winner_most_specific:
  assumes "list_all plain_path (policy_paths policy)"
    and "find (\<lambda>m. Path_starts_with q (rm_path m)) (rev (resolve_mount_order policy)) = Some m"
  shows "most_specific policy q (rm_path m) (rm_intent m)"
proof -
  note last = plan_last [OF assms(2) [unfolded resolve_mount_order_def]]
  have "length (path_components p) = Suc (PathKey_depth (PathKey_from_path p))" if "p \<in> set (policy_paths policy)" for p
    using assms(1) that plain_depth by (simp add: list_all_iff)
  then have depth: "length (path_components p) = Suc (PathKey_depth (PathKey_from_path p))"
    if "(p, i) \<in> policy_entries (readwrite_paths policy) (readonly_paths policy) (denied_paths policy)" for p i
    using entry_path [OF that] by blast
  show ?thesis
    unfolding most_specific_def Let_def
  proof (intro conjI ballI, goal_cases)
    case (3 entry)
    obtain p i where e: "entry = (p, i)" by (cases entry)
    show ?case using last(3) [of p i] depth [OF last(1)] depth [of p i] 3 by (auto simp: e)
  qed (fact last(1), fact last(2))
qed

lemma find_policy_mounts:
  "find (\<lambda>m. P (pm_destination m)) (rev (policy_mounts policy)) =
     map_option (\<lambda>m. \<lparr>pm_source = rm_path m, pm_destination = rm_path m, pm_intent = rm_intent m\<rparr>)
       (find (\<lambda>m. P (rm_path m)) (rev (resolve_mount_order policy)))"
  by (simp add: policy_mounts_def rev_map find_map comp_def)

lemma denied_directory_entry:
  assumes "d \<in> set (denied_directories dfs (policy_mounts policy))"
  shows "(d, Denied) \<in> policy_entries (readwrite_paths policy) (readonly_paths policy) (denied_paths policy)"
proof -
  obtain m where "m \<in> set (resolve_mount_order policy)" "rm_intent m = Denied" "rm_path m = d"
    using assms by (auto simp: denied_directories_def policy_mounts_def)
  then show ?thesis using plan_entries [of m] by (simp add: resolve_mount_order_def)
qed

lemma sealed_winner:
  assumes "most_specific policy q p i" and "path_components p \<in> path_components ` set (denied_directories dfs (policy_mounts policy))"
  shows "i = Denied"
proof -
  obtain d where d: "path_components d = path_components p" "d \<in> set (denied_directories dfs (policy_mounts policy))"
    using assms(2) by auto
  have "Path_starts_with q d" using assms(1) d(1) by (simp add: most_specific_def Let_def Path_starts_with_def)
  then have "Denied \<le> i"
    using assms(1) denied_directory_entry [OF d(2)] d(1) unfolding most_specific_def Let_def by fastforce
  then show ?thesis by (cases i) (simp_all add: less_eq_FsIntent_def)
qed

definition mount_of :: "ResolvedMount \<Rightarrow> PolicyMount" where
  "mount_of m = \<lparr>pm_source = rm_path m, pm_destination = rm_path m, pm_intent = rm_intent m\<rparr>"

lemma sealed_access:
  assumes "most_specific policy q (rm_path m) (rm_intent m)" and "m \<in> set (resolve_mount_order policy)"
  shows "(if path_components (rm_path m) \<in> path_components ` set (denied_directories dfs (policy_mounts policy))
      then read_only (shown dfs (mount_of m)) else shown dfs (mount_of m)) = granted dfs (rm_path m) (rm_intent m)"
proof (cases "rm_intent m")
  case ReadWrite
  then have "path_components (rm_path m) \<notin> path_components ` set (denied_directories dfs (policy_mounts policy))"
    using sealed_winner [OF assms(1)] by fastforce
  then show ?thesis using ReadWrite by (simp add: mount_of_def shown_def granted_def)
next
  case ReadOnly
  then show ?thesis by (simp add: mount_of_def shown_def granted_def)
next
  case Denied
  then have "rm_path m \<notin> dfs \<Longrightarrow> rm_path m \<in> set (denied_directories dfs (policy_mounts policy))"
    using assms(2) by (force simp: denied_directories_def policy_mounts_def)
  then show ?thesis using Denied by (auto simp: mount_of_def shown_def granted_def)
qed

lemma uncovered:
  assumes "find (\<lambda>m. Path_starts_with q (rm_path m)) (rev (resolve_mount_order policy)) = None"
  shows "list_all (\<lambda>p. \<not> Path_starts_with q p) (policy_paths policy)"
  using assms plan_none [of "Path_starts_with q"]
  by (auto simp: resolve_mount_order_def list_all_iff policy_paths_def policy_entries_def)

lemma build_with_plan:
  assumes "documented_arity arity" and "list_all resolver_op rops"
  obtains lops where
    "read_options arity (build_args_classified_with_mode request proxy dfs mode fd links (args_of rops) mounts private_tmp
       (\<lambda>args. glp_args (plan_grant_links args grants))) =
     Some (base_ops mode links private_tmp @ rops @ map (mount_op dfs) mounts @ lops @ seal_ops dfs mounts @
       tail_ops request proxy fd, [''sh'', ''-c'', script_code request])"
    and "list_all known_op lops" and "list_all inert lops" and "list_all (\<lambda>op. fst op \<in> {''--dir'', ''--symlink''}) lops"
proof -
  have any: "list_all (grant_links_in (\<lambda>_ _. True)) grants"
  proof -
    have "all_links (\<lambda>_ _. True) link" for link
      by (induction link) (simp add: list_all_iff)
    then show ?thesis by (simp add: list_all_iff grant_links_in_def)
  qed
  define lops where
    "lops margs = (SOME ops. glp_args (plan_grant_links margs grants) = args_of ops \<and>
       list_all (emitted (layout_place margs) (\<lambda>_ _. True)) ops)" for margs
  have lops: "glp_args (plan_grant_links margs grants) = args_of (lops margs)"
    "list_all (emitted (layout_place margs) (\<lambda>_ _. True)) (lops margs)" for margs
    using plan_emits [OF any, of margs] someI_ex [of "\<lambda>ops. glp_args (plan_grant_links margs grants) = args_of ops \<and>
       list_all (emitted (layout_place margs) (\<lambda>_ _. True)) ops"]
    unfolding lops_def by metis+
  let ?l = "lops (args_of (base_ops mode links private_tmp @ rops @ map (mount_op dfs) mounts))"
  have l: "list_all known_op ?l" "list_all inert ?l" "list_all (\<lambda>op. fst op \<in> {''--dir'', ''--symlink''}) ?l"
    using lops(2) emitted_known emitted_inert by (fastforce simp: list_all_iff emitted_def)+
  have "list_all known_op rops" using assms(2) by (auto simp: list_all_iff resolver_op_def)
  then have known: "list_all known_op (base_ops mode links private_tmp @ rops @ map (mount_op dfs) mounts @ ?l @
      seal_ops dfs mounts @ tail_ops request proxy fd)"
    using l(1) known_parts unfolding list_all_append by blast
  show ?thesis
    by (rule that [OF _ l]) (simp only: build_reads [OF lops(1)] read_args_of [OF assms(1) known])
qed

lemma access_effect:
  assumes "list_all inert lops"
  shows "access_at (base_ops mode links private_tmp @ rops @ map (mount_op dfs) (policy_mounts policy) @ lops @
      seal_ops dfs (policy_mounts policy) @ tail_ops request proxy fd) q =
    map_option (\<lambda>(at, a). if at \<in> path_components ` set (denied_directories dfs (policy_mounts policy)) then read_only a else a)
      (case find (\<lambda>m. Path_starts_with q (rm_path m)) (rev (resolve_mount_order policy)) of
         Some m \<Rightarrow> Some (path_components (rm_path m), shown dfs (mount_of m))
       | None \<Rightarrow> foldl (mount_step q) None (base_ops mode links private_tmp @ rops))"
  unfolding access_at_def foldl_append foldl_inert [OF assms] foldl_inert [OF tail_inert] seal_ops_def foldl_remount
    foldl_mounts find_policy_mounts
  by (auto simp: mount_of_def option.map_comp comp_def case_prod_unfold split: option.splits)

lemma policy_enforced:
  assumes "documented_arity arity" and "list_all resolver_op rops" and "list_all plain_path (policy_paths (req_policy request))"
  shows "\<exists>ops.
    read_options arity (build_args_classified_with_mode request proxy denied_files mode fd links (args_of rops)
      (policy_mounts (req_policy request)) private_tmp (\<lambda>args. glp_args (plan_grant_links args grants))) =
      Some (ops, [''sh'', ''-c'', script_code request]) \<and>
    (case path_intent (req_policy request) q of
       Some i \<Rightarrow> \<exists>p. most_specific (req_policy request) q p i \<and> access_at ops q = Some (granted denied_files p i)
     | None \<Rightarrow> list_all (\<lambda>p. \<not> Path_starts_with q p) (policy_paths (req_policy request)) \<and>
         (\<forall>s. access_at ops q \<noteq> Some (Writable s)))"
proof -
  let ?policy = "req_policy request" and ?mounts = "policy_mounts (req_policy request)"
  obtain lops where read: "read_options arity (build_args_classified_with_mode request proxy denied_files mode fd links
      (args_of rops) ?mounts private_tmp (\<lambda>args. glp_args (plan_grant_links args grants))) =
      Some (base_ops mode links private_tmp @ rops @ map (mount_op denied_files) ?mounts @ lops @
        seal_ops denied_files ?mounts @ tail_ops request proxy fd, [''sh'', ''-c'', script_code request])"
    and lops: "list_all inert lops"
    using build_with_plan [OF assms(1,2)] by metis
  let ?ops = "base_ops mode links private_tmp @ rops @ map (mount_op denied_files) ?mounts @ lops @
    seal_ops denied_files ?mounts @ tail_ops request proxy fd"
  note effect = access_effect [OF lops, of mode links private_tmp rops denied_files ?policy request proxy fd q]
  define before where "before = foldl (mount_step q) None (base_ops mode links private_tmp @ rops)"
  define winner where "winner = find (\<lambda>m. Path_starts_with q (rm_path m)) (rev (resolve_mount_order ?policy))"
  have "case path_intent ?policy q of
       Some i \<Rightarrow> \<exists>p. most_specific ?policy q p i \<and> access_at ?ops q = Some (granted denied_files p i)
     | None \<Rightarrow> list_all (\<lambda>p. \<not> Path_starts_with q p) (policy_paths ?policy) \<and>
         (\<forall>s. access_at ?ops q \<noteq> Some (Writable s))"
  proof (cases winner)
    case None
    have "not_writable before"
      unfolding before_def using base_not_bind assms(2)
      by (intro not_writable_foldl) (auto simp: not_writable_def list_all_iff resolver_op_def)
    moreover have "read_only a \<noteq> Writable s" for a s by (cases a) simp_all
    ultimately have "access_at ?ops q \<noteq> Some (Writable s)" for s
      unfolding effect winner_def [symmetric] before_def [symmetric] None by (auto simp: not_writable_def split: if_splits)
    then show ?thesis
      using None uncovered [of q ?policy] by (simp add: path_intent_def winner_def)
  next
    case (Some m)
    then have "most_specific ?policy q (rm_path m) (rm_intent m)" "m \<in> set (resolve_mount_order ?policy)"
      using winner_most_specific [OF assms(3)] unfolding winner_def by (blast, metis find_Some_iff nth_mem set_rev)
    then have "access_at ?ops q = Some (granted denied_files (rm_path m) (rm_intent m))"
      unfolding effect winner_def [symmetric] before_def [symmetric] Some using sealed_access [of ?policy q m denied_files] by simp
    then show ?thesis using Some \<open>most_specific ?policy q (rm_path m) (rm_intent m)\<close>
      by (auto simp: path_intent_def winner_def)
  qed
  with read show ?thesis by blast
qed

text \<open>
  C1: Bubblewrap enforces the filesystem policy. For a policy whose paths are absolute and written without
  dot components or backslashes, whatever the script, environment, proxy, host links and grants are:
  \<open>bwrap\<close>, reading the arguments by the documented arities of its options, finds exactly the script as the
  command, and applying the mounts in order leaves at every path the access of the most specific policy
  entry above it, the most restrictive one among equally specific entries. A denied directory is an
  empty read-only filesystem, a denied file is \<open>/dev/null\<close>. A path below no entry is never a writable
  host path. The intent the code itself reads off the policy, \<open>path_intent\<close>, is the one enforced.
\<close>

theorem bwrap_enforces_policy:
  assumes "documented_arity arity" and "list_all resolver_op rops" and "list_all plain_path (policy_paths (req_policy request))"
  shows "\<exists>ops.
    read_options arity (build_args_classified_with_mode request proxy denied_files mode fd links (args_of rops)
      (policy_mounts (req_policy request)) private_tmp (\<lambda>args. glp_args (plan_grant_links args grants))) =
      Some (ops, [''sh'', ''-c'', script_code request]) \<and>
    (case path_intent (req_policy request) q of
       Some i \<Rightarrow> \<exists>p. most_specific (req_policy request) q p i \<and> access_at ops q = Some (granted denied_files p i)
     | None \<Rightarrow> list_all (\<lambda>p. \<not> Path_starts_with q p) (policy_paths (req_policy request)) \<and>
         (\<forall>s. access_at ops q \<noteq> Some (Writable s)))"
  by (rule policy_enforced [OF assms])

definition example_request :: ExecutionRequest where
  "example_request =
     \<lparr>source_contract = None, container_id = [], req_env = Some [''LANG=C'', ''http_proxy=http://evil:1'', ''--bind=/''],
      inherit_default_env = True, script_code = ''--bind'', working_directory = ''data'', script_timeout = 0,
      containment = Bubblewrap, lifecycle = LifecycleConfig_default,
      req_policy = ContainerPolicy_default\<lparr>readwrite_paths := [''/data/secrets''], denied_paths := [''/data'']\<rparr>,
      lxc_config = \<lparr>lxc_distribution = [], lxc_release = []\<rparr>, wslc = None, seatbelt = None, telemetry = None,
      test_feature = None, windows_sandbox = None, hyperlight = None, microvm_image = None, microvm_memory_mib = None,
      experimental_enabled = False, dry_run = False\<rparr>"

lemma example_plain: "list_all plain_path (policy_paths (req_policy example_request))"
  unfolding example_request_def policy_paths_def ContainerPolicy_default_def plain_path_def by code_simp

lemma example_intent: "path_intent (req_policy example_request) ''/data/secrets/key'' = Some ReadWrite"
proof -
  have "resolve_path_plan [''/data/secrets''] [] [''/data''] =
      [\<lparr>rm_path = ''/data'', rm_intent = Denied\<rparr>, \<lparr>rm_path = ''/data/secrets'', rm_intent = ReadWrite\<rparr>]"
    by code_simp
  moreover have "Path_starts_with ''/data/secrets/key'' ''/data/secrets''" by code_simp
  ultimately show ?thesis
    by (simp add: path_intent_def resolve_mount_order_def example_request_def ContainerPolicy_default_def)
qed

lemma documented_map_of: "documented_arity (map_of BWRAP_ARITIES)"
  by code_simp

theorem bwrap_enforces_policy_witness:
  "\<exists>ops. read_options (map_of BWRAP_ARITIES) (build_args_classified_with_mode example_request None {} Isolated (Some 3) []
      (args_of [(''--tmpfs'', [''/run/systemd/resolve''])]) (policy_mounts (req_policy example_request)) True
      (\<lambda>args. glp_args (plan_grant_links args []))) = Some (ops, [''sh'', ''-c'', ''--bind'']) \<and>
    access_at ops ''/data/secrets/key'' = Some (Writable ''/data/secrets'')"
proof -
  have "list_all resolver_op [(''--tmpfs'', [''/run/systemd/resolve''])]" by (simp add: resolver_op_def)
  moreover have "most_specific (req_policy example_request) q p ReadWrite \<Longrightarrow> p = ''/data/secrets''" for q p
    by (auto simp: most_specific_def Let_def policy_entries_def example_request_def ContainerPolicy_default_def)
  moreover have "script_code example_request = ''--bind''" by (simp add: example_request_def)
  ultimately show ?thesis
    using bwrap_enforces_policy [OF documented_map_of _ example_plain,
        of "[(''--tmpfs'', [''/run/systemd/resolve''])]" None "{}" Isolated "Some 3" "[]" True "[]" "''/data/secrets/key''"]
    by (fastforce simp: example_intent granted_def)
qed

lemma env_tail:
  "foldl env_step env (tail_ops request proxy fd) =
     map_of (rev (filter (\<lambda>(key, _). \<not> (proxy \<noteq> None \<and> is_managed_proxy_key key)) (env_pairs (resolved_env request)))) ++
     (case proxy of Some addr \<Rightarrow> map_of (map (\<lambda>key. (key, ProxyAddress_to_url addr)) (rev PROXY_SET_KEYS)) | None \<Rightarrow> Map.empty)"
proof -
  have "foldl env_step env (map (\<lambda>key. (''--setenv'', [key, url])) ks) = env ++ map_of (map (\<lambda>key. (key, url)) (rev ks))" for env url ks
    using foldl_setenv [of env "map (\<lambda>key. (key, url)) ks"] by (simp add: comp_def rev_map)
  then show ?thesis
    unfolding tail_ops_def env_ops_def by (auto simp: foldl_setenv env_step_def split: option.splits)
qed

lemma set_keys_managed: "key \<in> set PROXY_SET_KEYS \<Longrightarrow> is_managed_proxy_key key"
proof -
  have "list_all is_managed_proxy_key PROXY_SET_KEYS" by code_simp
  then show "key \<in> set PROXY_SET_KEYS \<Longrightarrow> is_managed_proxy_key key" by (simp add: list_all_iff)
qed

lemma map_of_const: "map_of (map (\<lambda>k. (k, v)) ks) key = (if key \<in> set ks then Some v else None)"
  by (induction ks) auto

lemma map_of_filter_key: "map_of (filter (\<lambda>(k, _). P k) kvs) key = (if P key then map_of kvs key else None)"
  by (induction kvs) auto

lemma user_op_base: "(''--unshare-user'', []) \<in> set (base_ops mode links tmp) \<longleftrightarrow> mode = Isolated"
  by (cases mode) (auto simp: base_ops_def baseline_op_def split: option.splits)

lemma no_user_op:
  assumes "list_all resolver_op rops" and "list_all (\<lambda>op. fst op \<in> {''--dir'', ''--symlink''}) lops"
  shows "list_all (\<lambda>op. op \<noteq> (''--unshare-user'', []))
    (rops @ map (mount_op dfs) mounts @ lops @ seal_ops dfs mounts @ tail_ops request proxy fd)"
proof -
  have "list_all (\<lambda>op. op \<noteq> (''--unshare-user'', [])) (map (mount_op dfs) mounts @ seal_ops dfs mounts)"
    by (auto simp: mount_op_def seal_ops_def list_all_iff split: FsIntent.splits if_splits)
  moreover have "list_all (\<lambda>op. op \<noteq> (''--unshare-user'', [])) (tail_ops request proxy fd)"
    by (auto simp: tail_ops_def env_ops_def list_all_iff split: option.splits)
  moreover have "list_all (\<lambda>op. op \<noteq> (''--unshare-user'', [])) (rops @ lops)"
    using assms by (auto simp: list_all_iff resolver_op_def)
  ultimately show ?thesis by simp
qed

text \<open>
  C15: Bubblewrap runs the requested command in the resolved environment. Whatever the strings of the
  request are, even ones that look like options, \<open>bwrap\<close> reads the script as the whole command after the
  options, always unshares the network, unshares the user namespace exactly when the runner provides
  none, and starts the command with nothing of the host's environment: each variable has its last value
  in the resolved entries, except that with a proxy the proxy variables, in any capitalisation, are
  exactly the eight set to the proxy's URL.
\<close>

theorem bwrap_environment_exact:
  assumes "documented_arity arity" and "list_all resolver_op rops"
  shows "\<exists>ops.
    read_options arity (build_args_classified_with_mode request proxy denied_files mode fd links (args_of rops) mounts
      private_tmp (\<lambda>args. glp_args (plan_grant_links args grants))) = Some (ops, [''sh'', ''-c'', script_code request]) \<and>
    (''--unshare-net'', []) \<in> set ops \<and> ((''--unshare-user'', []) \<in> set ops \<longleftrightarrow> mode = Isolated) \<and>
    env_after host ops = (\<lambda>key.
      case proxy of
        Some addr \<Rightarrow>
          if key \<in> set PROXY_SET_KEYS then Some (ProxyAddress_to_url addr)
          else if is_managed_proxy_key key then None
          else map_of (rev (env_pairs (resolved_env request))) key
      | None \<Rightarrow> map_of (rev (env_pairs (resolved_env request))) key)"
proof -
  obtain lops where read: "read_options arity (build_args_classified_with_mode request proxy denied_files mode fd links
      (args_of rops) mounts private_tmp (\<lambda>args. glp_args (plan_grant_links args grants))) =
      Some (base_ops mode links private_tmp @ rops @ map (mount_op denied_files) mounts @ lops @
        seal_ops denied_files mounts @ tail_ops request proxy fd, [''sh'', ''-c'', script_code request])"
    and lops: "list_all (\<lambda>op. fst op \<in> {''--dir'', ''--symlink''}) lops"
    using build_with_plan [OF assms] by metis
  let ?ops = "base_ops mode links private_tmp @ rops @ map (mount_op denied_files) mounts @ lops @
    seal_ops denied_files mounts @ tail_ops request proxy fd"
  have "env_after host ?ops = (\<lambda>key.
      case proxy of
        Some addr \<Rightarrow>
          if key \<in> set PROXY_SET_KEYS then Some (ProxyAddress_to_url addr)
          else if is_managed_proxy_key key then None
          else map_of (rev (env_pairs (resolved_env request))) key
      | None \<Rightarrow> map_of (rev (env_pairs (resolved_env request))) key)"
    using set_keys_managed
    by (auto simp: env_after_def env_tail rev_filter map_of_filter_key map_of_const map_add_def fun_eq_iff
        split: option.splits)
  moreover have "(''--unshare-user'', []) \<in> set ?ops \<longleftrightarrow> mode = Isolated"
    using user_op_base [of mode links private_tmp] no_user_op [OF assms(2) lops, of denied_files mounts request proxy fd]
    by (simp add: list_all_iff) blast
  moreover have "(''--unshare-net'', []) \<in> set ?ops" by (simp add: base_ops_def)
  ultimately show ?thesis using read by blast
qed

theorem bwrap_environment_exact_witness:
  "\<exists>ops. read_options (map_of BWRAP_ARITIES) (build_args_classified_with_mode example_request
      (Some (ProxyAddress_new ''127.0.0.1'' 8080)) {} ProxyOnly None [] (args_of []) [] True
      (\<lambda>args. glp_args (plan_grant_links args []))) = Some (ops, [''sh'', ''-c'', ''--bind'']) \<and>
    env_after [''SECRET'' \<mapsto> ''x''] ops ''SECRET'' = None \<and>
    env_after [''SECRET'' \<mapsto> ''x''] ops ''http_proxy'' = Some ''http://127.0.0.1:8080'' \<and>
    env_after [''SECRET'' \<mapsto> ''x''] ops ''HOME'' = Some ''/data''"
proof -
  have env: "resolve_env example_request [(''PATH'', DEFAULT_PATH), (''HOME'', ''/data''), (''TERM'', DEFAULT_TERM)] =
      [''PATH='' @ DEFAULT_PATH, ''HOME=/data'', ''TERM=xterm-256color'', ''LANG=C'', ''http_proxy=http://evil:1'', ''--bind=/'']"
    unfolding example_request_def by code_simp
  have dir: "sandbox_absolute_path ''data'' = ''/data''" by code_simp
  have entries: "resolved_env example_request =
      [''PATH='' @ DEFAULT_PATH, ''HOME=/data'', ''TERM=xterm-256color'', ''LANG=C'', ''http_proxy=http://evil:1'', ''--bind=/'']"
    unfolding resolved_env_def env [symmetric]
    by (simp add: default_env_def start_directory_def example_request_def dir)
  have pairs: "map_of (rev (env_pairs (resolved_env example_request))) ''HOME'' = Some ''/data''"
    "map_of (rev (env_pairs (resolved_env example_request))) ''SECRET'' = None"
    unfolding entries by code_simp+
  have keys: "''http_proxy'' \<in> set PROXY_SET_KEYS" "''HOME'' \<notin> set PROXY_SET_KEYS" "''SECRET'' \<notin> set PROXY_SET_KEYS"
    "\<not> is_managed_proxy_key ''HOME''" "\<not> is_managed_proxy_key ''SECRET''"
    "ProxyAddress_to_url (ProxyAddress_new ''127.0.0.1'' 8080) = ''http://127.0.0.1:8080''"
    by code_simp+
  have "list_all resolver_op []" and "script_code example_request = ''--bind''" by (simp_all add: example_request_def)
  then show ?thesis
    using bwrap_environment_exact [OF documented_map_of, of "[]" example_request "Some (ProxyAddress_new ''127.0.0.1'' 8080)" "{}"
        ProxyOnly None "[]" "[]" True "[]" "[''SECRET'' \<mapsto> ''x'']"]
    by (auto simp: keys pairs)
qed

end
