(* ===== verification/Bwrap_Links.thy ===== *)
theory Bwrap_Links
  imports Bwrap_Access
begin

text \<open>
  The links \<open>plan_grant_links\<close> recreates for aliased grants: each is placed only where nothing else is, is
  relative, and resolves inside the sandbox to the real path it stands for.
\<close>

section \<open>Relative links\<close>













section \<open>The plan\<close>
















end
