(* ===== verification/Fs_Object.thy ===== *)
theory Fs_Object
  imports Fs_Plan "HOL-Library.Multiset"
begin

text \<open>
  \<open>filesystem_object.rs\<close>: policy paths that name the same filesystem object get the most restrictive
  intent of all its names. The result is an exact description of the tightened policy, for any
  order in which the map of objects is walked, and of when the policy is refused instead.
\<close>

section \<open>Object identities\<close>

type_synonym Intent = FsIntent

fun list_name :: "Intent \<Rightarrow> string" where
  "list_name ReadWrite = ''readwritePaths''"
| "list_name ReadOnly = ''readonlyPaths''"
| "list_name Denied = ''deniedPaths''"

record ObjectId =
  oi_dev :: u64
  oi_ino :: u64

datatype PathResolution = Object ObjectId | Absent | Inaccessible | UnknownObject

datatype FilesystemPolicyError = PolicyError string | HostError string

fun FilesystemPolicyError_message :: "FilesystemPolicyError \<Rightarrow> string" where
  "FilesystemPolicyError_message (PolicyError message) = message"
| "FilesystemPolicyError_message (HostError message) = message"

definition FilesystemPolicyError_into_response :: "FilesystemPolicyError \<Rightarrow> ScriptResponse" where
  "FilesystemPolicyError_into_response e = ScriptResponse_error (FilesystemPolicyError_message e)"

datatype ExistingObjectComparison = SameObject | DifferentObject | UnknownComparison

text \<open>\<open>metadata\<close> stands for \<open>std::fs::metadata\<close>: the identity, or the raw error number if there is one.\<close>

definition ENOENT :: int where "ENOENT = 2"

definition ENOTDIR :: int where "ENOTDIR = 20"

definition EACCES :: int where "EACCES = 13"

definition EPERM_errno :: int where "EPERM_errno = 1"

definition resolve_object :: "(string \<Rightarrow> int option + ObjectId) \<Rightarrow> string \<Rightarrow> PathResolution" where
  "resolve_object metadata path =
     (case metadata path of
        Inr md \<Rightarrow> Object md
      | Inl (Some errno) \<Rightarrow>
          if errno = ENOENT \<or> errno = ENOTDIR then Absent
          else if errno = EACCES \<or> errno = EPERM_errno then Inaccessible
          else UnknownObject
      | Inl None \<Rightarrow> UnknownObject)"

fun compare_resolved_filesystem_objects :: "PathResolution \<Rightarrow> PathResolution \<Rightarrow> ExistingObjectComparison" where
  "compare_resolved_filesystem_objects (Object a) (Object b) = (if a = b then SameObject else DifferentObject)"
| "compare_resolved_filesystem_objects UnknownObject _ = UnknownComparison"
| "compare_resolved_filesystem_objects Inaccessible _ = UnknownComparison"
| "compare_resolved_filesystem_objects _ UnknownObject = UnknownComparison"
| "compare_resolved_filesystem_objects _ Inaccessible = UnknownComparison"
| "compare_resolved_filesystem_objects Absent _ = DifferentObject"
| "compare_resolved_filesystem_objects _ Absent = DifferentObject"

definition compare_existing_filesystem_objects ::
    "(string \<Rightarrow> int option + ObjectId) \<Rightarrow> string \<Rightarrow> string \<Rightarrow> ExistingObjectComparison" where
  "compare_existing_filesystem_objects metadata a b =
     compare_resolved_filesystem_objects (resolve_object metadata a) (resolve_object metadata b)"

section \<open>Tightening\<close>

type_synonym policy_entry = "string \<times> Intent"

definition unresolvable_message :: "string \<Rightarrow> Intent \<Rightarrow> string \<Rightarrow> string \<Rightarrow> string" where
  "unresolvable_message path intent cause remedy =
     ''Filesystem path '' @ quoted path @ '' ('' @ list_name intent @
     '') could not be resolved to a filesystem object ('' @ cause @ ''). '' @
     ''Because deniedPaths are present, MXC cannot verify it does not alias a denied object '' @
     ''and refuses to run rather than risk bypassing the deny. '' @ remedy"

definition unchecked_warning :: "string \<Rightarrow> Intent \<Rightarrow> string" where
  "unchecked_warning path intent =
     ''WARNING: filesystem path '' @ quoted path @ '' ('' @ list_name intent @
     '') could not be resolved to a filesystem '' @ ''object and was not checked for aliasing''"

definition tightened_message :: "policy_entry \<Rightarrow> string \<Rightarrow> Intent \<Rightarrow> string" where
  "tightened_message entry rep_path target =
     ''Filesystem path '' @ quoted (fst entry) @ '' ('' @ list_name (snd entry) @ '') and '' @ quoted rep_path @
     '' ('' @ list_name target @ '') resolve to the same filesystem '' @
     ''object; applying most-restrictive intent ('' @ list_name target @ '') to '' @ quoted (fst entry)"

definition policy_entry_list :: "ContainerPolicy \<Rightarrow> policy_entry list" where
  "policy_entry_list policy =
     map (\<lambda>p. (p, ReadWrite)) (readwrite_paths policy) @
     map (\<lambda>p. (p, ReadOnly)) (readonly_paths policy) @
     map (\<lambda>p. (p, Denied)) (denied_paths policy)"

text \<open>The map of objects, each with the indices of its names in order.\<close>

type_synonym object_groups = "(ObjectId \<times> nat list) list"

fun push_member :: "ObjectId \<Rightarrow> nat \<Rightarrow> object_groups \<Rightarrow> object_groups" where
  "push_member oid i [] = [(oid, [i])]"
| "push_member oid i ((oid', members) # groups) =
     (if oid = oid' then (oid', members @ [i]) # groups else (oid', members) # push_member oid i groups)"

text \<open>\<open>resolve\<close> is called once per entry, in order; its answer may depend on the calls before.\<close>

fun group_entries ::
    "(nat \<Rightarrow> string \<Rightarrow> string + PathResolution) \<Rightarrow> bool \<Rightarrow> nat \<Rightarrow> policy_entry list \<Rightarrow> object_groups \<Rightarrow> string list
      \<Rightarrow> (FilesystemPolicyError + object_groups) \<times> string list" where
  "group_entries resolve has_denied i [] groups log = (Ok groups, log)"
| "group_entries resolve has_denied i ((path, intent) # entries) groups log =
     (case resolve i path of
        Inl e \<Rightarrow> (Err (HostError e), log)
      | Inr (Object oid) \<Rightarrow> group_entries resolve has_denied (Suc i) entries (push_member oid i groups) log
      | Inr Absent \<Rightarrow> group_entries resolve has_denied (Suc i) entries groups log
      | Inr Inaccessible \<Rightarrow>
          if has_denied then
            (Err (PolicyError (unresolvable_message path intent ''permission denied''
               ''Grant access to the path, or remove the offending entry.'')), log)
          else group_entries resolve has_denied (Suc i) entries groups (log @ [unchecked_warning path intent])
      | Inr UnknownObject \<Rightarrow>
          if has_denied then
            (Err (HostError (unresolvable_message path intent ''unreachable mount or I/O error''
               ''Retry once the path is reachable, or remove the offending entry.'')), log)
          else group_entries resolve has_denied (Suc i) entries groups (log @ [unchecked_warning path intent]))"

type_synonym tighten_state = "Intent list \<times> bool \<times> string list"

definition tighten_member :: "policy_entry list \<Rightarrow> string \<Rightarrow> Intent \<Rightarrow> tighten_state \<Rightarrow> nat \<Rightarrow> tighten_state" where
  "tighten_member entries rep_path target st i =
     (let (final_intent, changed, log) = st in
      if snd (entries ! i) < target
      then (final_intent[i := target], True, log @ [tightened_message (entries ! i) rep_path target])
      else st)"

definition tighten_group :: "policy_entry list \<Rightarrow> tighten_state \<Rightarrow> nat list \<Rightarrow> tighten_state" where
  "tighten_group entries st members =
     (if length members < 2 then st
      else
        let target = Max (set (map (\<lambda>i. snd (entries ! i)) members)) in
        if list_all (\<lambda>i. snd (entries ! i) = target) members then st
        else (case find (\<lambda>i. snd (entries ! i) = target) members of
           Some rep \<Rightarrow> foldl (tighten_member entries (fst (entries ! rep)) target) st members
         | None \<Rightarrow> st))"

definition push_unique :: "'a \<Rightarrow> 'a list \<Rightarrow> 'a list" where
  "push_unique x xs = (if x \<in> set xs then xs else xs @ [x])"

fun rebuild_lists ::
    "(string \<times> Intent) list \<Rightarrow> string list \<times> string list \<times> string list \<Rightarrow> string list \<times> string list \<times> string list" where
  "rebuild_lists [] acc = acc"
| "rebuild_lists ((path, intent) # entries) (rw, ro, dn) =
     rebuild_lists entries
       (case intent of
          ReadWrite \<Rightarrow> (push_unique path rw, ro, dn)
        | ReadOnly \<Rightarrow> (rw, push_unique path ro, dn)
        | Denied \<Rightarrow> (rw, ro, push_unique path dn))"

text \<open>\<open>walk\<close> is the order in which the hash map yields its groups.\<close>

definition normalize_object_conflicts_with ::
    "((nat list) list \<Rightarrow> (nat list) list) \<Rightarrow> ContainerPolicy \<Rightarrow> string list \<Rightarrow> (nat \<Rightarrow> string \<Rightarrow> string + PathResolution)
      \<Rightarrow> (FilesystemPolicyError + ContainerPolicy option) \<times> string list" where
  "normalize_object_conflicts_with walk policy log resolve =
     (let total = length (readwrite_paths policy) + length (readonly_paths policy) + length (denied_paths policy) in
      if total \<le> 1 then (Ok None, log)
      else
        let entries = policy_entry_list policy; has_denied = denied_paths policy \<noteq> [] in
        case group_entries resolve has_denied 0 entries [] log of
          (Inl e, log) \<Rightarrow> (Err e, log)
        | (Inr groups, log) \<Rightarrow>
            let (final_intent, changed, log) =
              foldl (tighten_group entries) (map snd entries, False, log) (walk (map snd groups)) in
            if \<not> changed then (Ok None, log)
            else
              let (rw, ro, dn) = rebuild_lists (zip (map fst entries) final_intent) ([], [], [])
              in (Ok (Some (policy\<lparr>readwrite_paths := rw, readonly_paths := ro, denied_paths := dn\<rparr>)), log))"

text \<open>\<open>probe\<close> runs a lookup on a worker with a deadline; it returns the answer or why it has none.\<close>

definition normalize_object_conflicts ::
    "((nat list) list \<Rightarrow> (nat list) list) \<Rightarrow> (nat \<Rightarrow> string \<Rightarrow> PathResolution \<Rightarrow> string + PathResolution)
      \<Rightarrow> (string \<Rightarrow> int option + ObjectId) \<Rightarrow> ContainerPolicy \<Rightarrow> string list
      \<Rightarrow> (FilesystemPolicyError + ContainerPolicy option) \<times> string list" where
  "normalize_object_conflicts walk probe metadata policy log =
     normalize_object_conflicts_with walk policy log (\<lambda>i path. probe i path (resolve_object metadata path))"

section \<open>The strictest intent of an object\<close>

definition object_of :: "(nat \<Rightarrow> string \<Rightarrow> string + PathResolution) \<Rightarrow> policy_entry list \<Rightarrow> nat \<Rightarrow> ObjectId option" where
  "object_of resolve es i = (case resolve i (fst (es ! i)) of Inr (Object oid) \<Rightarrow> Some oid | _ \<Rightarrow> None)"

text \<open>The entries known to name the object of entry \<open>i\<close>; an entry without an identity is alone.\<close>

definition same_object :: "(nat \<Rightarrow> string \<Rightarrow> string + PathResolution) \<Rightarrow> policy_entry list \<Rightarrow> nat \<Rightarrow> nat set" where
  "same_object resolve es i =
     {j. j < length es \<and> (j = i \<or> object_of resolve es i \<noteq> None \<and> object_of resolve es j = object_of resolve es i)}"

definition strictest :: "(nat \<Rightarrow> string \<Rightarrow> string + PathResolution) \<Rightarrow> policy_entry list \<Rightarrow> nat \<Rightarrow> Intent" where
  "strictest resolve es i = Max ((\<lambda>j. snd (es ! j)) ` same_object resolve es i)"

lemma same_object_finite [simp]: "finite (same_object resolve es i)"
  unfolding same_object_def by (rule finite_subset [of _ "{..<length es}"]) auto

lemma strictest_ge: "i < length es \<Longrightarrow> snd (es ! i) \<le> strictest resolve es i"
  unfolding strictest_def by (rule Max_ge) (auto simp: same_object_def)

subsection \<open>Grouping\<close>

definition members_of :: "object_groups \<Rightarrow> ObjectId \<Rightarrow> nat list" where
  "members_of groups oid = (case map_of groups oid of Some ms \<Rightarrow> ms | None \<Rightarrow> [])"

lemma members_push: "members_of (push_member oid i groups) oid' = members_of groups oid' @ (if oid' = oid then [i] else [])"
  by (induction oid i groups rule: push_member.induct) (auto simp: members_of_def split: option.splits)

lemma fst_push: "fst ` set (push_member oid i groups) = insert oid (fst ` set groups)"
  by (induction oid i groups rule: push_member.induct) auto

lemma distinct_push: "distinct (map fst groups) \<Longrightarrow> distinct (map fst (push_member oid i groups))"
proof (induction oid i groups rule: push_member.induct)
  case (2 oid i oid' members groups)
  then show ?case using fst_push [of oid i groups] by (auto simp: image_iff)
qed simp

lemma group_entries_members:
  assumes "group_entries resolve has_denied (length pre) es groups log = (Ok groups', log')"
    and "distinct (map fst groups)"
    and "\<And>oid. members_of groups oid = filter (\<lambda>j. object_of resolve (pre @ es) j = Some oid) [0..<length pre]"
  shows "distinct (map fst groups') \<and>
    (\<forall>oid. members_of groups' oid = filter (\<lambda>j. object_of resolve (pre @ es) j = Some oid) [0..<length (pre @ es)])"
  using assms
proof (induction es arbitrary: pre groups log)
  case (Cons e es)
  obtain path intent where e: "e = (path, intent)" by (cases e)
  have obj: "object_of resolve (pre @ e # es) (length pre) =
      (case resolve (length pre) path of Inr (Object oid) \<Rightarrow> Some oid | _ \<Rightarrow> None)"
    by (simp add: object_of_def e nth_append)
  define groups1 where "groups1 = (case resolve (length pre) path of
      Inr (Object oid) \<Rightarrow> push_member oid (length pre) groups | _ \<Rightarrow> groups)"
  obtain log1 where rest: "group_entries resolve has_denied (length (pre @ [e])) es groups1 log1 = (Ok groups', log')"
    using Cons.prems(1) by (auto simp: e groups1_def split: sum.splits PathResolution.splits if_splits)
  have "distinct (map fst groups1)"
    using Cons.prems(2) distinct_push by (auto simp: groups1_def split: sum.splits PathResolution.splits)
  moreover have "members_of groups1 oid = filter (\<lambda>j. object_of resolve ((pre @ [e]) @ es) j = Some oid) [0..<length (pre @ [e])]" for oid
    using Cons.prems(3) [of oid] obj
    by (auto simp: groups1_def members_push split: sum.splits PathResolution.splits)
  ultimately show ?case using Cons.IH [OF rest] by simp
qed simp

lemma group_entries_sets:
  assumes "group_entries resolve has_denied 0 es [] log = (Ok groups, log')"
  shows "\<And>ms. ms \<in> set (map snd groups) \<Longrightarrow> i \<in> set ms \<Longrightarrow> i < length es \<and> set ms = same_object resolve es i"
    and "i < length es \<Longrightarrow> object_of resolve es i \<noteq> None \<Longrightarrow> \<exists>ms \<in> set (map snd groups). i \<in> set ms"
proof -
  have g: "distinct (map fst groups)"
    "\<And>oid. members_of groups oid = filter (\<lambda>j. object_of resolve es j = Some oid) [0..<length es]"
    using group_entries_members [of resolve has_denied "[]" es "[]" log groups log'] assms by (auto simp: members_of_def)
  show "i < length es \<and> set ms = same_object resolve es i" if ms: "ms \<in> set (map snd groups)" "i \<in> set ms" for ms
  proof -
    obtain oid where "map_of groups oid = Some ms" using ms(1) g(1) by auto
    then have "ms = filter (\<lambda>j. object_of resolve es j = Some oid) [0..<length es]" using g(2) [of oid] by (simp add: members_of_def)
    then show ?thesis using ms(2) by (auto simp: same_object_def)
  qed
  show "\<exists>ms \<in> set (map snd groups). i \<in> set ms" if i: "i < length es" "object_of resolve es i \<noteq> None"
  proof -
    obtain oid where "object_of resolve es i = Some oid" using i(2) by auto
    then have "i \<in> set (members_of groups oid)" using g(2) [of oid] i(1) by simp
    then obtain ms where "map_of groups oid = Some ms" "i \<in> set ms" by (cases "map_of groups oid") (auto simp: members_of_def)
    then show ?thesis using map_of_SomeD by force
  qed
qed

subsection \<open>Tightening a group\<close>

lemma foldl_tighten_member:
  assumes "foldl (tighten_member es rep target) (final, changed, log) ms = (final', changed', log')"
    and "\<forall>i \<in> set ms. i < length final"
  shows "length final' = length final \<and>
    (\<forall>i < length final. final' ! i = (if i \<in> set ms \<and> snd (es ! i) < target then target else final ! i)) \<and>
    (changed' \<longleftrightarrow> changed \<or> (\<exists>i \<in> set ms. snd (es ! i) < target))"
  using assms
proof (induction ms arbitrary: final changed log)
  case (Cons m ms)
  obtain f c l where st: "tighten_member es rep target (final, changed, log) m = (f, c, l)"
    using prod_cases3 by blast
  have f: "f = (if snd (es ! m) < target then final[m := target] else final)" "c \<longleftrightarrow> changed \<or> snd (es ! m) < target"
    using st by (auto simp: tighten_member_def split: if_splits)
  have "foldl (tighten_member es rep target) (f, c, l) ms = (final', changed', log')" "\<forall>i \<in> set ms. i < length f"
    using Cons.prems st f(1) by auto
  note Cons.IH [OF this]
  moreover have "m < length final" using Cons.prems(2) by simp
  ultimately show ?case using f by (auto simp: nth_list_update)
qed auto

lemma tighten_group_spec:
  assumes "tighten_group es (final, changed, log) ms = (final', changed', log')"
    and "length final = length es" and "\<And>i. i \<in> set ms \<Longrightarrow> i < length es \<and> set ms = same_object resolve es i"
    and "\<And>i. i < length es \<Longrightarrow> final ! i = snd (es ! i) \<or> final ! i = strictest resolve es i"
  shows "length final' = length es" and "\<And>i. i < length es \<Longrightarrow> final' ! i = (if i \<in> set ms then strictest resolve es i else final ! i)"
    and "changed' \<longleftrightarrow> changed \<or> (\<exists>i \<in> set ms. snd (es ! i) < strictest resolve es i)"
proof -
  define target where "target = Max ((\<lambda>i. snd (es ! i)) ` set ms)"
  have target: "target = strictest resolve es i" if "i \<in> set ms" for i
    using assms(3) [OF that] by (simp add: target_def strictest_def)
  have le: "snd (es ! i) \<le> target" if "i \<in> set ms" for i
    using that by (auto simp: target_def intro: Max_ge)
  have fin: "final ! i = snd (es ! i) \<or> final ! i = target" if "i \<in> set ms" for i
    using assms(3) [OF that] assms(4) [of i] target [OF that] by auto
  consider (same) "\<forall>i \<in> set ms. snd (es ! i) = target" "final' = final" "changed' = changed"
    | (tighten) rep log0 where "foldl (tighten_member es rep target) (final, changed, log) ms = (final', changed', log0)"
  proof (cases "length ms < 2")
    case True
    then have "\<forall>i \<in> set ms. snd (es ! i) = target" by (cases ms) (auto simp: target_def Suc_le_eq numeral_2_eq_2)
    then show thesis using same assms(1) True by (simp add: tighten_group_def)
  next
    case False
    then have "target \<in> (\<lambda>i. snd (es ! i)) ` set ms" unfolding target_def by (intro Max_in) auto
    then have "find (\<lambda>i. snd (es ! i) = target) ms \<noteq> None" by (auto simp: find_None_iff)
    then show thesis
      using False same tighten assms(1)
      by (auto simp: tighten_group_def Let_def target_def [symmetric] list_all_iff split: if_splits option.splits)
  qed
  then have "length final' = length es \<and> (\<forall>i < length es. final' ! i = (if i \<in> set ms then target else final ! i)) \<and>
      (changed' \<longleftrightarrow> changed \<or> (\<exists>i \<in> set ms. snd (es ! i) < target))"
  proof cases
    case same
    then show ?thesis using assms(2) fin by auto
  next
    case tighten
    have "\<forall>i \<in> set ms. i < length final" using assms(2,3) by simp
    note foldl_tighten_member [OF tighten this]
    then show ?thesis using assms(2) fin le by (auto simp: order_less_le)
  qed
  then show "length final' = length es" "\<And>i. i < length es \<Longrightarrow> final' ! i = (if i \<in> set ms then strictest resolve es i else final ! i)"
    "changed' \<longleftrightarrow> changed \<or> (\<exists>i \<in> set ms. snd (es ! i) < strictest resolve es i)"
    using target by auto
qed

lemma foldl_tighten_groups:
  assumes "foldl (tighten_group es) (final, changed, log) gs = (final', changed', log')"
    and "length final = length es" and "\<And>ms i. ms \<in> set gs \<Longrightarrow> i \<in> set ms \<Longrightarrow> i < length es \<and> set ms = same_object resolve es i"
    and "\<And>i. i < length es \<Longrightarrow> final ! i = snd (es ! i) \<or> final ! i = strictest resolve es i"
  shows "length final' = length es \<and>
    (\<forall>i < length es. final' ! i = (if \<exists>ms \<in> set gs. i \<in> set ms then strictest resolve es i else final ! i)) \<and>
    (changed' \<longleftrightarrow> changed \<or> (\<exists>ms \<in> set gs. \<exists>i \<in> set ms. snd (es ! i) < strictest resolve es i))"
  using assms
proof (induction gs arbitrary: final changed log)
  case (Cons ms gs)
  obtain f c l where st: "tighten_group es (final, changed, log) ms = (f, c, l)" using prod_cases3 by blast
  have "i < length es \<and> set ms = same_object resolve es i" if "i \<in> set ms" for i
    using Cons.prems(3) [of ms i] that by simp
  note one = tighten_group_spec [OF st Cons.prems(2) this Cons.prems(4)]
  have rest: "foldl (tighten_group es) (f, c, l) gs = (final', changed', log')" using Cons.prems(1) st by simp
  have gs: "i < length es \<and> set ms = same_object resolve es i" if "ms \<in> set gs" "i \<in> set ms" for ms i
    using Cons.prems(3) [of ms i] that by simp
  have f: "f ! i = snd (es ! i) \<or> f ! i = strictest resolve es i" if "i < length es" for i
    using one(2) [of i] Cons.prems(4) [OF that] that by (simp split: if_splits)
  have "length final' = length es \<and>
    (\<forall>i < length es. final' ! i = (if \<exists>ms \<in> set gs. i \<in> set ms then strictest resolve es i else f ! i)) \<and>
    (changed' \<longleftrightarrow> c \<or> (\<exists>ms \<in> set gs. \<exists>i \<in> set ms. snd (es ! i) < strictest resolve es i))"
    by (rule Cons.IH [OF rest one(1) gs f])
  then show ?case using one(2,3) by auto
qed simp

subsection \<open>The tightened policy\<close>

definition policy_entry_set :: "ContainerPolicy \<Rightarrow> policy_entry set" where
  "policy_entry_set policy = policy_entries (readwrite_paths policy) (readonly_paths policy) (denied_paths policy)"

lemma policy_entry_list_set: "set (policy_entry_list policy) = policy_entry_set policy"
  by (auto simp: policy_entry_list_def policy_entry_set_def policy_entries_def)

lemma rebuild_lists_entries:
  "rebuild_lists es (rw, ro, dn) = (rw', ro', dn') \<Longrightarrow>
     policy_entries rw' ro' dn' = policy_entries rw ro dn \<union> set es"
proof (induction es arbitrary: rw ro dn)
  case (Cons e es)
  obtain path intent where e: "e = (path, intent)" by (cases e)
  have push: "set (push_unique x xs) = insert x (set xs)" for x :: string and xs by (auto simp: push_unique_def)
  show ?case using Cons.prems Cons.IH
    by (cases intent) (force simp: e policy_entries_def push)+
qed simp

lemma zip_entries:
  assumes "length final = length es" and "\<And>i. i < length es \<Longrightarrow> final ! i = strictest resolve es i"
  shows "set (zip (map fst es) final) = (\<lambda>i. (fst (es ! i), strictest resolve es i)) ` {..<length es}"
proof -
  have "zip (map fst es) final = map (\<lambda>i. (fst (es ! i), strictest resolve es i)) [0..<length es]"
    using assms by (intro nth_equalityI) simp_all
  then show ?thesis by (simp add: atLeast0LessThan)
qed

lemma unresolved_alone: "i < length es \<Longrightarrow> object_of resolve es i = None \<Longrightarrow> strictest resolve es i = snd (es ! i)"
proof -
  assume "i < length es" "object_of resolve es i = None"
  then have "same_object resolve es i = {i}" by (auto simp: same_object_def)
  then show ?thesis by (simp add: strictest_def)
qed

lemma tightened_entries:
  assumes "group_entries resolve has_denied 0 es [] log = (Ok groups, log1)"
    and "foldl (tighten_group es) (map snd es, False, log1) (walk (map snd groups)) = (final, changed, log2)"
    and "\<And>gs. mset (walk gs) = mset gs"
  shows "set (zip (map fst es) final) = (\<lambda>i. (fst (es ! i), strictest resolve es i)) ` {..<length es}"
    and "\<not> changed \<Longrightarrow> final = map snd es"
proof -
  have walk: "set (walk gs) = set gs" for gs using assms(3) [of gs] by (metis set_mset_mset)
  note groups = group_entries_sets [OF assms(1)]
  have spec: "length final = length es"
    "\<And>i. i < length es \<Longrightarrow> final ! i = (if \<exists>ms \<in> set (map snd groups). i \<in> set ms then strictest resolve es i else snd (es ! i))"
    "changed \<longleftrightarrow> (\<exists>ms \<in> set (map snd groups). \<exists>i \<in> set ms. snd (es ! i) < strictest resolve es i)"
    using foldl_tighten_groups [OF assms(2), of resolve] groups(1) by (auto simp: walk)
  have final: "final ! i = strictest resolve es i" if "i < length es" for i
    using spec(2) [OF that] groups(2) [OF that] unresolved_alone [OF that, of resolve]
    by (cases "object_of resolve es i") auto
  show "set (zip (map fst es) final) = (\<lambda>i. (fst (es ! i), strictest resolve es i)) ` {..<length es}"
    by (rule zip_entries [OF spec(1) final])
  show "final = map snd es" if "\<not> changed"
  proof (intro nth_equalityI)
    fix i assume "i < length final"
    then have i: "i < length es" using spec(1) by simp
    have "strictest resolve es i = snd (es ! i)" if "\<exists>ms \<in> set (map snd groups). i \<in> set ms"
      using spec(3) \<open>\<not> changed\<close> that strictest_ge [OF i, of resolve] by (metis order_le_less)
    then show "final ! i = map snd es ! i" using spec(2) [OF i] i by simp
  qed (simp add: spec(1))
qed

lemma tightened_policy:
  assumes "normalize_object_conflicts_with walk policy log resolve = (Ok result, log')"
    and "\<And>gs. mset (walk gs) = mset gs"
    and "policy' = (case result of None \<Rightarrow> policy | Some p \<Rightarrow> p)" and "es = policy_entry_list policy"
  shows "policy_entry_set policy' = (\<lambda>i. (fst (es ! i), strictest resolve es i)) ` {..<length es} \<and>
    policy' = policy\<lparr>readwrite_paths := readwrite_paths policy', readonly_paths := readonly_paths policy',
      denied_paths := denied_paths policy'\<rparr>"
proof -
  have es: "set es = policy_entry_set policy" by (simp add: assms(4) policy_entry_list_set)
  have len: "length es = length (readwrite_paths policy) + length (readonly_paths policy) + length (denied_paths policy)"
    by (simp add: assms(4) policy_entry_list_def)
  show ?thesis
  proof (cases "length es \<le> 1")
    case True
    then have "result = None" using assms(1) len by (simp add: normalize_object_conflicts_with_def)
    moreover have "strictest resolve es i = snd (es ! i)" if "i < length es" for i
    proof -
      have "same_object resolve es i = {i}" using True that by (auto simp: same_object_def)
      then show ?thesis by (simp add: strictest_def)
    qed
    then have "set es = (\<lambda>i. (fst (es ! i), strictest resolve es i)) ` {..<length es}"
      by (force simp: set_conv_nth)
    ultimately show ?thesis using es assms(3) by simp
  next
    case False
    then obtain groups log1 final changed log2 where g: "group_entries resolve (denied_paths policy \<noteq> []) 0 es [] log = (Ok groups, log1)"
      "foldl (tighten_group es) (map snd es, False, log1) (walk (map snd groups)) = (final, changed, log2)"
      and result: "result = (if \<not> changed then None else
        let (rw, ro, dn) = rebuild_lists (zip (map fst es) final) ([], [], [])
        in Some (policy\<lparr>readwrite_paths := rw, readonly_paths := ro, denied_paths := dn\<rparr>))"
      using assms(1,4) len
      by (auto simp: normalize_object_conflicts_with_def Let_def split: prod.splits sum.splits if_splits)
    note spec = tightened_entries [OF g assms(2)]
    show ?thesis
    proof (cases changed)
      case True
      obtain rw ro dn where r: "rebuild_lists (zip (map fst es) final) ([], [], []) = (rw, ro, dn)" using prod_cases3 by blast
      then have "policy_entries rw ro dn = set (zip (map fst es) final)"
        using rebuild_lists_entries [OF r] by (simp add: policy_entries_def)
      then show ?thesis using spec(1) True r result assms(3) by (simp add: policy_entry_set_def)
    next
      case False
      then have "set es = set (zip (map fst es) final)" using spec(2) by (simp add: zip_map_fst_snd)
      then show ?thesis using spec(1) False result assms(3) es by simp
    qed
  qed
qed

text \<open>
  C14: Names of one object share its strictest intent. Whenever normalisation accepts a policy, for any
  answers of the host and any order of the hash map, the policy the caller goes on with has exactly one
  entry per path and intent, where each path has the most restrictive intent that any name of the same
  filesystem object was declared with; a path without a known identity keeps its own. No path is added,
  dropped or loosened, and nothing but the three path lists changes.
\<close>

theorem aliases_tightened:
  assumes "normalize_object_conflicts_with walk policy log resolve = (Ok result, log')"
    and "\<And>gs. mset (walk gs) = mset gs"
    and "policy' = (case result of None \<Rightarrow> policy | Some p \<Rightarrow> p)" and "es = policy_entry_list policy"
  shows "policy_entry_set policy' = (\<lambda>i. (fst (es ! i), strictest resolve es i)) ` {..<length es} \<and>
    policy' = policy\<lparr>readwrite_paths := readwrite_paths policy', readonly_paths := readonly_paths policy',
      denied_paths := denied_paths policy'\<rparr>"
  by (rule tightened_policy [OF assms])

definition example_inodes :: "string \<Rightarrow> int option + ObjectId" where
  "example_inodes path =
     (if path = ''/srv/a'' \<or> path = ''/srv/b'' then Ok \<lparr>oi_dev = 1, oi_ino = 7\<rparr>
      else if path = ''/data'' then Ok \<lparr>oi_dev = 1, oi_ino = 9\<rparr>
      else Err (Some ENOENT))"

lemma example_normalized:
  "\<exists>log. normalize_object_conflicts_with rev
      (ContainerPolicy_default\<lparr>readwrite_paths := [''/srv/a'', ''/data''], denied_paths := [''/srv/b'']\<rparr>) []
      (\<lambda>i path. Inr (resolve_object example_inodes path)) =
      (Ok (Some (ContainerPolicy_default\<lparr>readwrite_paths := [''/data''], denied_paths := [''/srv/a'', ''/srv/b'']\<rparr>)), log)"
  by (simp add: normalize_object_conflicts_with_def policy_entry_list_def ContainerPolicy_default_def resolve_object_def
      example_inodes_def tighten_group_def tighten_member_def less_FsIntent_def less_eq_FsIntent_def push_unique_def max_def)

theorem aliases_tightened_witness:
  "policy_entry_set (ContainerPolicy_default\<lparr>readwrite_paths := [''/data''], denied_paths := [''/srv/a'', ''/srv/b'']\<rparr>) =
     {(''/srv/a'', Denied), (''/data'', ReadWrite), (''/srv/b'', Denied)}"
proof -
  let ?policy = "ContainerPolicy_default\<lparr>readwrite_paths := [''/srv/a'', ''/data''], denied_paths := [''/srv/b'']\<rparr>"
  let ?resolve = "\<lambda>(i :: nat) path. (Inr (resolve_object example_inodes path) :: string + PathResolution)"
  let ?es = "[(''/srv/a'', ReadWrite), (''/data'', ReadWrite), (''/srv/b'', Denied)]"
  have es: "policy_entry_list ?policy = ?es" by (simp add: policy_entry_list_def ContainerPolicy_default_def)
  obtain log where "normalize_object_conflicts_with rev ?policy [] ?resolve =
      (Ok (Some (ContainerPolicy_default\<lparr>readwrite_paths := [''/data''], denied_paths := [''/srv/a'', ''/srv/b'']\<rparr>)), log)"
    using example_normalized ..
  note aliases_tightened [OF this _ refl es [symmetric]]
  moreover have "object_of ?resolve ?es 0 = Some \<lparr>oi_dev = 1, oi_ino = 7\<rparr>" "object_of ?resolve ?es 1 = Some \<lparr>oi_dev = 1, oi_ino = 9\<rparr>"
    "object_of ?resolve ?es 2 = Some \<lparr>oi_dev = 1, oi_ino = 7\<rparr>"
    by (simp_all add: object_of_def resolve_object_def example_inodes_def)
  then have "same_object ?resolve ?es 0 = {0, 2}" "same_object ?resolve ?es 1 = {1}" "same_object ?resolve ?es 2 = {0, 2}"
    by (auto simp: same_object_def less_Suc_eq numeral_3_eq_3 numeral_2_eq_2)
  then have "strictest ?resolve ?es 0 = Denied" "strictest ?resolve ?es 1 = ReadWrite" "strictest ?resolve ?es 2 = Denied"
    by (simp_all add: strictest_def max_def less_eq_FsIntent_def)
  ultimately show ?thesis by (simp add: lessThan_Suc eval_nat_numeral insert_commute)
qed

subsection \<open>Refusal\<close>

definition examined :: "bool \<Rightarrow> string + PathResolution \<Rightarrow> bool" where
  "examined has_denied answer \<longleftrightarrow>
     (case answer of Inl _ \<Rightarrow> False | Inr r \<Rightarrow> has_denied \<longrightarrow> r \<noteq> Inaccessible \<and> r \<noteq> UnknownObject)"

lemma group_entries_ok:
  "is_ok (fst (group_entries resolve has_denied k es groups log)) \<longleftrightarrow>
     (\<forall>i < length es. examined has_denied (resolve (k + i) (fst (es ! i))))"
proof (induction es arbitrary: k groups log)
  case (Cons e es)
  obtain path intent where e: "e = (path, intent)" by (cases e)
  have "(\<forall>i < length (e # es). examined has_denied (resolve (k + i) (fst ((e # es) ! i)))) \<longleftrightarrow>
      examined has_denied (resolve k path) \<and> (\<forall>i < length es. examined has_denied (resolve (Suc k + i) (fst (es ! i))))"
    by (simp add: e All_less_Suc2)
  moreover have "is_ok (fst (group_entries resolve has_denied k (e # es) groups log)) \<longleftrightarrow>
      examined has_denied (resolve k path) \<and> (\<forall>i < length es. examined has_denied (resolve (Suc k + i) (fst (es ! i))))"
    using Cons.IH [of "Suc k"] 
    by (cases has_denied; cases "resolve k path") (simp_all add: e examined_def [of _ "Inl _"] examined_def [of _ "Inr _"] split: PathResolution.splits)
  ultimately show ?case by simp
qed simp

text \<open>
  C39: Normalisation fails closed. It refuses a policy of two or more paths exactly when some lookup gave no
  answer at all, or when paths are denied and the identity of some path could not be read; with nothing
  to compare it never fails.
\<close>

theorem normalize_refuses_iff:
  "is_ok (fst (normalize_object_conflicts_with walk policy log resolve)) \<longleftrightarrow>
     length (policy_entry_list policy) \<le> 1 \<or>
     (\<forall>i < length (policy_entry_list policy).
        examined (denied_paths policy \<noteq> []) (resolve i (fst (policy_entry_list policy ! i))))"
proof -
  have "length (policy_entry_list policy) =
      length (readwrite_paths policy) + length (readonly_paths policy) + length (denied_paths policy)"
    by (simp add: policy_entry_list_def)
  moreover have "is_ok (fst (normalize_object_conflicts_with walk policy log resolve)) \<longleftrightarrow>
      is_ok (fst (group_entries resolve (denied_paths policy \<noteq> []) 0 (policy_entry_list policy) [] log))"
    if "\<not> length (policy_entry_list policy) \<le> 1"
    using that calculation by (auto simp: normalize_object_conflicts_with_def Let_def split: prod.splits sum.splits if_splits)
  moreover have "length (policy_entry_list policy) \<le> 1 \<Longrightarrow> is_ok (fst (normalize_object_conflicts_with walk policy log resolve))"
    using calculation(1) by (simp add: normalize_object_conflicts_with_def)
  ultimately show ?thesis using group_entries_ok [of resolve _ 0 "policy_entry_list policy" "[]" log] by auto
qed

theorem normalize_refuses_iff_witness:
  "\<not> is_ok (fst (normalize_object_conflicts_with rev
      (ContainerPolicy_default\<lparr>readwrite_paths := [''/mnt/x''], denied_paths := [''/srv'']\<rparr>) [] (\<lambda>_ _. Inr Inaccessible)))"
  unfolding normalize_refuses_iff by (simp add: policy_entry_list_def ContainerPolicy_default_def examined_def) (rule exI [of _ 0], simp)

end
