(* ===== verification/Seatbelt_Policy.thy ===== *)
theory Seatbelt_Policy
  imports Net_Parser Fs_Plan Rust_Text
begin

text \<open>
  \<open>seatbelt_policy.rs\<close> and the Seatbelt \<open>default_env.rs\<close>: the checks a request passes before a profile is
  built, the postures the profile builder reads off a policy, and the default environment.
\<close>

section \<open>Postures\<close>

definition gui_access_effective :: "ExecutionRequest \<Rightarrow> bool" where
  "gui_access_effective request \<longleftrightarrow>
     (case seatbelt request of Some c \<Rightarrow> sb_gui_access c | None \<Rightarrow> False) \<and>
     \<not> ui_disable (policy_ui (req_policy request))"

definition egress_allowed :: "ContainerPolicy \<Rightarrow> bool" where
  "egress_allowed policy \<longleftrightarrow> (case network_egress policy of Some egress \<Rightarrow> eg_default egress = Allow | None \<Rightarrow> False)"

definition local_network_allowed :: "ContainerPolicy \<Rightarrow> bool" where
  "local_network_allowed policy \<longleftrightarrow> (case network_ingress policy of Some ingress \<Rightarrow> in_default ingress = Allow | None \<Rightarrow> False)"

definition host_loopback_allowed :: "ContainerPolicy \<Rightarrow> bool" where
  "host_loopback_allowed policy \<longleftrightarrow>
     (case network_ingress policy of Some ingress \<Rightarrow> in_host_loopback ingress = Allow | None \<Rightarrow> False)"

section \<open>Validation\<close>

definition validate_seatbelt_ui_policy :: "ExecutionRequest \<Rightarrow> string + unit" where
  "validate_seatbelt_ui_policy request =
     (let gui_requested = (case seatbelt request of Some c \<Rightarrow> sb_gui_access c | None \<Rightarrow> False) in
      if gui_requested \<and> ui_disable (policy_ui (req_policy request)) then
        Err (''Seatbelt: seatbelt.guiAccess=true cannot be combined with '' @
          ''ui.disable=true. The GUI grants (Mach IPC, mach-register, IOKit, '' @
          ''pseudo-tty, per-user temp/cache writes) are only emitted when UI '' @
          ''is enabled, so this combination would drop every GUI capability '' @
          ''and deny WindowServer instead. Set 'ui.disable' to false to grant '' @
          ''GUI access, or remove 'seatbelt.guiAccess'. Note that 'ui.disable' '' @
          ''defaults to true, so an omitted 'ui' section conflicts too.'')
      else Ok ())"

definition RUN_MARKER_NAME_PREFIX :: string where
  "RUN_MARKER_NAME_PREFIX = ''com.microsoft.mxc.run.''"

definition validate_seatbelt_reserved_names :: "ExecutionRequest \<Rightarrow> string + unit" where
  "validate_seatbelt_reserved_names request =
     (case seatbelt request of
        None \<Rightarrow> Ok ()
      | Some config \<Rightarrow>
          if (case sb_profile_override config of
                Some profile \<Rightarrow> str_contains RUN_MARKER_NAME_PREFIX profile
              | None \<Rightarrow> False) then
            Err (''Seatbelt: seatbelt.profileOverride contains '' @ quoted RUN_MARKER_NAME_PREFIX @ '', which '' @
              ''MXC reserves for its process cleanup rules. Remove those rules (they are '' @
              ''specific to the run that printed them); MXC adds this run's own.'')
          else (case find (\<lambda>name. starts_with RUN_MARKER_NAME_PREFIX name) (sb_extra_mach_lookups config) of
             Some name \<Rightarrow>
               Err (''Seatbelt: seatbelt.extraMachLookups entry '' @ quoted name @ '' uses the prefix '' @
                 quoted RUN_MARKER_NAME_PREFIX @ '', which MXC reserves for its process cleanup rules.'')
           | None \<Rightarrow> Ok ()))"

definition validate_seatbelt_network_policy :: "ContainerPolicy \<Rightarrow> string + unit" where
  "validate_seatbelt_network_policy policy =
     (let proxy_enabled = proxy_is_enabled (network_proxy policy); outbound_allowed = egress_allowed policy in
      if \<not> outbound_allowed \<and>
         (case proxy_address (network_proxy policy) of
            Some addr \<Rightarrow> \<not> host_is_canonical_loopback (pa_address addr)
          | None \<Rightarrow> False) then
        Err (''Seatbelt: runtimeConfig.networkProxy must name a loopback endpoint '' @
          ''(127.0.0.1, [::1], or localhost); a remote proxy cannot be reached '' @
          ''under network.egress.default='' @ quoted ''deny'')
      else if proxy_enabled \<and> outbound_allowed then
        Err (''Seatbelt: runtimeConfig.networkProxy requires '' @
          ''network.egress.default='deny'; an allow default would bypass '' @
          ''the proxy and leave direct outbound traffic unrestricted'')
      else (case network_ingress policy of
         Some ingress \<Rightarrow>
           if in_host_loopback ingress = Allow \<and> in_default ingress = Deny then
             Err (''macOS Seatbelt cannot enforce network.ingress.hostLoopback='allow' '' @
               ''alongside network.ingress.default='deny': the inbound half of '' @
               ''host loopback rides the same Seatbelt rule as the inbound '' @
               ''default, so it cannot be granted while that default denies it. '' @
               ''Set network.ingress.default='allow' as well, or set '' @
               ''hostLoopback='deny'. Note that an omitted 'hostLoopback' is '' @
               [CHR 0x27] @ ''deny', not an inherit of 'default'.'')
           else Ok ()
       | None \<Rightarrow> Ok ()))"

section \<open>Environment\<close>

definition DEFAULT_SANDBOX_PATH :: string where
  "DEFAULT_SANDBOX_PATH = ''/usr/bin:/bin:/usr/sbin:/sbin''"

definition Seatbelt_DEFAULT_TERM :: string where
  "Seatbelt_DEFAULT_TERM = ''xterm-256color''"

definition Seatbelt_default_env :: "string option \<Rightarrow> (string \<times> string) list" where
  "Seatbelt_default_env directory =
     [(''PATH'', DEFAULT_SANDBOX_PATH)] @
     (case directory of Some home \<Rightarrow> [(''HOME'', home)] | None \<Rightarrow> []) @
     [(''TERM'', Seatbelt_DEFAULT_TERM)]"

definition Seatbelt_resolved_env :: "ExecutionRequest \<Rightarrow> string option \<Rightarrow> string list" where
  "Seatbelt_resolved_env request directory = resolve_env request (Seatbelt_default_env directory)"

end
