(* ===== verification/Seatbelt_Profile.thy ===== *)
theory Seatbelt_Profile
  imports Seatbelt_Policy Fs_Plan Rust_Path
begin

text \<open>
  \<open>profile_builder.rs\<close>: the Seatbelt profile of a request, as the text handed to the sandbox. \<open>Seatbelt_Rules\<close>
  reads the text back and shows what its rules decide.
\<close>

section \<open>Inputs and text\<close>

record ProfileInputs =
  pi_readonly_paths :: "string list"
  pi_readwrite_paths :: "string list"
  pi_denied_paths :: "string list"
  pi_developer_dir :: "string option"
  pi_user_keychains :: "string option"

datatype ProfileError = ProfilePolicy string | ProfileHost string

fun ProfileError_fmt :: "ProfileError \<Rightarrow> string" where
  "ProfileError_fmt (ProfilePolicy message) = message"
| "ProfileError_fmt (ProfileHost message) = message"

definition text_lines :: "string list \<Rightarrow> string" where
  "text_lines ls = concat (map (\<lambda>l. l @ [CHR 0x0A]) ls)"

fun escape_for_quotes :: "string \<Rightarrow> string" where
  "escape_for_quotes [] = []"
| "escape_for_quotes (c # s) =
     (if c = CHR 0x5C then [CHR 0x5C, CHR 0x5C]
      else if c = CHR 0x22 then [CHR 0x5C, CHR 0x22]
      else [c]) @ escape_for_quotes s"

definition quote_scheme :: "string \<Rightarrow> string" where
  "quote_scheme s = [CHR 0x22] @ escape_for_quotes s @ [CHR 0x22]"

definition BASELINE_ALLOW :: string where
  \<open>BASELINE_ALLOW = text_lines
     ['';; --- baseline (required for any process to start) ---'',
      ''(allow process-fork)'',
      ''(allow process-exec)'',
      ''(allow signal (target same-sandbox))'',
      ''(allow sysctl-read)'',
      ''(allow file-read-metadata)'',
      ''(allow mach-lookup'',
      ''    (global-name "com.apple.system.notification_center")'',
      ''    (global-name "com.apple.system.logger")'',
      ''    (global-name "com.apple.distributed_notifications@Uv3")'',
      ''    (global-name "com.apple.CoreServices.coreservicesd")'',
      ''    (global-name "com.apple.FSEvents"))'']\<close>

definition SYSTEM_READ_ALLOW :: string where
  \<open>SYSTEM_READ_ALLOW = text_lines
     ['';; --- read-only access to system locations ---'',
      '';; `/` itself must be readable as data so the shell / loader can resolve'',
      '';; path lookups; without this the kernel kills the child during exec.'',
      ''(allow file-read-data (literal "/"))'',
      ''(allow file-read*'',
      ''    (subpath "/bin")'',
      ''    (subpath "/sbin")'',
      ''    (subpath "/usr/bin")'',
      ''    (subpath "/usr/sbin")'',
      ''    (subpath "/usr/lib")'',
      ''    (subpath "/usr/libexec")'',
      ''    (subpath "/usr/share")'',
      ''    (subpath "/System")'',
      ''    (subpath "/Library")'',
      ''    (subpath "/private/var/db/timezone")'',
      ''    (subpath "/private/var/db/dyld")'',
      ''    (subpath "/private/var/select")'',
      ''    (subpath "/private/etc"))'',
      '';; Standard bit-bucket / entropy devices '' @ [CHR 0xE2, CHR 0x80, CHR 0x94] @ '' read+write because shell'',
      '';; redirections (`>/dev/null`, `</dev/urandom`) need both directions.'',
      '';; Writes to /dev/null and /dev/zero are discarded; /dev/random and'',
      '';; /dev/urandom write to the entropy pool, which is harmless.'',
      ''(allow file-read* file-write*'',
      ''    (literal "/dev/null")'',
      ''    (literal "/dev/zero")'',
      ''    (literal "/dev/random")'',
      ''    (literal "/dev/urandom"))'']\<close>

definition TTY_ALLOW :: string where
  \<open>TTY_ALLOW = text_lines
     ['';; --- controlling terminal and sandbox-allocated pseudo-terminals ---'',
      ''(allow file-read* file-write* file-ioctl (literal "/dev/tty"))'',
      ''(allow file-read* file-write* file-ioctl'',
      ''    (require-all'',
      ''        (regex #"^/dev/ttys[0-9]+$")'',
      ''        (extension "com.apple.sandbox.pty")))'',
      ''(allow file-read* (subpath "/dev/fd"))'']\<close>

definition write_developer_dir_rule :: "string option \<Rightarrow> string" where
  \<open>write_developer_dir_rule developer_dir =
     (case developer_dir of
        None \<Rightarrow> []
      | Some path \<Rightarrow>
          text_lines ['';; --- active developer directory (xcrun shims in /usr/bin) ---'',
            ''(allow file-read* (subpath '' @ quote_scheme path @ ''))''])\<close>

section \<open>Filesystem\<close>

record ResolvedPaths =
  rp_readonly :: "string list"
  rp_readwrite :: "string list"
  rp_denied :: "string list"

definition ResolvedPaths_from_inputs :: "ProfileInputs \<Rightarrow> ResolvedPaths" where
  \<open>ResolvedPaths_from_inputs inputs =
     (let denied = pi_denied_paths inputs;
          ro = filter (\<lambda>p. p \<notin> set denied) (pi_readonly_paths inputs);
          rw = filter (\<lambda>p. p \<notin> set denied \<and> p \<notin> set ro) (pi_readwrite_paths inputs)
      in \<lparr>rp_readonly = ro, rp_readwrite = rw, rp_denied = denied\<rparr>)\<close>

definition write_path_rule :: "string \<Rightarrow> string list \<Rightarrow> string" where
  \<open>write_path_rule ops paths =
     text_lines ([''('' @ ops] @ map (\<lambda>p. ''    (subpath '' @ quote_scheme p @ '')'') paths @ ['')''])\<close>

text \<open>The denied intent is not part of the plan, so its branch is never reached.\<close>

definition write_mount_rule :: "ResolvedMount \<Rightarrow> string" where
  \<open>write_mount_rule mount =
     (case rm_intent mount of
        ReadWrite \<Rightarrow> write_path_rule ''allow file-read* file-write* network-bind network-outbound'' [rm_path mount]
      | ReadOnly \<Rightarrow>
          write_path_rule ''allow file-read*'' [rm_path mount] @
          write_path_rule ''deny file-write* network-bind network-outbound'' [rm_path mount]
      | Denied \<Rightarrow> [])\<close>

definition write_filesystem_allow :: "ResolvedPaths \<Rightarrow> string" where
  \<open>write_filesystem_allow paths =
     (if rp_readonly paths = [] \<and> rp_readwrite paths = [] then []
      else text_lines ['';; --- policy.readonlyPaths / policy.readwritePaths (shallow-to-deep) ---''] @
        concat (map write_mount_rule (resolve_path_plan (rp_readwrite paths) (rp_readonly paths) [])))\<close>

definition write_filesystem_deny :: "ResolvedPaths \<Rightarrow> string" where
  \<open>write_filesystem_deny paths =
     (if rp_denied paths = [] then []
      else text_lines ['';; --- policy.deniedPaths (override broader allow rules) ---''] @
        write_path_rule ''deny file-read* file-read-metadata file-write* network-bind network-outbound'' (rp_denied paths))\<close>

section \<open>Network\<close>

definition write_outbound_allow_rules :: "string" where
  \<open>write_outbound_allow_rules = text_lines
     [''(allow network-outbound)'',
      ''(allow network-bind (local ip))'',
      ''(allow system-socket)'']\<close>

definition write_host_loopback_rules :: "ContainerPolicy \<Rightarrow> bool \<Rightarrow> string" where
  \<open>write_host_loopback_rules policy allow_outbound =
     (let loopback_allowed = host_loopback_allowed policy in
      if \<not> loopback_allowed \<and> allow_outbound then text_lines
        ['';; --- network: ingress.hostLoopback=deny '' @ [CHR 0xE2, CHR 0x80, CHR 0x94] @ '' close host loopback,'',
         '';;     including this host'' @ [CHR 0x27] @ ''s own non-loopback addresses ---'',
         ''(deny network-outbound (remote ip "localhost:*"))'']
      else if loopback_allowed \<and> \<not> allow_outbound then text_lines
        ['';; --- network: ingress.hostLoopback=allow '' @ [CHR 0xE2, CHR 0x80, CHR 0x94] @ '' open host loopback'',
         '';;     under an otherwise-deny egress default. Covers every'',
         '';;     address bound to this host; other machines stay denied ---'',
         ''(allow network-outbound (remote ip "localhost:*"))'']
      else [])\<close>

definition write_proxy_reachability_rules :: "ProxyAddress \<Rightarrow> string" where
  \<open>write_proxy_reachability_rules address =
     (if host_is_canonical_loopback (pa_address address) then text_lines
        ['';; --- network: proxy configured '' @ [CHR 0xE2, CHR 0x80, CHR 0x94] @
           '' allow reaching the loopback proxy on port '' @ show_nat (unat (pa_port address)) @ '' ---'',
         ''(allow network-outbound (remote ip "localhost:'' @ show_nat (unat (pa_port address)) @ ''"))'']
      else text_lines
        ['';; --- network: non-loopback proxy cannot be expressed as a Seatbelt'',
         '';;     reachability rule; no outbound allow emitted (fail closed) ---''])\<close>

definition write_local_network_rules :: "bool \<Rightarrow> string" where
  \<open>write_local_network_rules allow_ingress =
     (if \<not> allow_ingress then [] else text_lines
        ['';; --- network: ingress.default=allow '' @ [CHR 0xE2, CHR 0x80, CHR 0x94] @ '' accept inbound on local IPs ---'',
         ''(allow network-inbound (local ip))''])\<close>

definition write_network_rules :: "ExecutionRequest \<Rightarrow> ProxyAddress option \<Rightarrow> string" where
  \<open>write_network_rules request address =
     (let policy = req_policy request; allow_outbound = egress_allowed policy in
      (if \<not> allow_outbound then text_lines
         ['';; --- network: default-deny (no allow-network rules emitted) ---'']
       else text_lines
         ['';; --- network: outbound allowed (any host) ---''] @ write_outbound_allow_rules) @
      write_host_loopback_rules policy allow_outbound @
      (if \<not> allow_outbound then (case address of Some a \<Rightarrow> write_proxy_reachability_rules a | None \<Rightarrow> []) else []) @
      write_local_network_rules (local_network_allowed policy))\<close>

section \<open>Interface, terminals and services\<close>

definition write_gui_rules :: "string" where
  \<open>write_gui_rules = text_lines
     ['';; --- guiAccess: allow all Mach IPC for GUI applications ---'',
      ''(allow mach-lookup)'',
      ''(allow mach-register)'',
      '';; --- guiAccess: allow IOKit for GPU rendering ---'',
      ''(allow iokit-open)'',
      '';; --- guiAccess: allow writing to per-user temp/cache ---'',
      ''(allow file-read* file-write*'',
      ''    (subpath "/private/tmp")'',
      ''    (subpath "/private/var/folders"))'',
      '';; --- guiAccess: allow pseudo-TTY for shell sessions ---'',
      ''(allow pseudo-tty)'',
      ''(allow file-read* file-write* file-ioctl'',
      ''    (literal "/dev/ptmx"))'',
      '';; --- guiAccess: allow POSIX IPC for GUI apps ---'',
      ''(allow ipc-posix-shm-read-data ipc-posix-shm-write-data ipc-posix-shm-write-create)'']\<close>

definition write_ui_rules :: "ExecutionRequest \<Rightarrow> string" where
  \<open>write_ui_rules request =
     (let ui = policy_ui (req_policy request); gui_access = gui_access_effective request;
          clipboard_allowed = (ui_clipboard ui \<noteq> ClipNone) in
      (if \<not> ui_disable ui then text_lines
         ['';; --- ui enabled: allow WindowServer + LaunchServices ---'',
          ''(allow mach-lookup'',
          ''    (global-name "com.apple.windowserver.active")'',
          ''    (global-name "com.apple.windowserver.session")'',
          ''    (global-name "com.apple.coreservices.launchservicesd"))''] @
         (if gui_access then write_gui_rules else [])
       else text_lines
         ['';; --- ui.disable: deny WindowServer + related ---'',
          ''(deny mach-lookup'',
          ''    (global-name "com.apple.windowserver.active")'',
          ''    (global-name "com.apple.windowserver.session")'',
          ''    (global-name "com.apple.coreservices.launchservicesd"))'']) @
      (if clipboard_allowed then text_lines
         ['';; --- clipboard enabled: allow pasteboard ---'',
          ''(allow mach-lookup (global-name "com.apple.pasteboard.1"))'']
       else text_lines
         ['';; --- ui.clipboard=none: deny pasteboard ---'',
          ''(deny mach-lookup (global-name "com.apple.pasteboard.1"))'']) @
      (if \<not> ui_injection ui then text_lines
         ['';; --- ui.injection=false: deny HID iokit access ---'',
          ''(deny iokit-open (iokit-user-client-class "IOHIDLibUserClient"))''] else []))\<close>

definition write_nested_pty_rules :: "ExecutionRequest \<Rightarrow> string" where
  \<open>write_nested_pty_rules request =
     (let enabled = (case seatbelt request of None \<Rightarrow> True | Some c \<Rightarrow> sb_nested_pty c) in
      if \<not> enabled \<or> gui_access_effective request then []
      else text_lines
        ['';; --- nestedPty: allow inner process to allocate its own pty ---'',
         ''(allow pseudo-tty)'',
         ''(allow file-read* file-write* file-ioctl'',
         ''    (literal "/dev/ptmx"))''])\<close>

definition write_keychain_rules :: "ExecutionRequest \<Rightarrow> string option \<Rightarrow> ProfileError + string" where
  \<open>write_keychain_rules request user_keychains =
     (let enabled = (case seatbelt request of None \<Rightarrow> False | Some c \<Rightarrow> sb_keychain_access c) in
      if \<not> enabled then Ok []
      else (case user_keychains of
         None \<Rightarrow> Err (ProfileHost ''User keychain directory was not prepared for keychainAccess'')
       | Some keychains \<Rightarrow> Ok (text_lines
           ['';; --- keychainAccess: Mach IPC for Keychain (securityd, prefs, XPC, LS) ---'',
            ''(allow mach-lookup'',
            ''    (global-name "com.apple.SecurityServer")'',
            ''    (global-name "com.apple.securityd")'',
            ''    (global-name "com.apple.trustd")'',
            ''    (global-name "com.apple.trustd.agent")'',
            ''    (global-name "com.apple.ocspd")'',
            ''    (global-name "com.apple.cfprefsd.daemon")'',
            ''    (global-name "com.apple.cfprefsd.agent")'',
            ''    (global-name "com.apple.xpcd")'',
            ''    (global-name-regex #"^com'' @ [CHR 0x5C] @ ''.apple'' @ [CHR 0x5C] @ ''.lsd'' @ [CHR 0x5C] @ ''."))'',
            '';; --- keychainAccess: MDS keychain metadata + trustd protected store ---'',
            ''(allow file-read*'',
            ''    (subpath "/private/var/protected/trustd")'',
            ''    (subpath "/private/var/db/mds"))'',
            '';; --- keychainAccess: user keychain DB + XPC/folder caches (read+write) ---'',
            ''(allow file-read* file-write*''] @
           text_lines [''    (subpath '' @ quote_scheme keychains @ '')''] @
           text_lines
           [''    (subpath "/private/var/folders"))''])))\<close>

definition write_extra_seatbelt_rules :: "ExecutionRequest \<Rightarrow> string" where
  \<open>write_extra_seatbelt_rules request =
     (case seatbelt request of
        None \<Rightarrow> []
      | Some sb \<Rightarrow>
          if sb_extra_mach_lookups sb = [] then []
          else text_lines (['';; --- extraMachLookups: caller-provided Mach services ---'', ''(allow mach-lookup''] @
            map (\<lambda>name. ''    (global-name '' @ quote_scheme name @ '')'') (sb_extra_mach_lookups sb) @ ['')'']))\<close>

section \<open>The profile\<close>

text \<open>A terminal path is a byte string; \<open>to_str\<close> fails on one that is not UTF-8.\<close>

definition write_terminal_rule :: "string \<Rightarrow> ProfileError + string" where
  \<open>write_terminal_rule path =
     (if valid_utf8 path then
        Ok (text_lines [''(allow file-read* file-write* file-ioctl (literal '' @ quote_scheme path @ ''))''])
      else Err (ProfileHost ''Seatbelt: assigned terminal path is not valid UTF-8''))\<close>

definition build_profile_with_terminals ::
    "ExecutionRequest \<Rightarrow> ProxyAddress option \<Rightarrow> ProfileInputs \<Rightarrow> string list \<Rightarrow> ProfileError + string" where
  \<open>build_profile_with_terminals request address inputs terminal_paths =
     (case Option.bind (seatbelt request) sb_profile_override of
        Some override_profile \<Rightarrow> Ok override_profile
      | None \<Rightarrow>
          and_then (try_mapi (\<lambda>_ path. write_terminal_rule path) terminal_paths) (\<lambda>terminals.
            let resolved = ResolvedPaths_from_inputs inputs in
            and_then (write_keychain_rules request (pi_user_keychains inputs)) (\<lambda>keychain.
              Ok (text_lines [''(version 1)'', ''(deny default)''] @ BASELINE_ALLOW @ SYSTEM_READ_ALLOW @
                write_developer_dir_rule (pi_developer_dir inputs) @ TTY_ALLOW @ concat terminals @
                write_filesystem_allow resolved @ write_network_rules request address @
                write_nested_pty_rules request @ keychain @ write_extra_seatbelt_rules request @
                write_ui_rules request @ write_filesystem_deny resolved))))\<close>

definition build_profile_with_proxy ::
    "ExecutionRequest \<Rightarrow> ProxyAddress option \<Rightarrow> ProfileInputs \<Rightarrow> ProfileError + string" where
  "build_profile_with_proxy request address inputs = build_profile_with_terminals request address inputs []"

end
