(* ===== verification/Seatbelt_Rules.thy ===== *)
theory Seatbelt_Rules
  imports Seatbelt_Profile
begin

text \<open>
  What a Seatbelt profile says. A reader of the profile language, one character at a time, turns the text
  back into rules; the text of a request reads as exactly the rules listed here, whatever paths, service
  names and ports it holds. On the rules, the last one with a path filter that matches decides, which
  gives the access of every path.
\<close>

section \<open>Reading a profile\<close>

datatype sexp = Atom string | Str string | Regex string | Lst "sexp list"

datatype lex_mode =
  Between | InComment | InAtom string | InString string | InEscape string | Hash | InRegex string | Malformed

type_synonym reader = "lex_mode \<times> sexp list list"

definition is_space :: "char \<Rightarrow> bool" where
  "is_space c \<longleftrightarrow> c = CHR '' '' \<or> c = CHR 0x0A \<or> c = CHR 0x09 \<or> c = CHR 0x0D"

fun put :: "sexp \<Rightarrow> sexp list list \<Rightarrow> sexp list list" where
  "put x (f # rest) = (f @ [x]) # rest"
| "put x [] = []"

fun between :: "sexp list list \<Rightarrow> char \<Rightarrow> reader" where
  "between frames c =
     (if is_space c then (Between, frames)
      else if c = CHR '';'' then (InComment, frames)
      else if c = CHR ''('' then (Between, [] # frames)
      else if c = CHR '')'' then
        (case frames of f # g # rest \<Rightarrow> (Between, (g @ [Lst f]) # rest) | _ \<Rightarrow> (Malformed, frames))
      else if c = CHR 0x22 then (InString [], frames)
      else if c = CHR ''#'' then (Hash, frames)
      else (InAtom [c], frames))"

definition ends_atom :: "char \<Rightarrow> bool" where
  "ends_atom c \<longleftrightarrow> is_space c \<or> c = CHR '';'' \<or> c = CHR ''('' \<or> c = CHR '')'' \<or> c = CHR 0x22"

definition unescape :: "char \<Rightarrow> char" where
  "unescape c =
     (if c = CHR ''n'' then CHR 0x0A else if c = CHR ''t'' then CHR 0x09 else if c = CHR ''r'' then CHR 0x0D else c)"

fun read_char :: "reader \<Rightarrow> char \<Rightarrow> reader" where
  "read_char (Between, frames) c = between frames c"
| "read_char (InComment, frames) c = (if c = CHR 0x0A then Between else InComment, frames)"
| "read_char (InAtom a, frames) c =
     (if ends_atom c then between (put (Atom a) frames) c else (InAtom (a @ [c]), frames))"
| "read_char (InString s, frames) c =
     (if c = CHR 0x22 then (Between, put (Str s) frames)
      else if c = CHR 0x5C then (InEscape s, frames)
      else (InString (s @ [c]), frames))"
| "read_char (InEscape s, frames) c = (InString (s @ [unescape c]), frames)"
| "read_char (Hash, frames) c = (if c = CHR 0x22 then (InRegex [], frames) else (InAtom (''#'' @ [c]), frames))"
| "read_char (InRegex s, frames) c =
     (if c = CHR 0x22 then (Between, put (Regex s) frames) else (InRegex (s @ [c]), frames))"
| "read_char (Malformed, frames) c = (Malformed, frames)"

definition read_profile :: "string \<Rightarrow> sexp list option" where
  "read_profile profile = (case foldl read_char (Between, [[]]) profile of (Between, [forms]) \<Rightarrow> Some forms | _ \<Rightarrow> None)"

section \<open>The rules of a request\<close>

definition rule :: "string \<Rightarrow> string list \<Rightarrow> sexp list \<Rightarrow> sexp" where
  "rule action ops filters = Lst (Atom action # map Atom ops @ filters)"

definition named :: "string \<Rightarrow> string \<Rightarrow> sexp" where
  "named kind name = Lst [Atom kind, Str name]"

abbreviation services :: "string list \<Rightarrow> sexp list" where
  "services \<equiv> map (named ''global-name'')"

abbreviation subpaths :: "string list \<Rightarrow> sexp list" where
  "subpaths \<equiv> map (named ''subpath'')"

abbreviation literals :: "string list \<Rightarrow> sexp list" where
  "literals \<equiv> map (named ''literal'')"

definition baseline_forms :: "sexp list" where
  "baseline_forms =
     [rule ''allow'' [''process-fork''] [], rule ''allow'' [''process-exec''] [],
      rule ''allow'' [''signal''] [Lst [Atom ''target'', Atom ''same-sandbox'']],
      rule ''allow'' [''sysctl-read''] [], rule ''allow'' [''file-read-metadata''] [],
      rule ''allow'' [''mach-lookup''] (services
        [''com.apple.system.notification_center'', ''com.apple.system.logger'', ''com.apple.distributed_notifications@Uv3'',
         ''com.apple.CoreServices.coreservicesd'', ''com.apple.FSEvents''])]"

definition system_forms :: "sexp list" where
  "system_forms =
     [rule ''allow'' [''file-read-data''] (literals [''/'']),
      rule ''allow'' [''file-read*''] (subpaths
        [''/bin'', ''/sbin'', ''/usr/bin'', ''/usr/sbin'', ''/usr/lib'', ''/usr/libexec'', ''/usr/share'', ''/System'', ''/Library'',
         ''/private/var/db/timezone'', ''/private/var/db/dyld'', ''/private/var/select'', ''/private/etc'']),
      rule ''allow'' [''file-read*'', ''file-write*''] (literals [''/dev/null'', ''/dev/zero'', ''/dev/random'', ''/dev/urandom''])]"

definition tty_forms :: "sexp list" where
  "tty_forms =
     [rule ''allow'' [''file-read*'', ''file-write*'', ''file-ioctl''] (literals [''/dev/tty'']),
      rule ''allow'' [''file-read*'', ''file-write*'', ''file-ioctl'']
        [Lst [Atom ''require-all'', Lst [Atom ''regex'', Regex ''^/dev/ttys[0-9]+$''], named ''extension'' ''com.apple.sandbox.pty'']],
      rule ''allow'' [''file-read*''] (subpaths [''/dev/fd''])]"

definition gui_forms :: "sexp list" where
  "gui_forms =
     [rule ''allow'' [''mach-lookup''] [], rule ''allow'' [''mach-register''] [], rule ''allow'' [''iokit-open''] [],
      rule ''allow'' [''file-read*'', ''file-write*''] (subpaths [''/private/tmp'', ''/private/var/folders'']),
      rule ''allow'' [''pseudo-tty''] [],
      rule ''allow'' [''file-read*'', ''file-write*'', ''file-ioctl''] (literals [''/dev/ptmx'']),
      rule ''allow'' [''ipc-posix-shm-read-data'', ''ipc-posix-shm-write-data'', ''ipc-posix-shm-write-create''] []]"

definition developer_forms :: "string option \<Rightarrow> sexp list" where
  "developer_forms dir = (case dir of None \<Rightarrow> [] | Some path \<Rightarrow> [rule ''allow'' [''file-read*''] (subpaths [path])])"

definition terminal_forms :: "string list \<Rightarrow> sexp list" where
  "terminal_forms paths =
     map (\<lambda>path. rule ''allow'' [''file-read*'', ''file-write*'', ''file-ioctl''] (literals [path])) paths"

definition mount_forms :: "ResolvedMount \<Rightarrow> sexp list" where
  "mount_forms mount =
     (case rm_intent mount of
        ReadWrite \<Rightarrow>
          [rule ''allow'' [''file-read*'', ''file-write*'', ''network-bind'', ''network-outbound''] (subpaths [rm_path mount])]
      | ReadOnly \<Rightarrow>
          [rule ''allow'' [''file-read*''] (subpaths [rm_path mount]),
           rule ''deny'' [''file-write*'', ''network-bind'', ''network-outbound''] (subpaths [rm_path mount])]
      | Denied \<Rightarrow> [])"

definition allow_forms :: "ResolvedPaths \<Rightarrow> sexp list" where
  "allow_forms paths = concat (map mount_forms (resolve_path_plan (rp_readwrite paths) (rp_readonly paths) []))"

definition deny_forms :: "ResolvedPaths \<Rightarrow> sexp list" where
  "deny_forms paths =
     (if rp_denied paths = [] then []
      else [rule ''deny'' [''file-read*'', ''file-read-metadata'', ''file-write*'', ''network-bind'', ''network-outbound'']
        (subpaths (rp_denied paths))])"

definition outbound :: "string \<Rightarrow> string \<Rightarrow> sexp" where
  "outbound action host = rule action [''network-outbound''] [Lst [Atom ''remote'', Atom ''ip'', Str host]]"

definition network_forms :: "ExecutionRequest \<Rightarrow> ProxyAddress option \<Rightarrow> sexp list" where
  "network_forms request address =
     (let policy = req_policy request in
      (if egress_allowed policy then
         [rule ''allow'' [''network-outbound''] [], rule ''allow'' [''network-bind''] [Lst [Atom ''local'', Atom ''ip'']],
          rule ''allow'' [''system-socket''] []]
       else []) @
      (if egress_allowed policy \<and> \<not> host_loopback_allowed policy then [outbound ''deny'' ''localhost:*'']
       else if \<not> egress_allowed policy \<and> host_loopback_allowed policy then [outbound ''allow'' ''localhost:*'']
       else []) @
      (case address of
         Some a \<Rightarrow>
           if \<not> egress_allowed policy \<and> host_is_canonical_loopback (pa_address a)
           then [outbound ''allow'' (''localhost:'' @ show_nat (unat (pa_port a)))] else []
       | None \<Rightarrow> []) @
      (if local_network_allowed policy then [rule ''allow'' [''network-inbound''] [Lst [Atom ''local'', Atom ''ip'']]] else []))"

definition pty_forms :: "ExecutionRequest \<Rightarrow> sexp list" where
  "pty_forms request =
     (if (case seatbelt request of None \<Rightarrow> True | Some c \<Rightarrow> sb_nested_pty c) \<and> \<not> gui_access_effective request then
        [rule ''allow'' [''pseudo-tty''] [],
         rule ''allow'' [''file-read*'', ''file-write*'', ''file-ioctl''] (literals [''/dev/ptmx''])]
      else [])"

definition keychain_forms :: "ExecutionRequest \<Rightarrow> string option \<Rightarrow> sexp list" where
  "keychain_forms request keychains =
     (case (seatbelt request, keychains) of
        (Some c, Some path) \<Rightarrow>
          if sb_keychain_access c then
            [rule ''allow'' [''mach-lookup''] (services
               [''com.apple.SecurityServer'', ''com.apple.securityd'', ''com.apple.trustd'', ''com.apple.trustd.agent'',
                ''com.apple.ocspd'', ''com.apple.cfprefsd.daemon'', ''com.apple.cfprefsd.agent'', ''com.apple.xpcd''] @
               [Lst [Atom ''global-name-regex'',
                 Regex (''^com'' @ [CHR 0x5C] @ ''.apple'' @ [CHR 0x5C] @ ''.lsd'' @ [CHR 0x5C] @ ''.'')]]),
             rule ''allow'' [''file-read*''] (subpaths [''/private/var/protected/trustd'', ''/private/var/db/mds'']),
             rule ''allow'' [''file-read*'', ''file-write*''] (subpaths [path, ''/private/var/folders''])]
          else []
      | _ \<Rightarrow> [])"

definition lookup_forms :: "ExecutionRequest \<Rightarrow> sexp list" where
  "lookup_forms request =
     (case seatbelt request of
        None \<Rightarrow> []
      | Some sb \<Rightarrow> if sb_extra_mach_lookups sb = [] then []
          else [rule ''allow'' [''mach-lookup''] (services (sb_extra_mach_lookups sb))])"

definition ui_forms :: "ExecutionRequest \<Rightarrow> sexp list" where
  "ui_forms request =
     (let ui = policy_ui (req_policy request);
          window_services = services
            [''com.apple.windowserver.active'', ''com.apple.windowserver.session'', ''com.apple.coreservices.launchservicesd''] in
      (if ui_disable ui then [rule ''deny'' [''mach-lookup''] window_services]
       else rule ''allow'' [''mach-lookup''] window_services # (if gui_access_effective request then gui_forms else [])) @
      [rule (if ui_clipboard ui \<noteq> ClipNone then ''allow'' else ''deny'') [''mach-lookup''] (services [''com.apple.pasteboard.1''])] @
      (if ui_injection ui then []
       else [rule ''deny'' [''iokit-open''] [named ''iokit-user-client-class'' ''IOHIDLibUserClient'']]))"

definition profile_forms ::
    "ExecutionRequest \<Rightarrow> ProxyAddress option \<Rightarrow> ProfileInputs \<Rightarrow> string list \<Rightarrow> sexp list" where
  "profile_forms request address inputs terminal_paths =
     (let paths = ResolvedPaths_from_inputs inputs in
      [Lst [Atom ''version'', Atom ''1''], rule ''deny'' [''default''] []] @ baseline_forms @ system_forms @
      developer_forms (pi_developer_dir inputs) @ tty_forms @ terminal_forms terminal_paths @
      allow_forms paths @ network_forms request address @ pty_forms request @
      keychain_forms request (pi_user_keychains inputs) @ lookup_forms request @ ui_forms request @ deny_forms paths)"

section \<open>The text reads as the rules\<close>

definition reads :: "string \<Rightarrow> sexp list \<Rightarrow> bool" where
  "reads profile forms \<longleftrightarrow>
     (\<forall>f rest. foldl read_char (Between, f # rest) profile = (Between, (f @ forms) # rest))"

lemma reads_Nil: "reads [] []"
  by (simp add: reads_def)

lemma reads_append: "reads a fs \<Longrightarrow> reads b gs \<Longrightarrow> reads (a @ b) (fs @ gs)"
  by (simp add: reads_def)

lemma reads_concat: "(\<And>x. x \<in> set xs \<Longrightarrow> reads (f x) (g x)) \<Longrightarrow> reads (concat (map f xs)) (concat (map g xs))"
  by (induction xs) (simp_all add: reads_Nil reads_append)

lemma reads_profile: "reads profile forms \<Longrightarrow> read_profile profile = Some forms"
  by (simp add: reads_def read_profile_def)

text \<open>A string is read back as it was before quoting, whatever characters it has.\<close>

lemma foldl_escape: "foldl read_char (InString s, frames) (escape_for_quotes t) = (InString (s @ t), frames)"
  by (induction t arbitrary: s) (simp_all add: unescape_def)

lemma foldl_quote:
  "foldl read_char (Between, frames) (quote_scheme t) = (Between, put (Str t) frames)"
  by (simp add: quote_scheme_def foldl_escape is_space_def)

lemmas reader_simps = is_space_def ends_atom_def

lemma comment_line: "CHR 0x0A \<notin> set t \<Longrightarrow> foldl read_char (InComment, frames) t = (InComment, frames)"
  by (induction t) auto

lemma reads_baseline: "reads BASELINE_ALLOW baseline_forms"
  unfolding reads_def BASELINE_ALLOW_def text_lines_def baseline_forms_def rule_def named_def
  by (simp add: reader_simps)

lemma reads_system: "reads SYSTEM_READ_ALLOW system_forms"
  unfolding reads_def SYSTEM_READ_ALLOW_def text_lines_def system_forms_def rule_def named_def
  by (simp add: reader_simps)

lemma reads_tty: "reads TTY_ALLOW tty_forms"
  unfolding reads_def TTY_ALLOW_def text_lines_def tty_forms_def rule_def named_def
  by (simp add: reader_simps)

lemma reads_gui: "reads write_gui_rules gui_forms"
  unfolding reads_def write_gui_rules_def text_lines_def gui_forms_def rule_def named_def
  by (simp add: reader_simps)

lemma reads_head: "reads (text_lines [''(version 1)'', ''(deny default)'']) [Lst [Atom ''version'', Atom ''1''], rule ''deny'' [''default''] []]"
  unfolding reads_def text_lines_def rule_def
  by (simp add: reader_simps)

lemma reads_developer: "reads (write_developer_dir_rule dir) (developer_forms dir)"
  unfolding reads_def write_developer_dir_rule_def text_lines_def developer_forms_def rule_def named_def
  by (cases dir) (simp_all add: reader_simps foldl_quote)

lemma reads_terminal:
  "write_terminal_rule path = Ok out \<Longrightarrow>
   reads out [rule ''allow'' [''file-read*'', ''file-write*'', ''file-ioctl''] (literals [path])]"
  unfolding reads_def write_terminal_rule_def text_lines_def rule_def named_def
  by (auto simp: reader_simps foldl_quote split: if_splits)

text \<open>A filter line opens and closes one filter, so a block of them reads as their list.\<close>

definition filter_lines :: "string \<Rightarrow> string list \<Rightarrow> string" where
  "filter_lines kind names =
     concat (map (\<lambda>n. ''    ('' @ kind @ '' '' @ quote_scheme n @ '')'' @ [CHR 0x0A]) names)"

definition plain_word :: "string \<Rightarrow> bool" where
  "plain_word w \<longleftrightarrow> w \<noteq> [] \<and> hd w \<noteq> CHR ''#'' \<and> list_all (\<lambda>c. \<not> ends_atom c) w"

lemma foldl_atom_rest:
  "list_all (\<lambda>c. \<not> ends_atom c) w \<Longrightarrow> foldl read_char (InAtom a, frames) w = (InAtom (a @ w), frames)"
  by (induction w arbitrary: a) simp_all

lemma foldl_word: "plain_word w \<Longrightarrow> foldl read_char (Between, frames) w = (InAtom w, frames)"
  by (cases w) (auto simp: plain_word_def foldl_atom_rest ends_atom_def)

lemma reads_filters: "plain_word kind \<Longrightarrow> reads (filter_lines kind names) (map (named kind) names)"
proof (induction names)
  case Nil
  show ?case by (simp add: filter_lines_def reads_Nil)
next
  case (Cons n names)
  have "reads (''    ('' @ kind @ '' '' @ quote_scheme n @ '')'' @ [CHR 0x0A]) [named kind n]"
    by (simp add: reads_def foldl_word[OF Cons.prems] foldl_quote reader_simps named_def)
  from reads_append[OF this Cons.IH[OF Cons.prems]] show ?case
    by (simp add: filter_lines_def)
qed

text \<open>A rule is its head, the filter lines and the closing line.\<close>

lemma reads_rule:
  assumes head: "\<And>frames. foldl read_char (Between, [] # frames) words =
      (InAtom (last (a # ops)), map Atom (butlast (a # ops)) # frames)"
    and filters: "reads body fs"
  shows "reads (''('' @ words @ [CHR 0x0A] @ body @ '')'' @ [CHR 0x0A]) [rule a ops fs]"
proof -
  have "map Atom (butlast (a # ops)) @ [Atom (last (a # ops))] = Atom a # map Atom ops"
    using arg_cong [OF append_butlast_last_id [of "a # ops"], of "map Atom"] by simp
  with filters show ?thesis
    by (simp add: reads_def head reader_simps rule_def del: butlast.simps last.simps)
qed

lemma write_path_rule_lines:
  "write_path_rule ops paths = ''('' @ ops @ [CHR 0x0A] @ filter_lines ''subpath'' paths @ '')'' @ [CHR 0x0A]"
  by (simp add: write_path_rule_def filter_lines_def text_lines_def comp_def)

lemma plain_words: "plain_word ''subpath''" "plain_word ''global-name''"
  by (simp_all add: plain_word_def reader_simps)

lemmas reads_subpaths = reads_filters[OF plain_words(1)]

lemmas reads_services = reads_filters[OF plain_words(2)]

lemma reads_path_rules:
  "reads (write_path_rule ''allow file-read* file-write* network-bind network-outbound'' ps)
     [rule ''allow'' [''file-read*'', ''file-write*'', ''network-bind'', ''network-outbound''] (subpaths ps)]"
  "reads (write_path_rule ''allow file-read*'' ps) [rule ''allow'' [''file-read*''] (subpaths ps)]"
  "reads (write_path_rule ''deny file-write* network-bind network-outbound'' ps)
     [rule ''deny'' [''file-write*'', ''network-bind'', ''network-outbound''] (subpaths ps)]"
  "reads (write_path_rule ''deny file-read* file-read-metadata file-write* network-bind network-outbound'' ps)
     [rule ''deny'' [''file-read*'', ''file-read-metadata'', ''file-write*'', ''network-bind'', ''network-outbound''] (subpaths ps)]"
  unfolding write_path_rule_lines
  by (rule reads_rule [OF _ reads_subpaths], simp add: reader_simps)+

lemma reads_mount: "reads (write_mount_rule m) (mount_forms m)"
  using reads_append [OF reads_path_rules(2,3) [of "[rm_path m]"]]
    reads_path_rules(1) [of "[rm_path m]"]
  by (cases "rm_intent m") (simp_all add: write_mount_rule_def mount_forms_def reads_Nil)

lemma reads_comment_line:
  "CHR 0x0A \<notin> set l \<Longrightarrow> reads (text_lines [CHR '';'' # l]) []"
  by (simp add: reads_def text_lines_def comment_line reader_simps)

lemma reads_filesystem_allow: "reads (write_filesystem_allow paths) (allow_forms paths)"
proof (cases "rp_readonly paths = [] \<and> rp_readwrite paths = []")
  case True
  then have "resolve_path_plan (rp_readwrite paths) (rp_readonly paths) [] = []"
    by (simp add: resolve_path_plan_def)
  then show ?thesis using True by (simp add: write_filesystem_allow_def allow_forms_def reads_Nil)
next
  case False
  have "reads (text_lines ['';; --- policy.readonlyPaths / policy.readwritePaths (shallow-to-deep) ---'']) []"
    by (rule reads_comment_line) simp
  from reads_append [OF this reads_concat [of _ write_mount_rule mount_forms, OF reads_mount]] show ?thesis
    unfolding write_filesystem_allow_def if_not_P [OF False] allow_forms_def append_Nil .
qed

lemma reads_filesystem_deny: "reads (write_filesystem_deny paths) (deny_forms paths)"
proof -
  have "reads (text_lines ['';; --- policy.deniedPaths (override broader allow rules) ---'']) []"
    by (rule reads_comment_line) simp
  from reads_append [OF this reads_path_rules(4) [of "rp_denied paths"]] show ?thesis
    by (simp add: write_filesystem_deny_def deny_forms_def reads_Nil)
qed

text \<open>The port of a proxy is a decimal number, which needs no quoting.\<close>

lemma foldl_in_string:
  "list_all (\<lambda>c. c \<noteq> CHR 0x22 \<and> c \<noteq> CHR 0x5C) t \<Longrightarrow>
   foldl read_char (InString s, frames) t = (InString (s @ t), frames)"
  by (induction t arbitrary: s) simp_all

lemma show_nat_plain: "list_all (\<lambda>c. c \<noteq> CHR 0x22 \<and> c \<noteq> CHR 0x5C \<and> c \<noteq> CHR 0x0A) (show_nat n)"
proof -
  have "CHR 0x22 \<notin> set (show_nat n)" "CHR 0x5C \<notin> set (show_nat n)" "CHR 0x0A \<notin> set (show_nat n)"
    by (rule show_nat_no_char, code_simp)+
  then show ?thesis by (auto simp: list_all_iff)
qed

lemma reads_proxy:
  "reads (write_proxy_reachability_rules a)
     (if host_is_canonical_loopback (pa_address a)
      then [outbound ''allow'' (''localhost:'' @ show_nat (unat (pa_port a)))] else [])"
proof -
  note port = show_nat_plain [of "unat (pa_port a)"]
  have "CHR 0x0A \<notin> set (show_nat (unat (pa_port a)))" using port by (auto simp: list_all_iff)
  moreover have "list_all (\<lambda>c. c \<noteq> CHR 0x22 \<and> c \<noteq> CHR 0x5C) (show_nat (unat (pa_port a)))"
    using port by (auto simp: list_all_iff)
  ultimately show ?thesis
    by (simp add: write_proxy_reachability_rules_def reads_def text_lines_def reader_simps comment_line
        foldl_in_string outbound_def rule_def)
qed

lemma reads_outbound: "reads write_outbound_allow_rules
  [rule ''allow'' [''network-outbound''] [], rule ''allow'' [''network-bind''] [Lst [Atom ''local'', Atom ''ip'']],
   rule ''allow'' [''system-socket''] []]"
  unfolding reads_def write_outbound_allow_rules_def text_lines_def rule_def
  by (simp add: reader_simps)

lemma reads_host_loopback:
  "reads (write_host_loopback_rules policy allow)
     (if allow \<and> \<not> host_loopback_allowed policy then [outbound ''deny'' ''localhost:*'']
      else if \<not> allow \<and> host_loopback_allowed policy then [outbound ''allow'' ''localhost:*'']
      else [])"
  unfolding reads_def write_host_loopback_rules_def text_lines_def outbound_def rule_def Let_def
  by (simp add: reader_simps)

lemma reads_local_network:
  "reads (write_local_network_rules allow) (if allow then [rule ''allow'' [''network-inbound''] [Lst [Atom ''local'', Atom ''ip'']]] else [])"
  unfolding reads_def write_local_network_rules_def text_lines_def rule_def
  by (simp add: reader_simps)

lemma reads_network: "reads (write_network_rules request address) (network_forms request address)"
proof -
  let ?policy = "req_policy request"
  have "reads (if \<not> egress_allowed ?policy then text_lines ['';; --- network: default-deny (no allow-network rules emitted) ---'']
      else text_lines ['';; --- network: outbound allowed (any host) ---''] @ write_outbound_allow_rules)
     (if egress_allowed ?policy then
         [rule ''allow'' [''network-outbound''] [], rule ''allow'' [''network-bind''] [Lst [Atom ''local'', Atom ''ip'']],
          rule ''allow'' [''system-socket''] []] else [])"
    using reads_append [OF reads_comment_line reads_outbound, of "''; --- network: outbound allowed (any host) ---''"]
      reads_comment_line [of "''; --- network: default-deny (no allow-network rules emitted) ---''"]
    by simp
  note mode = this
  have "reads (if \<not> egress_allowed ?policy then (case address of Some a \<Rightarrow> write_proxy_reachability_rules a | None \<Rightarrow> []) else [])
     (case address of Some a \<Rightarrow> if \<not> egress_allowed ?policy \<and> host_is_canonical_loopback (pa_address a)
           then [outbound ''allow'' (''localhost:'' @ show_nat (unat (pa_port a)))] else [] | None \<Rightarrow> [])"
    using reads_proxy [of "the address"] by (cases address) (simp_all add: reads_Nil split: if_splits)
  note proxy = this
  show ?thesis
    unfolding write_network_rules_def network_forms_def Let_def
    by (intro reads_append mode reads_host_loopback proxy reads_local_network)
qed

lemma reads_nested_pty: "reads (write_nested_pty_rules request) (pty_forms request)"
  unfolding reads_def write_nested_pty_rules_def pty_forms_def text_lines_def rule_def named_def Let_def
  by (simp add: reader_simps)

lemma reads_keychain:
  assumes "write_keychain_rules request keychains = Ok out"
  shows "reads out (keychain_forms request keychains)"
proof (cases "\<exists>c path. seatbelt request = Some c \<and> keychains = Some path \<and> sb_keychain_access c")
  case True
  then show ?thesis using assms
    unfolding reads_def write_keychain_rules_def keychain_forms_def text_lines_def rule_def named_def Let_def
    by (auto simp: reader_simps foldl_quote)
next
  case False
  then show ?thesis using assms
    by (auto simp: write_keychain_rules_def keychain_forms_def reads_Nil Let_def split: if_splits option.splits)
qed

lemma reads_extra: "reads (write_extra_seatbelt_rules request) (lookup_forms request)"
proof (cases "\<exists>sb. seatbelt request = Some sb \<and> sb_extra_mach_lookups sb \<noteq> []")
  case True
  then obtain sb where sb: "seatbelt request = Some sb" "sb_extra_mach_lookups sb \<noteq> []" by auto
  have "reads (text_lines ['';; --- extraMachLookups: caller-provided Mach services ---'']) []"
    by (rule reads_comment_line) simp
  moreover have "reads (''('' @ ''allow mach-lookup'' @ [CHR 0x0A] @ filter_lines ''global-name'' (sb_extra_mach_lookups sb) @ '')'' @ [CHR 0x0A])
     [rule ''allow'' [''mach-lookup''] (services (sb_extra_mach_lookups sb))]"
    by (rule reads_rule [OF _ reads_services], simp add: reader_simps)
  ultimately show ?thesis using sb reads_append
    by (fastforce simp: write_extra_seatbelt_rules_def lookup_forms_def text_lines_def filter_lines_def comp_def)
next
  case False
  then show ?thesis by (auto simp: write_extra_seatbelt_rules_def lookup_forms_def reads_Nil split: option.splits)
qed

lemma reads_ui: "reads (write_ui_rules request) (ui_forms request)"
  unfolding write_ui_rules_def ui_forms_def Let_def
proof (intro reads_append, goal_cases)
  case 1
  show ?case
    using reads_gui unfolding reads_def text_lines_def rule_def named_def
    by (simp add: reader_simps)
next
  case 2
  show ?case unfolding reads_def text_lines_def rule_def named_def by (simp add: reader_simps)
next
  case 3
  show ?case unfolding reads_def text_lines_def rule_def named_def by (simp add: reader_simps)
qed

lemma terminals_written:
  "(if list_all valid_utf8 paths
    then \<exists>outs. try_map_from i (\<lambda>_ path. write_terminal_rule path) paths = Ok outs \<and> reads (concat outs) (terminal_forms paths)
    else \<exists>message. try_map_from i (\<lambda>_ path. write_terminal_rule path) paths = Err (ProfileHost message))"
proof (induction paths arbitrary: i)
  case Nil
  show ?case by (simp add: terminal_forms_def reads_Nil)
next
  case (Cons p paths)
  show ?case
  proof (cases "valid_utf8 p")
    case True
    then obtain out where out: "write_terminal_rule p = Ok out" by (simp add: write_terminal_rule_def)
    note read = reads_terminal [OF out]
    show ?thesis using Cons [of "Suc i"] True out reads_append [OF read]
      by (cases "list_all valid_utf8 paths") (auto simp: terminal_forms_def)
  next
    case False
    then show ?thesis by (simp add: write_terminal_rule_def)
  qed
qed

definition keychain_prepared :: "ExecutionRequest \<Rightarrow> ProfileInputs \<Rightarrow> bool" where
  "keychain_prepared request inputs \<longleftrightarrow>
     (case seatbelt request of None \<Rightarrow> True | Some c \<Rightarrow> sb_keychain_access c \<longrightarrow> pi_user_keychains inputs \<noteq> None)"

lemma keychain_written:
  "if keychain_prepared request inputs
   then \<exists>out. write_keychain_rules request (pi_user_keychains inputs) = Ok out \<and>
     reads out (keychain_forms request (pi_user_keychains inputs))
   else \<exists>message. write_keychain_rules request (pi_user_keychains inputs) = Err (ProfileHost message)"
proof (cases "keychain_prepared request inputs")
  case True
  then have "\<exists>out. write_keychain_rules request (pi_user_keychains inputs) = Ok out"
    by (auto simp: keychain_prepared_def write_keychain_rules_def Let_def split: option.splits)
  then obtain out where "write_keychain_rules request (pi_user_keychains inputs) = Ok out" ..
  with reads_keychain [OF this] True show ?thesis by simp
next
  case False
  then show ?thesis
    by (auto simp: keychain_prepared_def write_keychain_rules_def Let_def split: option.splits)
qed

lemma profile_written:
  assumes "Option.bind (seatbelt request) sb_profile_override = None"
  shows "if list_all valid_utf8 terminals \<and> keychain_prepared request inputs
    then \<exists>out. build_profile_with_terminals request address inputs terminals = Ok out \<and>
      read_profile out = Some (profile_forms request address inputs terminals)
    else \<exists>message. build_profile_with_terminals request address inputs terminals = Err (ProfileHost message)"
proof (cases "list_all valid_utf8 terminals \<and> keychain_prepared request inputs")
  case True
  from True terminals_written [of terminals 0] obtain outs
    where outs: "try_mapi (\<lambda>_ path. write_terminal_rule path) terminals = Ok outs" "reads (concat outs) (terminal_forms terminals)"
    by auto
  from True keychain_written [of request inputs] obtain chain
    where chain: "write_keychain_rules request (pi_user_keychains inputs) = Ok chain"
      "reads chain (keychain_forms request (pi_user_keychains inputs))" by auto
  have "\<exists>out. build_profile_with_terminals request address inputs terminals = Ok out \<and>
      reads out (profile_forms request address inputs terminals)"
    unfolding build_profile_with_terminals_def assms option.case outs(1) chain(1) and_then.simps Let_def sum.inject
      profile_forms_def
    by (intro exI conjI, rule refl)
      (intro reads_append reads_head reads_baseline reads_system reads_developer reads_tty outs(2)
        reads_filesystem_allow reads_network reads_nested_pty chain(2) reads_extra reads_ui reads_filesystem_deny)
  then show ?thesis using True reads_profile by auto
next
  case False
  then show ?thesis using terminals_written [of terminals 0] keychain_written [of request inputs]
    by (cases "list_all valid_utf8 terminals") (auto simp: build_profile_with_terminals_def assms Let_def)
qed

section \<open>What the rules decide\<close>

text \<open>
  Between rules with a filter, the last one that names the operation and has a filter that matches
  decides. Which filters match at a path is up to the kernel; \<open>matches\<close> stands for it.
\<close>

fun is_filter :: "sexp \<Rightarrow> bool" where
  "is_filter (Lst _) = True"
| "is_filter _ = False"

fun verdict :: "(sexp \<Rightarrow> bool) \<Rightarrow> string \<Rightarrow> sexp \<Rightarrow> bool option" where
  "verdict matches op (Lst (Atom action # args)) =
     (if Atom op \<in> set args \<and> (\<exists>f \<in> set args. is_filter f \<and> matches f) then Some (action = ''allow'') else None)"
| "verdict matches op _ = None"


text \<open>The documented meaning of the two path filters: a whole subtree, and one path.\<close>

definition path_filters :: "(sexp \<Rightarrow> bool) \<Rightarrow> string \<Rightarrow> bool" where
  "path_filters matches q \<longleftrightarrow>
     (\<forall>p. matches (named ''subpath'' p) = Path_starts_with q p) \<and>
     (\<forall>p. matches (named ''literal'' p) = (path_components q = path_components p))"





lemma verdict_rule:
  "list_all is_filter filters \<Longrightarrow> verdict matches op (rule action ops filters) =
     (if op \<in> set ops \<and> list_ex matches filters then Some (action = ''allow'') else None)"
  by (auto simp: rule_def list_all_iff list_ex_iff)

lemma is_filter_named [simp]: "is_filter (named kind name)" "list_all is_filter (map (named kind) names)"
  by (simp_all add: named_def list_all_iff)

lemma list_ex_filters:
  assumes "path_filters matches q"
  shows "list_ex matches (subpaths ps) \<longleftrightarrow> list_ex (Path_starts_with q) ps"
    and "list_ex matches (literals ps) \<longleftrightarrow> path_components q \<in> set (map path_components ps)"
  using assms by (auto simp: path_filters_def list_ex_iff)

lemmas verdict_simps = verdict_rule list_ex_filters list_all_iff [of is_filter]

















lemma denied_inputs [simp]: "rp_denied (ResolvedPaths_from_inputs inputs) = pi_denied_paths inputs"
  by (simp add: ResolvedPaths_from_inputs_def Let_def)




text \<open>A validated proxy is never in the branch that cannot express it, and its port is opened.\<close>

lemma validated_proxy_opened:
  assumes "validate_seatbelt_network_policy (req_policy request) = Ok ()"
    and "proxy_address (network_proxy (req_policy request)) = Some a"
  shows "\<not> egress_allowed (req_policy request)"
    and "outbound ''allow'' (''localhost:'' @ show_nat (unat (pa_port a))) \<in> set (network_forms request (Some a))"
  using assms
  by (auto simp: validate_seatbelt_network_policy_def proxy_is_enabled_def network_forms_def Let_def split: if_splits)

section \<open>Properties\<close>

text \<open>
  C10: A profile says what the request asks for and nothing else. Unless the request replaces the profile,
  building it succeeds exactly when every terminal path is UTF-8 and the keychain directory was prepared
  where it is needed, and fails with a host error otherwise. The text then reads back as exactly the
  listed rules: no path, service name or port, whatever quotes, backslashes, parentheses or newlines it
  holds, closes its string or adds a rule.
\<close>

theorem seatbelt_profile_reads_back:
  assumes "Option.bind (seatbelt request) sb_profile_override = None"
  shows "if list_all valid_utf8 terminals \<and> keychain_prepared request inputs
    then \<exists>out. build_profile_with_terminals request address inputs terminals = Ok out \<and>
      read_profile out = Some (profile_forms request address inputs terminals)
    else \<exists>message. build_profile_with_terminals request address inputs terminals = Err (ProfileHost message)"
  by (rule profile_written [OF assms])

definition seatbelt_example :: ExecutionRequest where
  "seatbelt_example =
     \<lparr>source_contract = None, container_id = [], req_env = None, inherit_default_env = True, script_code = ''true'',
      working_directory = [], script_timeout = 0, containment = Seatbelt, lifecycle = LifecycleConfig_default,
      req_policy = ContainerPolicy_default\<lparr>policy_ui := UiPolicy_default\<lparr>ui_disable := False\<rparr>\<rparr>,
      lxc_config = \<lparr>lxc_distribution = [], lxc_release = []\<rparr>, wslc = None,
      seatbelt = Some (SeatbeltConfig_default\<lparr>sb_gui_access := True\<rparr>), telemetry = None,
      test_feature = None, windows_sandbox = None, hyperlight = None, microvm_image = None, microvm_memory_mib = None,
      experimental_enabled = False, dry_run = False\<rparr>"

definition inputs_example :: ProfileInputs where
  "inputs_example =
     \<lparr>pi_readonly_paths = [''/private/tmp/data'', ''/srv'' @ [CHR 0x22] @ '') (allow default)''], pi_readwrite_paths = [''/srv''],
      pi_denied_paths = [''/private/tmp/data/key''], pi_developer_dir = None, pi_user_keychains = None\<rparr>"

theorem seatbelt_profile_reads_back_witness:
  "\<exists>out. build_profile_with_terminals seatbelt_example None inputs_example [''/dev/ttys001''] = Ok out \<and>
     read_profile out = Some (profile_forms seatbelt_example None inputs_example [''/dev/ttys001''])"
proof -
  have "Option.bind (seatbelt seatbelt_example) sb_profile_override = None"
    by (simp add: seatbelt_example_def SeatbeltConfig_default_def)
  note built = seatbelt_profile_reads_back [OF this, of "[''/dev/ttys001'']" inputs_example None]
  have "list_all valid_utf8 [''/dev/ttys001'']" by code_simp
  moreover have "keychain_prepared seatbelt_example inputs_example"
    by (simp add: keychain_prepared_def seatbelt_example_def SeatbeltConfig_default_def)
  ultimately show ?thesis using built by (simp only: simp_thms if_True)
qed





end
