(* ===== verification/Cmdline.thy ===== *)
theory Cmdline
  imports Models
begin

text \<open>
  \<open>cmdline.rs\<close>: an argument vector rendered as one command line, for the Windows process API, for
  \<open>cmd.exe\<close> and for a POSIX shell. Each rendering is read back by the documented rules of the parser it
  is meant for. Strings are bytes; every character with a meaning here is ASCII, so reading characters
  and reading bytes is the same.
\<close>

section \<open>Rendering\<close>

datatype CommandLineContext = WindowsCreateProcess | WindowsCommandProcessor | PosixShell

fun CommandLineContext_for_backend :: "ContainmentBackend \<Rightarrow> CommandLineContext" where
  "CommandLineContext_for_backend IsolationSession = WindowsCommandProcessor"
| "CommandLineContext_for_backend WindowsSandbox = WindowsCommandProcessor"
| "CommandLineContext_for_backend Wslc = PosixShell"
| "CommandLineContext_for_backend Lxc = PosixShell"
| "CommandLineContext_for_backend Seatbelt = PosixShell"
| "CommandLineContext_for_backend Bubblewrap = PosixShell"
| "CommandLineContext_for_backend MicroVm = PosixShell"
| "CommandLineContext_for_backend ProcessContainer = WindowsCreateProcess"
| "CommandLineContext_for_backend Vm = WindowsCreateProcess"
| "CommandLineContext_for_backend Hyperlight = WindowsCreateProcess"

record CommandLineError =
  cle_message :: string

definition validate_argv :: "string list \<Rightarrow> CommandLineError + unit" where
  "validate_argv argv =
     (if list_ex (\<lambda>arg. CHR 0x00 \<in> set arg) argv
      then Err \<lparr>cle_message = ''CLI command arguments must not contain null bytes''\<rparr>
      else Ok ())"

definition needs_windows_create_process_quotes :: "string \<Rightarrow> bool" where
  "needs_windows_create_process_quotes arg \<longleftrightarrow>
     arg = [] \<or>
     list_ex (\<lambda>c. c = CHR '' '' \<or> c = CHR 0x09 \<or> c = CHR 0x0A \<or> c = CHR 0x0B \<or> c = CHR 0x22) arg"

definition needs_windows_cmd_quotes :: "string \<Rightarrow> bool" where
  "needs_windows_cmd_quotes arg \<longleftrightarrow>
     needs_windows_create_process_quotes arg \<or> list_ex (\<lambda>c. c \<in> set ''&|<>^()'') arg"

text \<open>The loop of \<open>append_quoted_windows_arg\<close>, with the count of backslashes not yet written.\<close>

fun quoted_windows_rest :: "nat \<Rightarrow> string \<Rightarrow> string" where
  "quoted_windows_rest backslashes [] = replicate (backslashes * 2) (CHR 0x5C) @ [CHR 0x22]"
| "quoted_windows_rest backslashes (c # arg) =
     (if c = CHR 0x5C then quoted_windows_rest (backslashes + 1) arg
      else if c = CHR 0x22 then
        replicate (backslashes * 2 + 1) (CHR 0x5C) @ [CHR 0x22] @ quoted_windows_rest 0 arg
      else replicate backslashes (CHR 0x5C) @ [c] @ quoted_windows_rest 0 arg)"

definition append_quoted_windows_arg :: "string \<Rightarrow> string \<Rightarrow> string" where
  "append_quoted_windows_arg out arg = out @ [CHR 0x22] @ quoted_windows_rest 0 arg"

definition append_windows_quoted :: "string \<Rightarrow> string \<Rightarrow> (string \<Rightarrow> bool) \<Rightarrow> string" where
  "append_windows_quoted out arg needs_quoting =
     (if \<not> needs_quoting arg then out @ arg else append_quoted_windows_arg out arg)"

definition append_windows_create_process :: "string \<Rightarrow> string \<Rightarrow> string" where
  "append_windows_create_process out arg = append_windows_quoted out arg needs_windows_create_process_quotes"

definition append_windows_cmd :: "string \<Rightarrow> string \<Rightarrow> string" where
  "append_windows_cmd out arg = append_windows_quoted out arg needs_windows_cmd_quotes"

definition posix_safe_char :: "char \<Rightarrow> bool" where
  "posix_safe_char c \<longleftrightarrow>
     is_ascii_alphabetic c \<or> is_ascii_digit c \<or> c \<in> set ''_@%+=:,./-''"

definition is_posix_shell_safe_unquoted :: "string \<Rightarrow> bool" where
  "is_posix_shell_safe_unquoted arg \<longleftrightarrow> arg \<noteq> [] \<and> list_all posix_safe_char arg"

definition append_posix_shell :: "string \<Rightarrow> string \<Rightarrow> string" where
  "append_posix_shell out arg =
     (if is_posix_shell_safe_unquoted arg then out @ arg
      else out @ [CHR 0x27] @
        concat (map (\<lambda>c. if c = CHR 0x27 then [CHR 0x27, CHR 0x5C, CHR 0x27, CHR 0x27] else [c]) arg) @ [CHR 0x27])"

fun append_arg :: "CommandLineContext \<Rightarrow> string \<Rightarrow> string \<Rightarrow> string" where
  "append_arg WindowsCreateProcess out arg = append_windows_create_process out arg"
| "append_arg WindowsCommandProcessor out arg = append_windows_cmd out arg"
| "append_arg PosixShell out arg = append_posix_shell out arg"

definition cmdline_from_argv_for_context :: "string list \<Rightarrow> CommandLineContext \<Rightarrow> CommandLineError + string" where
  "cmdline_from_argv_for_context argv ctx =
     and_then (validate_argv argv) (\<lambda>_.
       Ok (foldl (\<lambda>out (i, arg). append_arg ctx (if 0 < i then out @ '' '' else out) arg) [] (enumerate 0 argv)))"

lemma append_arg_out: "append_arg ctx out arg = out @ append_arg ctx [] arg"
  by (cases ctx)
    (simp_all add: append_windows_create_process_def append_windows_cmd_def append_windows_quoted_def
      append_quoted_windows_arg_def append_posix_shell_def)

text \<open>The line is the rendered arguments with one space between them.\<close>

lemma foldl_args:
  "0 < k \<Longrightarrow> foldl (\<lambda>out (i, arg). append_arg ctx (if 0 < i then out @ '' '' else out) arg) out (enumerate k argv) =
     out @ concat (map (\<lambda>arg. '' '' @ append_arg ctx [] arg) argv)"
proof (induction argv arbitrary: k out)
  case (Cons arg argv)
  show ?case using Cons.prems Cons.IH [of "Suc k"] append_arg_out [of ctx "out @ '' ''" arg] by simp
qed simp

lemma cmdline_Ok:
  "cmdline_from_argv_for_context argv ctx = Ok line \<longleftrightarrow>
     list_all (\<lambda>arg. CHR 0x00 \<notin> set arg) argv \<and>
     line = (case argv of [] \<Rightarrow> [] | arg # args \<Rightarrow> append_arg ctx [] arg @ concat (map (\<lambda>arg. '' '' @ append_arg ctx [] arg) args))"
  by (cases argv)
    (auto simp: cmdline_from_argv_for_context_def validate_argv_def foldl_args list_all_iff list_ex_iff split: if_splits)

section \<open>The Windows argument rules\<close>

text \<open>
  \<open>CommandLineToArgvW\<close> after the program name: a quote preceded by an even number of backslashes opens or
  closes a quoted part and halves them, an odd number stands for a literal quote, and backslashes before
  anything else are literal. Spaces and tabs outside quotes separate arguments.
\<close>

record argv_reader =
  ar_quoted :: bool
  ar_slashes :: nat
  ar_arg :: "string option"
  ar_args :: "string list"

definition arg_text :: "argv_reader \<Rightarrow> string" where
  "arg_text st = (case ar_arg st of None \<Rightarrow> [] | Some a \<Rightarrow> a)"

definition argv_char :: "argv_reader \<Rightarrow> char \<Rightarrow> argv_reader" where
  "argv_char st c =
     (if c = CHR 0x5C then st\<lparr>ar_slashes := Suc (ar_slashes st), ar_arg := Some (arg_text st)\<rparr>
      else if c = CHR 0x22 then
        (if even (ar_slashes st) then
           st\<lparr>ar_quoted := \<not> ar_quoted st, ar_slashes := 0,
              ar_arg := Some (arg_text st @ replicate (ar_slashes st div 2) (CHR 0x5C))\<rparr>
         else st\<lparr>ar_slashes := 0, ar_arg := Some (arg_text st @ replicate (ar_slashes st div 2) (CHR 0x5C) @ [CHR 0x22])\<rparr>)
      else if (c = CHR '' '' \<or> c = CHR 0x09) \<and> \<not> ar_quoted st then
        (case ar_arg st of
           None \<Rightarrow> st
         | Some a \<Rightarrow> st\<lparr>ar_slashes := 0, ar_arg := None, ar_args := ar_args st @ [a @ replicate (ar_slashes st) (CHR 0x5C)]\<rparr>)
      else st\<lparr>ar_slashes := 0, ar_arg := Some (arg_text st @ replicate (ar_slashes st) (CHR 0x5C) @ [c])\<rparr>)"

definition argv_start :: "string list \<Rightarrow> argv_reader" where
  "argv_start args = \<lparr>ar_quoted = False, ar_slashes = 0, ar_arg = None, ar_args = args\<rparr>"

definition argv_end :: "argv_reader \<Rightarrow> string list" where
  "argv_end st =
     ar_args st @ (case ar_arg st of None \<Rightarrow> [] | Some a \<Rightarrow> [a @ replicate (ar_slashes st) (CHR 0x5C)])"

definition read_args :: "string \<Rightarrow> string list" where
  "read_args s = argv_end (foldl argv_char (argv_start []) s)"

text \<open>The program name has rules of its own: up to the closing quote, or to the first space or tab.\<close>

fun read_program :: "string \<Rightarrow> string \<times> string" where
  "read_program [] = ([], [])"
| "read_program (c # s) =
     (if c = CHR 0x22 then (takeWhile (\<lambda>c. c \<noteq> CHR 0x22) s, drop 1 (dropWhile (\<lambda>c. c \<noteq> CHR 0x22) s))
      else (takeWhile (\<lambda>c. c \<noteq> CHR '' '' \<and> c \<noteq> CHR 0x09) (c # s), dropWhile (\<lambda>c. c \<noteq> CHR '' '' \<and> c \<noteq> CHR 0x09) (c # s)))"

definition command_line_to_argv :: "string \<Rightarrow> string list" where
  "command_line_to_argv line = (let (program, rest) = read_program line in program # read_args rest)"

definition pending :: "argv_reader \<Rightarrow> string" where
  "pending st = arg_text st @ replicate (ar_slashes st) (CHR 0x5C)"

lemma argv_slashes:
  "ar_arg st = Some a \<Longrightarrow>
   foldl argv_char st (replicate k (CHR 0x5C)) = st\<lparr>ar_slashes := ar_slashes st + k\<rparr>"
  by (induction k arbitrary: st) (simp_all add: argv_char_def arg_text_def)

lemma quoted_read:
  "ar_quoted st \<Longrightarrow> ar_slashes st = 0 \<Longrightarrow> ar_arg st = Some a \<Longrightarrow>
   foldl argv_char st (quoted_windows_rest n s) = st\<lparr>ar_quoted := False, ar_arg := Some (a @ replicate n (CHR 0x5C) @ s)\<rparr>"
proof (induction n s arbitrary: st a rule: quoted_windows_rest.induct)
  case (1 n)
  then show ?case by (simp add: argv_slashes) (simp add: argv_char_def arg_text_def)
next
  case (2 n c s)
  consider "c = CHR 0x5C" | "c = CHR 0x22" | "c \<noteq> CHR 0x5C" "c \<noteq> CHR 0x22" by blast
  then show ?case
  proof cases
    case 1
    then show ?thesis using "2.IH"(1) [of st a] "2.prems" by (simp add: replicate_append_same [symmetric])
  next
    case 2
    let ?st = "st\<lparr>ar_arg := Some (a @ replicate n (CHR 0x5C) @ [CHR 0x22])\<rparr>"
    have "argv_char (st\<lparr>ar_slashes := Suc (2 * n)\<rparr>) (CHR 0x22) = ?st"
      using "2.prems" by (simp add: argv_char_def arg_text_def)
    then have "foldl argv_char st (quoted_windows_rest n (c # s)) = foldl argv_char ?st (quoted_windows_rest 0 s)"
      using 2 argv_slashes [OF "2.prems"(3), of "n * 2 + 1"] "2.prems"(2)
      by (simp add: mult.commute del: replicate.simps)
    also have "\<dots> = ?st\<lparr>ar_quoted := False, ar_arg := Some ((a @ replicate n (CHR 0x5C) @ [CHR 0x22]) @ replicate 0 (CHR 0x5C) @ s)\<rparr>"
      by (rule "2.IH"(2)) (use 2 "2.prems" in simp_all)
    finally show ?thesis using 2 by simp
  next
    case 3
    let ?st = "st\<lparr>ar_arg := Some (a @ replicate n (CHR 0x5C) @ [c])\<rparr>"
    have "argv_char (st\<lparr>ar_slashes := n\<rparr>) c = ?st"
      using "2.prems" 3 by (simp add: argv_char_def arg_text_def)
    then have "foldl argv_char st (quoted_windows_rest n (c # s)) = foldl argv_char ?st (quoted_windows_rest 0 s)"
      using 3 argv_slashes [OF "2.prems"(3), of n] "2.prems"(2) by simp
    also have "\<dots> = ?st\<lparr>ar_quoted := False, ar_arg := Some ((a @ replicate n (CHR 0x5C) @ [c]) @ replicate 0 (CHR 0x5C) @ s)\<rparr>"
      by (rule "2.IH"(3)) (use 3 "2.prems" in simp_all)
    finally show ?thesis by simp
  qed
qed

lemma plain_read:
  assumes "list_all (\<lambda>c. c \<noteq> CHR '' '' \<and> c \<noteq> CHR 0x09 \<and> c \<noteq> CHR 0x22) s" and "\<not> ar_quoted st" and "ar_arg st \<noteq> None \<or> s \<noteq> []"
    and "ar_arg st = None \<Longrightarrow> ar_slashes st = 0"
  shows "let st' = foldl argv_char st s in \<not> ar_quoted st' \<and> ar_arg st' \<noteq> None \<and> pending st' = pending st @ s \<and> ar_args st' = ar_args st"
  using assms
proof (induction s arbitrary: st)
  case (Cons c s)
  have step: "\<not> ar_quoted (argv_char st c)" "ar_arg (argv_char st c) \<noteq> None" "pending (argv_char st c) = pending st @ [c]"
      "ar_args (argv_char st c) = ar_args st"
    using Cons.prems by (auto simp: argv_char_def pending_def arg_text_def replicate_append_same)
  show ?case using Cons.IH [of "argv_char st c"] Cons.prems(1) step by (simp add: Let_def)
qed (simp add: Let_def)

text \<open>The state after one rendered argument.\<close>

definition read_one :: "argv_reader \<Rightarrow> string list \<Rightarrow> string \<Rightarrow> bool" where
  "read_one st args arg \<longleftrightarrow> \<not> ar_quoted st \<and> ar_arg st \<noteq> None \<and> pending st = arg \<and> ar_args st = args"

lemma windows_arg_read:
  assumes "ctx = WindowsCreateProcess \<or> ctx = WindowsCommandProcessor"
  shows "read_one (foldl argv_char (argv_start args) (append_arg ctx [] arg)) args arg"
proof -
  define needs where "needs = (if ctx = WindowsCreateProcess then needs_windows_create_process_quotes arg else needs_windows_cmd_quotes arg)"
  have rendered: "append_arg ctx [] arg = (if needs then [CHR 0x22] @ quoted_windows_rest 0 arg else arg)"
    using assms by (auto simp: needs_def append_windows_create_process_def append_windows_cmd_def append_windows_quoted_def
        append_quoted_windows_arg_def)
  show ?thesis
  proof (cases needs)
    case True
    have "argv_char (argv_start args) (CHR 0x22) = (argv_start args)\<lparr>ar_quoted := True, ar_arg := Some []\<rparr>"
      by (simp add: argv_char_def argv_start_def arg_text_def)
    then show ?thesis using True rendered quoted_read [of "(argv_start args)\<lparr>ar_quoted := True, ar_arg := Some []\<rparr>" "[]" 0 arg]
      by (simp add: read_one_def pending_def arg_text_def argv_start_def)
  next
    case False
    then have "list_all (\<lambda>c. c \<noteq> CHR '' '' \<and> c \<noteq> CHR 0x09 \<and> c \<noteq> CHR 0x22) arg" "arg \<noteq> []"
      using assms by (auto simp: needs_def needs_windows_cmd_quotes_def needs_windows_create_process_quotes_def list_all_iff list_ex_iff
          split: if_splits)
    then show ?thesis using False rendered plain_read [of arg "argv_start args"]
      by (simp add: read_one_def Let_def pending_def arg_text_def argv_start_def)
  qed
qed

lemma read_one_space: "read_one st args arg \<Longrightarrow> argv_char st (CHR '' '') = argv_start (args @ [arg])"
  by (auto simp: read_one_def argv_char_def argv_start_def pending_def arg_text_def intro!: argv_reader.equality)

lemma read_one_end: "read_one st args arg \<Longrightarrow> argv_end st = args @ [arg]"
  by (auto simp: read_one_def argv_end_def pending_def arg_text_def)

lemma windows_args_read:
  assumes "ctx = WindowsCreateProcess \<or> ctx = WindowsCommandProcessor" and "read_one st pre a"
  shows "argv_end (foldl argv_char st (concat (map (\<lambda>arg. '' '' @ append_arg ctx [] arg) args))) = pre @ a # args"
  using assms(2)
proof (induction args arbitrary: st pre a)
  case (Cons arg args)
  from Cons.IH [OF windows_arg_read [OF assms(1), of "pre @ [a]" arg]] show ?case
    by (simp add: read_one_space [OF Cons.prems])
qed (simp add: read_one_end)

lemma windows_tail_read:
  assumes "ctx = WindowsCreateProcess \<or> ctx = WindowsCommandProcessor"
  shows "read_args (concat (map (\<lambda>arg. '' '' @ append_arg ctx [] arg) args)) = args"
proof (cases args)
  case (Cons arg rest)
  have "argv_char (argv_start []) (CHR '' '') = argv_start []" by (simp add: argv_char_def argv_start_def)
  with windows_args_read [OF assms windows_arg_read [OF assms, of "[]" arg], of rest] Cons show ?thesis
    by (simp add: read_args_def)
qed (simp add: read_args_def argv_end_def argv_start_def)

text \<open>What the program-name rules read back: no quote, and no backslash before the closing quote.\<close>

definition program_name :: "string \<Rightarrow> bool" where
  "program_name p \<longleftrightarrow> CHR 0x22 \<notin> set p \<and> (p = [] \<or> last p \<noteq> CHR 0x5C)"

lemma quoted_plain:
  "CHR 0x22 \<notin> set s \<Longrightarrow> s = [] \<and> n = 0 \<or> s \<noteq> [] \<and> last s \<noteq> CHR 0x5C \<Longrightarrow>
   quoted_windows_rest n s = replicate n (CHR 0x5C) @ s @ [CHR 0x22]"
proof (induction n s rule: quoted_windows_rest.induct)
  case (2 n c s)
  show ?case
  proof (cases "c = CHR 0x5C")
    case True
    then have "s \<noteq> []" using "2.prems"(2) by auto
    then show ?thesis using True "2.IH"(1) "2.prems" by (simp add: replicate_append_same [symmetric])
  next
    case False
    then show ?thesis using "2.IH"(3) "2.prems" by (cases "s = []") auto
  qed
qed simp

lemma takeWhile_tail: "list_all P xs \<Longrightarrow> ys = [] \<or> \<not> P (hd ys) \<Longrightarrow> takeWhile P (xs @ ys) = xs \<and> dropWhile P (xs @ ys) = ys"
  by (cases ys) (auto simp: list_all_iff takeWhile_append2 dropWhile_append2)

lemma windows_program_read:
  assumes "ctx = WindowsCreateProcess \<or> ctx = WindowsCommandProcessor" and "program_name p" and "rest = [] \<or> hd rest = CHR '' ''"
  shows "read_program (append_arg ctx [] p @ rest) = (p, rest)"
proof -
  define needs where "needs = (if ctx = WindowsCreateProcess then needs_windows_create_process_quotes p else needs_windows_cmd_quotes p)"
  have rendered: "append_arg ctx [] p = (if needs then [CHR 0x22] @ quoted_windows_rest 0 p else p)"
    using assms by (auto simp: needs_def append_windows_create_process_def append_windows_cmd_def append_windows_quoted_def
        append_quoted_windows_arg_def)
  have quoted: "quoted_windows_rest 0 p = p @ [CHR 0x22]"
    using quoted_plain [of p 0] assms(2) by (auto simp: program_name_def)
  have "list_all (\<lambda>c. c \<noteq> CHR 0x22) p" using assms(2) by (auto simp: program_name_def list_all_iff)
  note q = takeWhile_tail [OF this, of "CHR 0x22 # rest"]
  show ?thesis
  proof (cases needs)
    case True
    then show ?thesis using rendered quoted q by simp
  next
    case False
    then have plain: "list_all (\<lambda>c. c \<noteq> CHR '' '' \<and> c \<noteq> CHR 0x09) p" "p \<noteq> []" "hd p \<noteq> CHR 0x22"
      using assms by (auto simp: needs_def needs_windows_cmd_quotes_def needs_windows_create_process_quotes_def list_all_iff list_ex_iff
          split: if_splits)
    then obtain c s where p: "p = c # s" by (cases p) auto
    have "rest = [] \<or> \<not> (hd rest \<noteq> CHR '' '' \<and> hd rest \<noteq> CHR 0x09)" using assms(3) by auto
    from takeWhile_tail [OF plain(1) this] plain(3) p rendered False show ?thesis by simp
  qed
qed

section \<open>The POSIX shell's words\<close>

text \<open>
  Token recognition of the shell for text without expansions: an unquoted character with a meaning of
  its own is refused, a backslash quotes the next character, and single quotes quote everything up to the
  next one. Each word records whether all of it was unquoted.
\<close>

datatype sh_state = ShBlank | ShWord string bool | ShQuoted string | ShEscaped string

definition sh_special :: "char \<Rightarrow> bool" where
  "sh_special c \<longleftrightarrow> c \<in> set ''|&;<>()$`*?[#~!{}'' \<or> c = CHR 0x0A \<or> c = CHR 0x22 \<or> c = CHR 0x00"

fun sh_char :: "(sh_state \<times> (string \<times> bool) list) option \<Rightarrow> char \<Rightarrow> (sh_state \<times> (string \<times> bool) list) option" where
  "sh_char None c = None"
| "sh_char (Some (ShQuoted w, ws)) c = Some (if c = CHR 0x27 then ShWord w False else ShQuoted (w @ [c]), ws)"
| "sh_char (Some (ShEscaped w, ws)) c = (if c = CHR 0x0A then None else Some (ShWord (w @ [c]) False, ws))"
| "sh_char (Some (ShBlank, ws)) c =
     (if c = CHR '' '' \<or> c = CHR 0x09 then Some (ShBlank, ws)
      else if c = CHR 0x27 then Some (ShQuoted [], ws)
      else if c = CHR 0x5C then Some (ShEscaped [], ws)
      else if sh_special c then None
      else Some (ShWord [c] True, ws))"
| "sh_char (Some (ShWord w literal, ws)) c =
     (if c = CHR '' '' \<or> c = CHR 0x09 then Some (ShBlank, ws @ [(w, literal)])
      else if c = CHR 0x27 then Some (ShQuoted w, ws)
      else if c = CHR 0x5C then Some (ShEscaped w, ws)
      else if sh_special c then None
      else Some (ShWord (w @ [c]) literal, ws))"

definition sh_words :: "string \<Rightarrow> (string \<times> bool) list option" where
  "sh_words line =
     (case foldl sh_char (Some (ShBlank, [])) line of
        Some (ShBlank, ws) \<Rightarrow> Some ws
      | Some (ShWord w literal, ws) \<Rightarrow> Some (ws @ [(w, literal)])
      | _ \<Rightarrow> None)"

definition is_assignment :: "string \<Rightarrow> bool" where
  "is_assignment w \<longleftrightarrow>
     (case split_once (CHR ''='') w of
        Some (name, _) \<Rightarrow>
          name \<noteq> [] \<and> \<not> is_ascii_digit (hd name) \<and> list_all (\<lambda>c. is_ascii_alphanumeric c \<or> c = CHR ''_'') name
      | None \<Rightarrow> False)"

definition sh_reserved :: "string list" where
  "sh_reserved =
     [''case'', ''do'', ''done'', ''elif'', ''else'', ''esac'', ''fi'', ''for'', ''if'', ''in'', ''then'', ''until'', ''while'']"

text \<open>
  A simple command: the assignments before it, then its words. An unquoted reserved word in the place of
  the command name begins a compound command instead.
\<close>

definition sh_simple_command :: "(string \<times> bool) list \<Rightarrow> (string list \<times> string list) option" where
  "sh_simple_command ws =
     (let assigns = takeWhile (\<lambda>(w, literal). literal \<and> is_assignment w) ws; command = drop (length assigns) ws
      in if assigns = [] \<and> command \<noteq> [] \<and> snd (hd command) \<and> fst (hd command) \<in> set sh_reserved then None
         else Some (map fst assigns, map fst command))"

lemma safe_not_special: "posix_safe_char c \<Longrightarrow> \<not> sh_special c \<and> c \<noteq> CHR '' '' \<and> c \<noteq> CHR 0x09 \<and> c \<noteq> CHR 0x27 \<and> c \<noteq> CHR 0x5C"
  by (auto simp: posix_safe_char_def sh_special_def is_ascii_alphabetic_def is_ascii_digit_def)

lemma sh_safe_read:
  "list_all posix_safe_char s \<Longrightarrow> foldl sh_char (Some (ShWord w literal, ws)) s = Some (ShWord (w @ s) literal, ws)"
  by (induction s arbitrary: w) (simp_all add: safe_not_special)

lemma sh_quoted_read:
  "foldl sh_char (Some (ShQuoted w, ws))
     (concat (map (\<lambda>c. if c = CHR 0x27 then [CHR 0x27, CHR 0x5C, CHR 0x27, CHR 0x27] else [c]) s)) =
   Some (ShQuoted (w @ s), ws)"
  by (induction s arbitrary: w) simp_all

lemma sh_arg_read:
  "foldl sh_char (Some (ShBlank, ws)) (append_arg PosixShell [] arg) = Some (ShWord arg (is_posix_shell_safe_unquoted arg), ws)"
proof (cases "is_posix_shell_safe_unquoted arg")
  case True
  then obtain c s where "arg = c # s" by (cases arg) (auto simp: is_posix_shell_safe_unquoted_def)
  then show ?thesis using True sh_safe_read [of s "[c]" True ws]
    by (simp add: append_posix_shell_def is_posix_shell_safe_unquoted_def safe_not_special)
next
  case False
  then show ?thesis by (simp add: append_posix_shell_def sh_quoted_read)
qed

lemma sh_args_read:
  "foldl sh_char (Some (ShWord w literal, ws)) (concat (map (\<lambda>arg. '' '' @ append_arg PosixShell [] arg) args)) =
     Some (case rev args of
         [] \<Rightarrow> (ShWord w literal, ws)
       | a # rest \<Rightarrow> (ShWord a (is_posix_shell_safe_unquoted a),
           ws @ [(w, literal)] @ map (\<lambda>b. (b, is_posix_shell_safe_unquoted b)) (rev rest)))"
proof (induction args arbitrary: w literal ws)
  case (Cons arg args)
  then show ?case
    by (simp add: sh_arg_read del: append_arg.simps) (simp split: list.split)
qed simp

lemma sh_line_read:
  "cmdline_from_argv_for_context argv PosixShell = Ok line \<Longrightarrow>
   sh_words line = Some (map (\<lambda>arg. (arg, is_posix_shell_safe_unquoted arg)) argv)"
proof (cases argv)
  case Nil
  assume "cmdline_from_argv_for_context argv PosixShell = Ok line"
  then show ?thesis using Nil by (simp add: cmdline_Ok sh_words_def)
next
  case (Cons arg args)
  assume "cmdline_from_argv_for_context argv PosixShell = Ok line"
  then have line: "line = append_arg PosixShell [] arg @ concat (map (\<lambda>arg. '' '' @ append_arg PosixShell [] arg) args)"
    using Cons by (simp add: cmdline_Ok del: append_arg.simps)
  show ?thesis
    unfolding line sh_words_def foldl_append sh_arg_read sh_args_read using Cons
    by (cases args rule: rev_cases) simp_all
qed

section \<open>The Windows command processor\<close>









section \<open>Properties\<close>

text \<open>
  C17: Windows argument vectors survive. The line rendered for the process API or for \<open>cmd.exe\<close> is read by
  the documented argument rules as the same vector, whatever quotes, backslashes and blanks the arguments
  hold; the program name, which those rules read without escapes, must have no quote and no final
  backslash. Rendering fails exactly when an argument has a null byte.
\<close>

theorem windows_argv_survives:
  assumes "ctx = WindowsCreateProcess \<or> ctx = WindowsCommandProcessor" and "program_name p"
  shows "if list_ex (\<lambda>arg. CHR 0x00 \<in> set arg) (p # args)
    then \<exists>e. cmdline_from_argv_for_context (p # args) ctx = Err e
    else \<exists>line. cmdline_from_argv_for_context (p # args) ctx = Ok line \<and> command_line_to_argv line = p # args"
proof (cases "list_ex (\<lambda>arg. CHR 0x00 \<in> set arg) (p # args)")
  case True
  then show ?thesis by (auto simp: cmdline_from_argv_for_context_def validate_argv_def)
next
  case False
  let ?rest = "concat (map (\<lambda>arg. '' '' @ append_arg ctx [] arg) args)"
  have ok: "cmdline_from_argv_for_context (p # args) ctx = Ok (append_arg ctx [] p @ ?rest)"
    using False by (auto simp: cmdline_Ok list_ex_iff list_all_iff)
  have "?rest = [] \<or> hd ?rest = CHR '' ''" by (cases args) simp_all
  from windows_program_read [OF assms this] windows_tail_read [OF assms(1), of args]
  have "command_line_to_argv (append_arg ctx [] p @ ?rest) = p # args" by (simp add: command_line_to_argv_def)
  then show ?thesis using ok False by auto
qed

theorem windows_argv_survives_witness:
  "\<exists>line. cmdline_from_argv_for_context [''py'', ''-c'', ''print('' @ [CHR 0x22] @ ''a b'' @ [CHR 0x5C, CHR 0x22] @ '')'', []] WindowsCreateProcess = Ok line \<and>
     command_line_to_argv line = [''py'', ''-c'', ''print('' @ [CHR 0x22] @ ''a b'' @ [CHR 0x5C, CHR 0x22] @ '')'', []]"
proof -
  have "program_name ''py''" by (simp add: program_name_def)
  from windows_argv_survives [OF disjI1 [OF refl] this, of "[''-c'', ''print('' @ [CHR 0x22] @ ''a b'' @ [CHR 0x5C, CHR 0x22] @ '')'', []]"]
  show ?thesis by simp
qed

text \<open>
  C18: A POSIX shell reads the rendered line as exactly the argument vector: no argument is split, joined or
  expanded, and none of its characters is special. The first argument is the command that runs unless it
  is an unquoted assignment or reserved word.
\<close>

theorem posix_argv_survives:
  assumes "cmdline_from_argv_for_context argv PosixShell = Ok line"
  shows "\<exists>ws. sh_words line = Some ws \<and> map fst ws = argv \<and>
    (argv \<noteq> [] \<and> \<not> is_assignment (hd argv) \<and> hd argv \<notin> set sh_reserved \<longrightarrow> sh_simple_command ws = Some ([], argv))"
proof -
  let ?ws = "map (\<lambda>arg. (arg, is_posix_shell_safe_unquoted arg)) argv"
  have "map fst ?ws = argv" by (simp add: comp_def)
  moreover have "sh_simple_command ?ws = Some ([], argv)"
    if "argv \<noteq> [] \<and> \<not> is_assignment (hd argv) \<and> hd argv \<notin> set sh_reserved"
    using that by (cases argv) (simp_all add: sh_simple_command_def comp_def)
  ultimately show ?thesis using sh_line_read [OF assms] by blast
qed

text \<open>An assignment in the first place is read as one, so the command is the second argument.\<close>

theorem posix_argv_survives_witness:
  "\<exists>line ws. cmdline_from_argv_for_context [''echo'', ''it'' @ [CHR 0x27] @ ''s; rm *''] PosixShell = Ok line \<and> sh_words line = Some ws \<and>
     sh_simple_command ws = Some ([], [''echo'', ''it'' @ [CHR 0x27] @ ''s; rm *'']) \<and>
     cmdline_from_argv_for_context [''PATH=/x'', ''ls''] PosixShell = Ok ''PATH=/x ls'' \<and>
     sh_simple_command (the (sh_words ''PATH=/x ls'')) = Some ([''PATH=/x''], [''ls''])"
proof -
  let ?argv = "[''echo'', ''it'' @ [CHR 0x27] @ ''s; rm *'']"
  obtain line where line: "cmdline_from_argv_for_context ?argv PosixShell = Ok line"
    by (simp add: cmdline_from_argv_for_context_def validate_argv_def)
  have "\<not> is_assignment ''echo''" by code_simp
  moreover have "''echo'' \<notin> set sh_reserved" by code_simp
  moreover have "cmdline_from_argv_for_context [''PATH=/x'', ''ls''] PosixShell = Ok ''PATH=/x ls''" by code_simp
  moreover have "sh_simple_command (the (sh_words ''PATH=/x ls'')) = Some ([''PATH=/x''], [''ls''])" by code_simp
  ultimately show ?thesis using posix_argv_survives [OF line] line by auto
qed



end
