(* ===== verification/Validator.thy ===== *)
theory Validator
  imports Net_Policy
begin

text \<open>
  \<open>validator.rs\<close>: which network features of a request a back end must support, and the checks every back
  end shares. A set of features is a byte, one bit for each.
\<close>

unbundle bit_operations_syntax

type_synonym NetworkPolicySupport = u8

definition EGRESS_DEFAULT :: NetworkPolicySupport where "EGRESS_DEFAULT = push_bit 4 1"

definition EGRESS_RULES :: NetworkPolicySupport where "EGRESS_RULES = push_bit 0 1"

definition INGRESS_DEFAULT :: NetworkPolicySupport where "INGRESS_DEFAULT = push_bit 1 1"

definition HOST_LOOPBACK :: NetworkPolicySupport where "HOST_LOOPBACK = push_bit 2 1"

definition RUNTIME_PROXY :: NetworkPolicySupport where "RUNTIME_PROXY = push_bit 3 1"

definition PROXY_PEER_IDENTITY :: NetworkPolicySupport where "PROXY_PEER_IDENTITY = push_bit 5 1"

definition ALL_SUPPORT :: NetworkPolicySupport where
  "ALL_SUPPORT = EGRESS_DEFAULT OR EGRESS_RULES OR INGRESS_DEFAULT OR HOST_LOOPBACK OR RUNTIME_PROXY OR PROXY_PEER_IDENTITY"

definition support_contains :: "NetworkPolicySupport \<Rightarrow> NetworkPolicySupport \<Rightarrow> bool" where
  "support_contains self required \<longleftrightarrow> self AND required = required"

definition validate_network_policy_support :: "ExecutionRequest \<Rightarrow> NetworkPolicySupport \<Rightarrow> ScriptResponse + unit" where
  "validate_network_policy_support request support =
     (let policy = req_policy request;
          supplied = network_mode_specified policy \<or> network_egress policy \<noteq> None \<and> proxy_is_enabled (network_proxy policy)
      in
      if \<not> support_contains support EGRESS_DEFAULT \<and>
         (case network_egress policy of Some egress \<Rightarrow> supplied \<or> eg_default egress = Allow | None \<Rightarrow> False) then
        Err (ScriptResponse_rejected ''network.egress.default is not supported by the selected backend'')
      else if \<not> support_contains support EGRESS_RULES \<and>
         (case network_egress policy of Some egress \<Rightarrow> eg_allow egress \<noteq> [] \<or> eg_deny egress \<noteq> [] | None \<Rightarrow> False) then
        Err (ScriptResponse_rejected ''network.egress allow/deny rules are not supported by the selected backend'')
      else if \<not> support_contains support INGRESS_DEFAULT \<and>
         (case network_ingress policy of Some ingress \<Rightarrow> supplied \<or> in_default ingress = Allow | None \<Rightarrow> False) then
        Err (ScriptResponse_rejected ''network.ingress.default is not supported by the selected backend'')
      else if \<not> support_contains support HOST_LOOPBACK \<and>
         (case network_ingress policy of Some ingress \<Rightarrow> supplied \<or> in_host_loopback ingress = Allow | None \<Rightarrow> False) then
        Err (ScriptResponse_rejected ''network.ingress.hostLoopback is not supported by the selected backend'')
      else if \<not> support_contains support PROXY_PEER_IDENTITY \<and> allowed_proxy_peer policy \<noteq> None then
        Err (ScriptResponse_rejected ''processContainer.network.allowedProxyPeer is not supported by the selected backend'')
      else if \<not> support_contains support RUNTIME_PROXY \<and> runtime_network_proxy_specified policy then
        Err (ScriptResponse_rejected ''runtimeConfig.networkProxy is not supported by the selected backend'')
      else Ok ())"

definition validate_state_aware_network_policy_support ::
    "ExecutionRequest \<Rightarrow> NetworkPolicySupport \<Rightarrow> MxcError + unit" where
  "validate_state_aware_network_policy_support request support =
     (case validate_network_policy_support request support of
        Inl response \<Rightarrow> Err (policy_validation (sr_error_message response))
      | Inr _ \<Rightarrow> Ok ())"

definition validate_common :: "ExecutionRequest \<Rightarrow> ScriptResponse + unit" where
  "validate_common request =
     (if script_code request = [] then Err (ScriptResponse_error ''Script content must not be empty.'')
      else if enumerate_paths (req_policy request) \<noteq> [] \<and> containment request \<noteq> ProcessContainer then
        Err (ScriptResponse_error (''processContainer.filesystem.enumeratePaths is supported only by the Windows '' @
          ''ProcessContainer backend''))
      else Ok ())"

definition validate_exec_common :: "ExecutionRequest \<Rightarrow> MxcError + unit" where
  "validate_exec_common request =
     (if script_code request = [] then Err (malformed_request ''exec phase requires a non-empty process.commandLine'')
      else Ok ())"

text \<open>The two loops of \<open>validate_port_mappings\<close>; \<open>seen\<close> is the set of the second one.\<close>

definition check_mapping :: "string \<Rightarrow> nat \<Rightarrow> PortMapping \<Rightarrow> WxcError + unit" where
  "check_mapping field_path index mapping =
     and_then (try_fold (\<lambda>_ (name, port).
         if port = 0 then
           Err (ConfigParse (field_path @ ''['' @ show_nat index @ '']: '' @ quoted name @ '' must be > 0''))
         else Ok ()) () [(''windowsPort'', pm_windows_port mapping), (''containerPort'', pm_container_port mapping)])
       (\<lambda>_. if pm_protocol mapping \<noteq> ''tcp'' then
         Err (ConfigParse (field_path @ ''['' @ show_nat index @ '']: 'protocol' must be 'tcp', got '' @ quoted (pm_protocol mapping)))
       else Ok ())"

definition insert_mapping :: "string \<Rightarrow> (u16 \<times> string) set \<Rightarrow> PortMapping \<Rightarrow> WxcError + (u16 \<times> string) set" where
  "insert_mapping field_path seen mapping =
     (if (pm_windows_port mapping, pm_protocol mapping) \<in> seen then
        Err (ConfigParse (field_path @ '': duplicate windowsPort '' @ show_nat (unat (pm_windows_port mapping)) @
          '' for protocol '' @ quoted (pm_protocol mapping)))
      else Ok (insert (pm_windows_port mapping, pm_protocol mapping) seen))"

definition validate_port_mappings :: "string \<Rightarrow> PortMapping list \<Rightarrow> WxcError + unit" where
  "validate_port_mappings field_path mappings =
     and_then (try_fold (\<lambda>_ (index, mapping). check_mapping field_path index mapping) () (enumerate 0 mappings)) (\<lambda>_.
       and_then (try_fold (insert_mapping field_path) {} mappings) (\<lambda>_. Ok ()))"

section \<open>What validation establishes\<close>

lemma all_supported:
  "support_contains ALL_SUPPORT EGRESS_DEFAULT \<and> support_contains ALL_SUPPORT EGRESS_RULES \<and>
   support_contains ALL_SUPPORT INGRESS_DEFAULT \<and> support_contains ALL_SUPPORT HOST_LOOPBACK \<and>
   support_contains ALL_SUPPORT RUNTIME_PROXY \<and> support_contains ALL_SUPPORT PROXY_PEER_IDENTITY"
  unfolding support_contains_def ALL_SUPPORT_def EGRESS_DEFAULT_def EGRESS_RULES_def INGRESS_DEFAULT_def HOST_LOOPBACK_def
    RUNTIME_PROXY_def PROXY_PEER_IDENTITY_def by simp

text \<open>A back end without support for rules or an allow default only ever sees a request that admits no flow.\<close>

lemma unsupported_egress_denies:
  assumes "validate_network_policy_support request support = Ok ()"
    and "\<not> support_contains support EGRESS_DEFAULT" and "\<not> support_contains support EGRESS_RULES"
    and "network_egress (req_policy request) = Some egress"
  shows "\<not> policy_admits egress k"
proof -
  have "eg_default egress \<noteq> Allow"
  proof
    assume "eg_default egress = Allow"
    then show False using assms(1,2,4) by (simp add: validate_network_policy_support_def Let_def)
  qed
  moreover have "eg_allow egress = []"
  proof (rule ccontr)
    assume "eg_allow egress \<noteq> []"
    then show False using assms(1,3,4) by (simp add: validate_network_policy_support_def Let_def split: if_split_asm)
  qed
  ultimately show ?thesis by (simp add: policy_admits_def)
qed

lemma insert_mappings_distinct:
  "try_fold (insert_mapping field_path) seen mappings = Ok seen' \<Longrightarrow>
   distinct (map (\<lambda>m. (pm_windows_port m, pm_protocol m)) mappings) \<and>
   (\<forall>m \<in> set mappings. (pm_windows_port m, pm_protocol m) \<notin> seen)"
proof (induction mappings arbitrary: seen)
  case (Cons m mappings)
  from Cons.prems have new: "(pm_windows_port m, pm_protocol m) \<notin> seen"
    "try_fold (insert_mapping field_path) (insert (pm_windows_port m, pm_protocol m) seen) mappings = Ok seen'"
    by (auto simp: insert_mapping_def [of field_path seen m] split: if_splits)
  from Cons.IH [OF new(2)] new(1) show ?case by auto
qed simp

lemma port_mappings_valid:
  assumes "validate_port_mappings field_path mappings = Ok ()"
  shows "distinct (map pm_windows_port mappings) \<and>
    (\<forall>m \<in> set mappings. pm_windows_port m \<noteq> 0 \<and> pm_container_port m \<noteq> 0 \<and> pm_protocol m = ''tcp'')"
proof -
  have checks: "\<forall>m \<in> set ms. pm_windows_port m \<noteq> 0 \<and> pm_container_port m \<noteq> 0 \<and> pm_protocol m = ''tcp''"
    if "try_fold (\<lambda>_ (index, mapping). check_mapping field_path index mapping) () (enumerate i ms) = Ok ()" for i ms
    using that
  proof (induction ms arbitrary: i)
    case (Cons m ms)
    then have "check_mapping field_path i m = Ok ()" by (auto simp: result_simps)
    then have "pm_windows_port m \<noteq> 0 \<and> pm_container_port m \<noteq> 0 \<and> pm_protocol m = ''tcp''"
      by (simp add: check_mapping_def split: if_split_asm)
    with Cons show ?case by (auto simp: result_simps)
  qed simp
  from assms obtain seen where "try_fold (insert_mapping field_path) {} mappings = Ok seen"
    and first: "\<forall>m \<in> set mappings. pm_windows_port m \<noteq> 0 \<and> pm_container_port m \<noteq> 0 \<and> pm_protocol m = ''tcp''"
    using checks [of 0 mappings] by (auto simp: validate_port_mappings_def result_simps)
  with insert_mappings_distinct have "distinct (map (\<lambda>m. (pm_windows_port m, pm_protocol m)) mappings)" by blast
  then have "distinct (map pm_windows_port mappings)"
    using first by (auto simp: distinct_map inj_on_def)
  with first show ?thesis by simp
qed

end
