(* ===== verification/Wslc_Policy.thy ===== *)
theory Wslc_Policy
  imports Validator Fs_Object Rust_Text Proxy_Env "HOL-Library.Sublist"
begin

text \<open>
  The WSL container back end's policy: \<open>policy_mapping.rs\<close> (volume mounts, the provision gate and the
  networking mode), \<open>policy.rs\<close> (the checks of each phase), \<open>process_env.rs\<close>, and \<open>filesystem_access.rs\<close>
  (delegation) with the result type of \<open>filesystem_canonical.rs\<close>. Full Unicode lower-casing is the
  parameter \<open>lower\<close>; probing access and canonicalising a path are oracles of the call number and the path.
\<close>

section \<open>Volume mounts\<close>

record VolumeMount =
  vm_windows_path :: string
  vm_container_path :: string
  vm_read_only :: bool

definition forward_slashes :: "string \<Rightarrow> string" where
  "forward_slashes s = map (\<lambda>c. if c = CHR 0x5C then CHR ''/'' else c) s"

definition windows_path_to_container_path :: "string \<Rightarrow> string option" where
  "windows_path_to_container_path windows_path =
     (let path = str_trim windows_path in
      case path of
        drive # separator # rest \<Rightarrow>
          if \<not> is_ascii_alphabetic drive \<or> separator \<noteq> CHR '':'' then None
          else if rest \<noteq> [] \<and> hd rest \<noteq> CHR 0x5C \<and> hd rest \<noteq> CHR ''/'' then None
          else Some (''/mnt/'' @ [to_ascii_lower drive] @ forward_slashes rest)
      | _ \<Rightarrow> None)"

definition container_working_directory :: "string \<Rightarrow> string + string option" where
  "container_working_directory cwd =
     (if trim_is_empty cwd then Ok None
      else if CHR 0x00 \<in> set cwd then
        Err (''WSLC: process.cwd '' @ debug_str cwd @ '' contains an interior NUL byte, which is not a '' @
          ''valid C string'')
      else (case windows_path_to_container_path cwd of
         Some path \<Rightarrow> Ok (Some path)
       | None \<Rightarrow>
           Err (''WSLC: process.cwd '' @ debug_str cwd @ '' is not a local Windows drive path. The one-shot '' @
             ''WSLc surface maps process.cwd from a host path under /mnt/<drive> '' @
             ''(e.g. C:'' @ [CHR 0x5C] @ ''work -> /mnt/c/work); relative, drive-relative, UNC, and '' @
             ''in-container paths are not supported. To start in an absolute '' @
             ''in-container path such as /work, use the state-aware lifecycle.'')))"

definition volume_mount_error :: "string \<Rightarrow> string \<Rightarrow> string" where
  "volume_mount_error list path =
     ''WSLC: '' @ list @ '' entry '' @ quoted path @ '' is not a valid local drive path. '' @
     ''Only paths starting with a drive letter (e.g. C:'' @ [CHR 0x5C] @ ''...) are supported; '' @
     ''UNC paths ('' @ [CHR 0x5C, CHR 0x5C] @ ''server'' @ [CHR 0x5C] @ ''share) cannot be mapped into a WSL container.''"

definition volume_mount :: "string \<Rightarrow> bool \<Rightarrow> nat \<Rightarrow> string \<Rightarrow> string + VolumeMount" where
  "volume_mount list read_only i path =
     (case windows_path_to_container_path path of
        None \<Rightarrow> Err (volume_mount_error list path)
      | Some container_path \<Rightarrow>
          Ok \<lparr>vm_windows_path = path, vm_container_path = container_path, vm_read_only = read_only\<rparr>)"

definition build_volume_mounts :: "string list \<Rightarrow> string list \<Rightarrow> string + VolumeMount list" where
  "build_volume_mounts rw ro =
     and_then (try_mapi (volume_mount ''readwritePaths'' False) rw) (\<lambda>rw_mounts.
       and_then (try_mapi (volume_mount ''readonlyPaths'' True) ro) (\<lambda>ro_mounts. Ok (rw_mounts @ ro_mounts)))"

section \<open>Overlap of denied and mounted paths\<close>

record NormalizedPath =
  np_drive :: "string option"
  np_rooted :: bool
  np_components :: "string list"

fun fold_segment :: "bool \<Rightarrow> string list \<Rightarrow> string \<Rightarrow> string list" where
  "fold_segment rooted components segment =
     (if segment = ''.'' then components
      else if segment = ''..'' then
        (if components \<noteq> [] \<and> last components \<noteq> ''..'' then butlast components
         else if \<not> rooted then components @ [''..'']
         else components)
      else components @ [segment])"

definition NormalizedPath_parse :: "(string \<Rightarrow> string) \<Rightarrow> string \<Rightarrow> NormalizedPath" where
  "NormalizedPath_parse lower path =
     (let lowered = lower (str_trim path);
          has_drive = (2 \<le> length lowered \<and> is_ascii_alphabetic (lowered ! 0) \<and> lowered ! 1 = CHR '':'');
          drive = (if has_drive then Some (take 2 lowered) else None);
          rest = (if has_drive then drop 2 lowered else lowered);
          rooted = (rest \<noteq> [] \<and> (hd rest = CHR ''/'' \<or> hd rest = CHR 0x5C));
          segments = filter (\<lambda>s. s \<noteq> []) (split_any {CHR ''/'', CHR 0x5C} rest)
      in \<lparr>np_drive = drive, np_rooted = rooted, np_components = foldl (fold_segment rooted) [] segments\<rparr>)"

definition contains_strictly :: "NormalizedPath \<Rightarrow> NormalizedPath \<Rightarrow> bool" where
  "contains_strictly self child \<longleftrightarrow>
     (if np_rooted self \<and> np_components self = [] then
        np_drive self = np_drive child \<and> \<not> (np_rooted child \<and> np_components child = [])
      else
        np_drive self = np_drive child \<and> np_rooted self = np_rooted child \<and>
        length (np_components self) < length (np_components child) \<and>
        list_all (\<lambda>(ancestor, descendant). ancestor = descendant) (zip (np_components self) (np_components child)))"

datatype PathCanonical = Canonical string | CanonicalAbsent | CanonicalUnknown

definition overlap_error :: "string \<Rightarrow> string \<Rightarrow> string \<Rightarrow> bool \<Rightarrow> string" where
  "overlap_error denied mounted list via_alias =
     (if via_alias then
        ''WSLC: deniedPaths entry '' @ quoted denied @ '' resolves (via a symlink, junction, or short '' @
        ''name) inside '' @ list @ '' entry '' @ quoted mounted
      else ''WSLC: deniedPaths entry '' @ quoted denied @ '' is nested under '' @ list @ '' entry '' @ quoted mounted) @
     ''. WSLC mounts host paths as flat volumes and has no overlay primitive to mask a '' @
     ''subtree of a mounted path, so this deny cannot be enforced '' @ [CHR 0xE2, CHR 0x80, CHR 0x94] @ '' the path would remain '' @
     ''accessible through the parent mount. Remove the denied path, or stop mounting its parent.''"

definition unresolved_error :: "string \<Rightarrow> string" where
  "unresolved_error path =
     ''WSLC: cannot verify deniedPaths against mounts because '' @ quoted path @ '' could not be '' @
     ''resolved to a canonical location (it exists but is not examinable). With '' @
     ''deniedPaths present, MXC fails closed rather than risk an unenforced deny. '' @
     ''Ensure the path is accessible, or remove the deniedPaths entry.''"

text \<open>One pair of the lexical comparison, and one of the comparison of canonical forms.\<close>

definition lexical_overlap :: "(string \<Rightarrow> string) \<Rightarrow> string \<Rightarrow> string \<times> string \<Rightarrow> string + unit" where
  "lexical_overlap lower denied m =
     (case m of (mounted, list) \<Rightarrow>
        if contains_strictly (NormalizedPath_parse lower mounted) (NormalizedPath_parse lower denied)
        then Err (overlap_error denied mounted list False) else Ok ())"

definition canonical_overlap ::
    "(string \<Rightarrow> string) \<Rightarrow> string \<times> PathCanonical \<Rightarrow> (string \<times> string) \<times> PathCanonical \<Rightarrow> string + unit" where
  "canonical_overlap lower d m =
     (case (d, m) of
        ((denied, Canonical denied_resolved), ((mounted, list), Canonical mount_resolved)) \<Rightarrow>
          let denied_norm = NormalizedPath_parse lower denied_resolved;
              mount_norm = NormalizedPath_parse lower mount_resolved in
          if contains_strictly mount_norm denied_norm then Err (overlap_error denied mounted list True)
          else if mount_norm = denied_norm \<and> NormalizedPath_parse lower mounted \<noteq> NormalizedPath_parse lower denied
          then Err (overlap_error denied mounted list True)
          else Ok ()
      | _ \<Rightarrow> Ok ())"

definition validate_denied_path_overlap_with ::
    "(string \<Rightarrow> string) \<Rightarrow> string list \<Rightarrow> string list \<Rightarrow> string list \<Rightarrow> (nat \<Rightarrow> string \<Rightarrow> string + PathCanonical) \<Rightarrow> string + unit" where
  "validate_denied_path_overlap_with lower rw ro dn canonicalize =
     (if dn = [] then Ok ()
      else
        let mounts = map (\<lambda>path. (path, ''readwritePaths'')) rw @ map (\<lambda>path. (path, ''readonlyPaths'')) ro in
        if mounts = [] then Ok ()
        else
          and_then (try_fold (\<lambda>_ denied. try_fold (\<lambda>_. lexical_overlap lower denied) () mounts) () dn) (\<lambda>_.
          and_then (try_map_from 0 (\<lambda>i d. and_then (canonicalize i d) (\<lambda>c. Ok (d, c))) dn) (\<lambda>denied_canon.
          and_then (try_map_from (length dn) (\<lambda>i m. and_then (canonicalize i (fst m)) (\<lambda>c. Ok (m, c))) mounts) (\<lambda>mount_canon.
          and_then (try_fold (\<lambda>_ (path, canon). if canon = CanonicalUnknown then Err (unresolved_error path) else Ok ()) ()
            (denied_canon @ map (\<lambda>(m, c). (fst m, c)) mount_canon)) (\<lambda>_.
          try_fold (\<lambda>_ d. try_fold (\<lambda>_. canonical_overlap lower d) () mount_canon) () denied_canon)))))"

section \<open>Delegation\<close>

datatype AccessMode = ReadAccess | ReadWriteAccess

fun AccessMode_list_name :: "AccessMode \<Rightarrow> string" where
  "AccessMode_list_name ReadAccess = ''readonlyPaths''"
| "AccessMode_list_name ReadWriteAccess = ''readwritePaths''"

fun access_phrase :: "AccessMode \<Rightarrow> string" where
  "access_phrase ReadAccess = ''read''"
| "access_phrase ReadWriteAccess = ''read+write''"

datatype AccessResult = Granted | Missing | AccessDenied | Uninspectable string

definition delegate :: "(nat \<Rightarrow> string \<Rightarrow> AccessMode \<Rightarrow> string + AccessResult) \<Rightarrow> nat \<times> string \<times> AccessMode \<Rightarrow> FilesystemPolicyError + unit" where
  "delegate check e =
     (case e of (i, path, mode) \<Rightarrow>
        case check i path mode of
          Inl message \<Rightarrow> Err (HostError message)
        | Inr Granted \<Rightarrow> Ok ()
        | Inr Missing \<Rightarrow> Ok ()
        | Inr AccessDenied \<Rightarrow>
            Err (PolicyError (''Filesystem path '' @ quoted path @ '' ('' @ AccessMode_list_name mode @
              ''): the invoking user does not have '' @ access_phrase mode @ '' access, '' @
              ''so it cannot be delegated to the sandbox''))
        | Inr (Uninspectable reason) \<Rightarrow>
            Err (HostError (''Filesystem path '' @ quoted path @ '' ('' @ AccessMode_list_name mode @
              ''): could not check the invoking user's '' @ access_phrase mode @ '' '' @
              ''access ('' @ reason @ ''), so it was not delegated to the sandbox'')))"

definition check_delegation_with ::
    "ContainerPolicy \<Rightarrow> (nat \<Rightarrow> string \<Rightarrow> AccessMode \<Rightarrow> string + AccessResult) \<Rightarrow> FilesystemPolicyError + unit" where
  "check_delegation_with policy check =
     try_fold (\<lambda>_. delegate check) () (enumerate 0
       (map (\<lambda>path. (path, ReadAccess)) (readonly_paths policy) @ map (\<lambda>path. (path, ReadWriteAccess)) (readwrite_paths policy)))"

section \<open>The provision gate\<close>

definition apply_provision_policy_gate ::
    "(nat list list \<Rightarrow> nat list list) \<Rightarrow> (nat \<Rightarrow> string \<Rightarrow> string + PathResolution) \<Rightarrow>
     (nat \<Rightarrow> string \<Rightarrow> AccessMode \<Rightarrow> string + AccessResult) \<Rightarrow> (nat \<Rightarrow> string \<Rightarrow> string + PathCanonical) \<Rightarrow> (string \<Rightarrow> string) \<Rightarrow>
     ExecutionRequest \<Rightarrow> string list \<Rightarrow> (FilesystemPolicyError + ContainerPolicy option) \<times> string list" where
  "apply_provision_policy_gate walk identify check canonicalize lower request log =
     (case normalize_object_conflicts_with walk (req_policy request) log identify of
        (Inl e, log) \<Rightarrow> (Err e, log)
      | (Inr normalized, log) \<Rightarrow>
          let effective = (case normalized of Some p \<Rightarrow> p | None \<Rightarrow> req_policy request) in
          (and_then (check_delegation_with effective check) (\<lambda>_.
             case validate_denied_path_overlap_with lower (readwrite_paths effective) (readonly_paths effective)
                 (denied_paths effective) canonicalize of
               Inl message \<Rightarrow> Err (PolicyError message)
             | Inr _ \<Rightarrow> Ok normalized), log))"

section \<open>Network and environment\<close>

datatype WslcContainerNetworkingMode = NETWORKING_MODE_NONE | NETWORKING_MODE_BRIDGED

definition map_network_policy :: "bool \<Rightarrow> WslcContainerNetworkingMode" where
  "map_network_policy is_block = (if is_block then NETWORKING_MODE_NONE else NETWORKING_MODE_BRIDGED)"

definition wslc_network_policy_support :: NetworkPolicySupport where
  "wslc_network_policy_support = EGRESS_DEFAULT OR INGRESS_DEFAULT OR HOST_LOOPBACK OR RUNTIME_PROXY"

definition network_is_isolated :: "ExecutionRequest \<Rightarrow> bool" where
  "network_is_isolated request \<longleftrightarrow>
     (case network_egress (req_policy request) of None \<Rightarrow> True | Some egress \<Rightarrow> eg_default egress = Deny)"

definition reject_port_mappings_without_bridged_network :: "ExecutionRequest \<Rightarrow> string \<Rightarrow> bool \<Rightarrow> MxcError + unit" where
  "reject_port_mappings_without_bridged_network request field_path has_port_mappings =
     (if has_port_mappings \<and> network_is_isolated request then
        Err (policy_validation (''WSLc: '' @ field_path @ '' requires bridged networking. Set network.egress.default, '' @
          ''network.ingress.default and network.ingress.hostLoopback all to 'allow', or remove '' @
          ''the port mappings''))
      else Ok ())"

definition validate_directional_network :: "ExecutionRequest \<Rightarrow> MxcError + unit" where
  "validate_directional_network request =
     (let policy = req_policy request in
      if (case network_egress policy of Some egress \<Rightarrow> eg_allow egress \<noteq> [] \<or> eg_deny egress \<noteq> [] | None \<Rightarrow> False) then
        Err (policy_validation ''WSLc does not support network.egress allow/deny rules; networking is all-or-nothing'')
      else
        let isolated = network_is_isolated request;
            action = (if isolated then Deny else Allow);
            ingress = (case network_ingress policy of Some i \<Rightarrow> i | None \<Rightarrow> \<lparr>in_default = Deny, in_host_loopback = Deny\<rparr>) in
        if in_default ingress \<noteq> action \<or> in_host_loopback ingress \<noteq> action then
          Err (policy_validation (''WSLc cannot filter ingress or host-loopback independently: isolated networking '' @
            ''requires network.egress.default, network.ingress.default and '' @
            ''network.ingress.hostLoopback all 'deny'; bridged networking requires all '' @ quoted ''allow''))
        else if isolated \<and> proxy_is_enabled (network_proxy policy) then
          Err (policy_validation (''WSLc runtimeConfig.networkProxy requires bridged networking; a proxy cannot '' @
            ''create a route in an isolated container''))
        else Ok ())"

datatype EnvScope = EnvMerge | EnvScopeReplace

definition EnvScope_of :: "ExecutionRequest \<Rightarrow> EnvScope" where
  "EnvScope_of request =
     (case EnvResolution_of request of EnvReplace \<Rightarrow> EnvScopeReplace | EnvDefault \<Rightarrow> EnvMerge | EnvOverlay \<Rightarrow> EnvMerge)"

definition assignments :: "string list \<Rightarrow> string list" where
  "assignments entries = filter (\<lambda>e. CHR ''='' \<in> set e) entries"

definition WSLC_SHELL :: string where "WSLC_SHELL = ''/bin/sh''"

definition WSLC_ENV :: string where "WSLC_ENV = ''/usr/bin/env''"

definition argv_words :: "EnvScope \<Rightarrow> string list \<Rightarrow> string \<Rightarrow> string list" where
  "argv_words scope entries script =
     (if scope = EnvScopeReplace then [WSLC_ENV, ''-i'', ''--''] @ assignments entries else []) @
     [WSLC_SHELL, ''-c'', script]"

definition sdk_entries :: "EnvScope \<Rightarrow> string list \<Rightarrow> string list" where
  "sdk_entries scope entries = (case scope of EnvMerge \<Rightarrow> assignments entries | EnvScopeReplace \<Rightarrow> [])"

section \<open>The checks of each phase\<close>

definition ERR_FILESYSTEM_IMMUTABLE :: string where
  "ERR_FILESYSTEM_IMMUTABLE =
     ''filesystem policy (readwritePaths / readonlyPaths / deniedPaths and processContainer.filesystem.enumeratePaths) is bound to the provision '' @
     ''phase and cannot be changed by the WSLc backend after provisioning''"

definition ERR_ENUMERATE_PATHS :: string where
  "ERR_ENUMERATE_PATHS = ''processContainer.filesystem.enumeratePaths is not supported by the WSLc backend''"

definition ERR_NETWORK_IMMUTABLE :: string where
  "ERR_NETWORK_IMMUTABLE =
     ''network mode is bound to the provision phase and cannot be changed by the WSLc backend after '' @
     ''provisioning''"

definition ERR_PROXY_AT_PROVISION :: string where
  "ERR_PROXY_AT_PROVISION =
     ''runtimeConfig.networkProxy is applied per-exec by the WSLc backend; set it on the exec phase, not provision''"

definition ERR_PROXY_AT_PHASE :: string where
  "ERR_PROXY_AT_PHASE = ''runtimeConfig.networkProxy is only honoured on the exec phase by the WSLc backend''"

definition ERR_PROXY_URL_FORM :: string where
  "ERR_PROXY_URL_FORM =
     ''WSLc: runtimeConfig.networkProxy requires a proxy url reachable from inside the container; '' @
     ''a host-loopback proxy is not reachable from the container's own network namespace''"

definition ERR_UI_POLICY :: string where
  "ERR_UI_POLICY =
     ''WSLc: the ui section is not supported. The backend has no mechanism to enforce UI '' @
     ''restrictions on a container, so no ui posture is truthful here. Omitting the ui section is '' @
     ''accepted but applies no restriction '' @ [CHR 0xE2, CHR 0x80, CHR 0x94] @ '' it is not the lockdown the schema's default implies. '' @
     ''Use a backend that enforces UI policy if you need one''"

definition ERR_PROXY_CREDENTIALS_IN_ARGV :: string where
  "ERR_PROXY_CREDENTIALS_IN_ARGV =
     ''WSLc: runtimeConfig.networkProxy must not carry credentials when '' @
     ''process.env is supplied without process.inheritDefaultEnv. That combination replaces the '' @
     ''container image's environment, which WSLc performs by prefixing the command line with '' @
     [CHR 0x27] @ ''env -i NAME=VALUE', so the proxy URL becomes a process argument readable through '' @
     ''/proc/<pid>/cmdline for the lifetime of the command. Set process.inheritDefaultEnv to keep '' @
     ''the URL out of the command line, use a proxy that needs no inline credentials, or supply '' @
     ''them to the proxy itself''"

definition reject_ui_policy :: "ExecutionRequest \<Rightarrow> MxcError + unit" where
  "reject_ui_policy request =
     (if ui_specified (req_policy request) then Err (policy_validation ERR_UI_POLICY) else Ok ())"

definition reject_filesystem_policy :: "ExecutionRequest \<Rightarrow> MxcError + unit" where
  "reject_filesystem_policy request =
     (let policy = req_policy request in
      if readwrite_paths policy \<noteq> [] \<or> readonly_paths policy \<noteq> [] \<or> enumerate_paths policy \<noteq> [] \<or> denied_paths policy \<noteq> []
      then Err (policy_validation ERR_FILESYSTEM_IMMUTABLE) else Ok ())"

definition reject_post_provision_network_mode :: "ExecutionRequest \<Rightarrow> MxcError + unit" where
  "reject_post_provision_network_mode request =
     (let policy = req_policy request in
      if network_mode_specified policy \<or> network_egress policy \<noteq> None \<or> network_ingress policy \<noteq> None
      then Err (policy_validation ERR_NETWORK_IMMUTABLE) else Ok ())"

definition exec_proxy_url :: "ExecutionRequest \<Rightarrow> string option" where
  "exec_proxy_url request =
     (if \<not> proxy_is_enabled (network_proxy (req_policy request)) then None
      else Option.bind (proxy_address (network_proxy (req_policy request))) pa_original_url)"

definition reject_proxy_credentials_in_argv :: "ExecutionRequest \<Rightarrow> MxcError + unit" where
  "reject_proxy_credentials_in_argv request =
     (if EnvScope_of request \<noteq> EnvScopeReplace then Ok ()
      else (case exec_proxy_url request of
         Some url \<Rightarrow> if proxy_url_has_credentials url then Err (policy_validation ERR_PROXY_CREDENTIALS_IN_ARGV) else Ok ()
       | None \<Rightarrow> Ok ()))"

definition validate_provision_policy ::
    "(string \<Rightarrow> string) \<Rightarrow> (nat \<Rightarrow> string \<Rightarrow> string + PathCanonical) \<Rightarrow> ExecutionRequest \<Rightarrow> MxcError + unit" where
  "validate_provision_policy lower canonicalize request =
     (let policy = req_policy request in
      if enumerate_paths policy \<noteq> [] then Err (policy_validation ERR_ENUMERATE_PATHS)
      else (case validate_denied_path_overlap_with lower (readwrite_paths policy) (readonly_paths policy) (denied_paths policy) canonicalize of
         Inl message \<Rightarrow> Err (policy_validation message)
       | Inr _ \<Rightarrow>
           and_then (reject_ui_policy request) (\<lambda>_.
             if proxy_is_enabled (network_proxy policy) then Err (policy_validation ERR_PROXY_AT_PROVISION)
             else validate_directional_network request)))"

definition validate_post_provision_policy :: "ExecutionRequest \<Rightarrow> MxcError + unit" where
  "validate_post_provision_policy request =
     and_then (reject_filesystem_policy request) (\<lambda>_.
     and_then (reject_ui_policy request) (\<lambda>_.
     and_then (reject_post_provision_network_mode request) (\<lambda>_.
     if proxy_is_enabled (network_proxy (req_policy request)) then Err (policy_validation ERR_PROXY_AT_PHASE) else Ok ())))"

definition validate_exec_policy :: "ExecutionRequest \<Rightarrow> MxcError + unit" where
  "validate_exec_policy request =
     and_then (reject_filesystem_policy request) (\<lambda>_.
     and_then (reject_ui_policy request) (\<lambda>_.
     and_then (reject_post_provision_network_mode request) (\<lambda>_.
     if proxy_is_enabled (network_proxy (req_policy request)) \<and> exec_proxy_url request = None
     then Err (policy_validation ERR_PROXY_URL_FORM)
     else reject_proxy_credentials_in_argv request)))"

section \<open>Where a path leads\<close>

text \<open>Following a rooted path one segment at a time: a name descends, two dots ascend and stay at the root.\<close>

fun follow :: "string list \<Rightarrow> string \<Rightarrow> string list" where
  "follow location segment =
     (if segment = ''.'' then location else if segment = ''..'' then butlast location else location @ [segment])"

lemma rooted_fold:
  "''..'' \<notin> set location \<Longrightarrow> foldl (fold_segment True) location segs = foldl follow location segs \<and> ''..'' \<notin> set (foldl follow location segs)"
proof (induction segs arbitrary: location)
  case (Cons seg segs)
  have "last location \<noteq> ''..'' \<or> location = []" using Cons.prems last_in_set by metis
  then have "fold_segment True location seg = follow location seg" by auto
  moreover have "''..'' \<notin> set (follow location seg)" using Cons.prems by (auto dest: in_set_butlastD)
  ultimately show ?case using Cons.IH by (simp del: fold_segment.simps follow.simps)
qed simp

text \<open>The segments of a Windows path after its drive, as the parser cuts them.\<close>

definition path_segments :: "(string \<Rightarrow> string) \<Rightarrow> string \<Rightarrow> string list" where
  "path_segments lower path =
     (let lowered = lower (str_trim path);
          rest = (if 2 \<le> length lowered \<and> is_ascii_alphabetic (lowered ! 0) \<and> lowered ! 1 = CHR '':'' then drop 2 lowered else lowered)
      in filter (\<lambda>s. s \<noteq> []) (split_any {CHR ''/'', CHR 0x5C} rest))"

definition location :: "(string \<Rightarrow> string) \<Rightarrow> string \<Rightarrow> string list" where
  "location lower path = foldl follow [] (path_segments lower path)"

definition is_rooted :: "(string \<Rightarrow> string) \<Rightarrow> string \<Rightarrow> bool" where
  "is_rooted lower path = np_rooted (NormalizedPath_parse lower path)"

text \<open>Both paths start at the root of one drive, and the second leads strictly below the first.\<close>

definition leads_inside :: "(string \<Rightarrow> string) \<Rightarrow> string \<Rightarrow> string \<Rightarrow> bool" where
  "leads_inside lower outer inner \<longleftrightarrow>
     is_rooted lower outer \<and> is_rooted lower inner \<and>
     np_drive (NormalizedPath_parse lower outer) = np_drive (NormalizedPath_parse lower inner) \<and>
     strict_prefix (location lower outer) (location lower inner)"

lemma parse_location: "is_rooted lower path \<Longrightarrow> np_components (NormalizedPath_parse lower path) = location lower path"
  using rooted_fold [of "[]" "path_segments lower path"]
  by (simp add: is_rooted_def NormalizedPath_parse_def location_def path_segments_def Let_def)

lemma zip_all_eq:
  "length xs < length ys \<and> list_all (\<lambda>(a, b). a = b) (zip xs ys) \<longleftrightarrow> strict_prefix xs ys"
proof (induction xs arbitrary: ys)
  case (Cons x xs)
  then show ?case by (cases ys) (auto simp: strict_prefix_simps)
qed (auto simp: strict_prefix_def)

lemma contains_leads_inside:
  assumes "leads_inside lower outer inner"
  shows "contains_strictly (NormalizedPath_parse lower outer) (NormalizedPath_parse lower inner)"
proof -
  have "np_components (NormalizedPath_parse lower outer) = location lower outer"
    "np_components (NormalizedPath_parse lower inner) = location lower inner"
    "np_rooted (NormalizedPath_parse lower outer)" "np_rooted (NormalizedPath_parse lower inner)"
    using assms parse_location by (auto simp: leads_inside_def is_rooted_def)
  then show ?thesis using assms zip_all_eq [of "location lower outer" "location lower inner"]
    by (auto simp: contains_strictly_def leads_inside_def strict_prefix_def)
qed

section \<open>What the gate establishes\<close>

lemma try_fold_unit: "try_fold (\<lambda>_. f) () xs = Ok () \<longleftrightarrow> (\<forall>x \<in> set xs. f x = Ok ())"
  by (induction xs) (auto simp: result_simps)

abbreviation mounted_paths :: "ContainerPolicy \<Rightarrow> string list" where
  "mounted_paths policy \<equiv> readwrite_paths policy @ readonly_paths policy"

lemma overlap_checked:
  assumes "validate_denied_path_overlap_with lower rw ro dn canonicalize = Ok ()"
    and "i < length dn" and "j < length (rw @ ro)"
  shows "\<not> leads_inside lower ((rw @ ro) ! j) (dn ! i) \<and>
    (\<exists>d m. canonicalize i (dn ! i) = Ok d \<and> canonicalize (length dn + j) ((rw @ ro) ! j) = Ok m \<and>
       d \<noteq> CanonicalUnknown \<and> m \<noteq> CanonicalUnknown \<and>
       (\<forall>d' m'. d = Canonical d' \<and> m = Canonical m' \<longrightarrow> \<not> leads_inside lower m' d' \<and>
          (NormalizedPath_parse lower m' = NormalizedPath_parse lower d' \<longrightarrow>
           NormalizedPath_parse lower ((rw @ ro) ! j) = NormalizedPath_parse lower (dn ! i))))"
proof -
  define mounts where "mounts = map (\<lambda>path. (path, ''readwritePaths'')) rw @ map (\<lambda>path. (path, ''readonlyPaths'')) ro"
  have len: "length mounts = length (rw @ ro)" by (simp add: mounts_def)
  have nth: "fst (mounts ! j) = (rw @ ro) ! j" using assms(3) by (simp add: mounts_def nth_append)
  have "dn \<noteq> []" "mounts \<noteq> []" using assms(2,3) len by auto
  from assms(1) [unfolded validate_denied_path_overlap_with_def Let_def, folded mounts_def] this
  obtain dc mc where lex: "\<forall>d \<in> set dn. \<forall>m \<in> set mounts. lexical_overlap lower d m = Ok ()"
    and dc: "try_map_from 0 (\<lambda>i d. and_then (canonicalize i d) (\<lambda>c. Ok (d, c))) dn = Ok dc"
    and mc: "try_map_from (length dn) (\<lambda>i m. and_then (canonicalize i (fst m)) (\<lambda>c. Ok (m, c))) mounts = Ok mc"
    and known: "\<forall>x \<in> set (dc @ map (\<lambda>(m, c). (fst m, c)) mc).
      (case x of (path, canon) \<Rightarrow> if canon = CanonicalUnknown then Err (unresolved_error path) else Ok ()) = Ok ()"
    and canon: "\<forall>d \<in> set dc. \<forall>m \<in> set mc. canonical_overlap lower d m = Ok ()"
    by (auto simp: result_simps try_fold_unit split: if_splits)
  from dc assms(2) obtain d where d: "canonicalize i (dn ! i) = Ok d" "dc ! i = (dn ! i, d)" "i < length dc"
    by (auto simp: try_map_from_Ok_iff result_simps)
  from mc assms(3) len obtain m where m: "canonicalize (length dn + j) ((rw @ ro) ! j) = Ok m" "mc ! j = (mounts ! j, m)" "j < length mc"
    by (auto simp: try_map_from_Ok_iff result_simps nth)
  have mem: "(dn ! i, d) \<in> set dc" "(mounts ! j, m) \<in> set mc" using d m nth_mem by metis+
  have "lexical_overlap lower (dn ! i) (mounts ! j) = Ok ()" using lex assms(2,3) len by simp
  then have "\<not> contains_strictly (NormalizedPath_parse lower ((rw @ ro) ! j)) (NormalizedPath_parse lower (dn ! i))"
    by (cases "mounts ! j") (use nth in \<open>auto simp: lexical_overlap_def split: if_splits\<close>)
  moreover have "d \<noteq> CanonicalUnknown" "m \<noteq> CanonicalUnknown"
    using bspec [OF known, of "(dn ! i, d)"] bspec [OF known, of "(fst (mounts ! j), m)"] mem by (force split: if_splits)+
  moreover have "canonical_overlap lower (dn ! i, d) (mounts ! j, m) = Ok ()" using canon mem by blast
  then have "\<not> contains_strictly (NormalizedPath_parse lower m') (NormalizedPath_parse lower d') \<and>
      (NormalizedPath_parse lower m' = NormalizedPath_parse lower d' \<longrightarrow>
       NormalizedPath_parse lower ((rw @ ro) ! j) = NormalizedPath_parse lower (dn ! i))"
    if "d = Canonical d'" "m = Canonical m'" for d' m'
    using that by (cases "mounts ! j") (use nth in \<open>auto simp: canonical_overlap_def Let_def split: if_splits\<close>)
  ultimately show ?thesis using d(1) m(1) contains_leads_inside by blast
qed

lemma delegation_checked:
  assumes "check_delegation_with policy check = Ok ()"
  shows "\<forall>i < length (readonly_paths policy). check i (readonly_paths policy ! i) ReadAccess \<in> {Ok Granted, Ok Missing}"
    and "\<forall>i < length (readwrite_paths policy).
      check (length (readonly_paths policy) + i) (readwrite_paths policy ! i) ReadWriteAccess \<in> {Ok Granted, Ok Missing}"
proof -
  let ?es = "map (\<lambda>path. (path, ReadAccess)) (readonly_paths policy) @ map (\<lambda>path. (path, ReadWriteAccess)) (readwrite_paths policy)"
  have "delegate check (k, ?es ! k) = Ok ()" if "k < length ?es" for k
  proof -
    have "(k, ?es ! k) \<in> set (enumerate 0 ?es)" using that by (simp add: in_set_enumerate_eq)
    then show ?thesis using assms by (simp add: check_delegation_with_def try_fold_unit)
  qed
  moreover have "check k p mode \<in> {Ok Granted, Ok Missing}" if "delegate check (k, p, mode) = Ok ()" for k p mode
    using that by (auto simp: delegate_def split: sum.splits AccessResult.splits)
  ultimately have all: "check k (fst (?es ! k)) (snd (?es ! k)) \<in> {Ok Granted, Ok Missing}" if "k < length ?es" for k
    using that by (metis prod.collapse)
  show "\<forall>i < length (readonly_paths policy). check i (readonly_paths policy ! i) ReadAccess \<in> {Ok Granted, Ok Missing}"
  proof (intro allI impI)
    fix i assume "i < length (readonly_paths policy)"
    then show "check i (readonly_paths policy ! i) ReadAccess \<in> {Ok Granted, Ok Missing}"
      using all [of i] by (simp add: nth_append)
  qed
  show "\<forall>i < length (readwrite_paths policy).
      check (length (readonly_paths policy) + i) (readwrite_paths policy ! i) ReadWriteAccess \<in> {Ok Granted, Ok Missing}"
  proof (intro allI impI)
    fix i assume "i < length (readwrite_paths policy)"
    then show "check (length (readonly_paths policy) + i) (readwrite_paths policy ! i) ReadWriteAccess \<in> {Ok Granted, Ok Missing}"
      using all [of "length (readonly_paths policy) + i"] by (simp add: nth_append)
  qed
qed

text \<open>Once the networking mode is chosen by the egress default, it admits exactly the flows of the policy.\<close>

definition mode_admits :: "WslcContainerNetworkingMode \<Rightarrow> bool" where
  "mode_admits mode \<longleftrightarrow> mode = NETWORKING_MODE_BRIDGED"

lemma directional_network_exact:
  assumes "validate_directional_network request = Ok ()"
  defines "mode \<equiv> map_network_policy (network_is_isolated request)" and "policy \<equiv> req_policy request"
  shows "(case network_egress policy of None \<Rightarrow> False | Some egress \<Rightarrow> policy_admits egress k) \<longleftrightarrow> mode_admits mode"
    and "(case network_ingress policy of None \<Rightarrow> False | Some ingress \<Rightarrow> in_default ingress = Allow) \<longleftrightarrow> mode_admits mode"
    and "(case network_ingress policy of None \<Rightarrow> False | Some ingress \<Rightarrow> in_host_loopback ingress = Allow) \<longleftrightarrow> mode_admits mode"
    and "proxy_is_enabled (network_proxy policy) \<Longrightarrow> mode_admits mode"
proof -
  let ?ingress = "case network_ingress policy of Some i \<Rightarrow> i | None \<Rightarrow> \<lparr>in_default = Deny, in_host_loopback = Deny\<rparr>"
  let ?action = "if network_is_isolated request then Deny else Allow"
  have rules: "\<not> (case network_egress policy of Some egress \<Rightarrow> eg_allow egress \<noteq> [] \<or> eg_deny egress \<noteq> [] | None \<Rightarrow> False)"
    using assms(1) unfolding validate_directional_network_def Let_def policy_def by (simp split: if_split_asm)
  with assms(1) have rest: "in_default ?ingress = ?action" "in_host_loopback ?ingress = ?action"
      "\<not> (network_is_isolated request \<and> proxy_is_enabled (network_proxy policy))"
    unfolding validate_directional_network_def Let_def policy_def by (simp_all split: if_split_asm)
  have mode: "mode_admits mode \<longleftrightarrow> \<not> network_is_isolated request"
    by (simp add: mode_admits_def mode_def map_network_policy_def)
  show "(case network_egress policy of None \<Rightarrow> False | Some egress \<Rightarrow> policy_admits egress k) \<longleftrightarrow> mode_admits mode"
    using rules unfolding mode
    by (cases "network_egress policy")
      (auto simp: network_is_isolated_def policy_admits_def policy_def intro: NetworkAction.exhaust)
  show "(case network_ingress policy of None \<Rightarrow> False | Some ingress \<Rightarrow> in_default ingress = Allow) \<longleftrightarrow> mode_admits mode"
    and "(case network_ingress policy of None \<Rightarrow> False | Some ingress \<Rightarrow> in_host_loopback ingress = Allow) \<longleftrightarrow> mode_admits mode"
    using rest(1,2) unfolding mode by (auto split: option.splits if_splits)
  show "proxy_is_enabled (network_proxy policy) \<Longrightarrow> mode_admits mode" using rest(3) unfolding mode by simp
qed

section \<open>Properties\<close>

text \<open>
  C12: The provision gate of the WSL container back end leaves no denied path inside a mount. When it
  accepts, the policy it goes on with has for each path the most restrictive intent of its object, the
  user holds the access each mounted path is delegated with, or the path does not exist, and no denied
  path leads strictly inside a mounted one: neither as written, after following dots, separators and
  case, nor in the canonical forms the host gives, all of which could be resolved. A denied path whose
  canonical form is that of a mount is a spelling of the same path.
\<close>

theorem wslc_gate_denies:
  assumes "apply_provision_policy_gate walk identify check canonicalize lower request log = (Ok result, log')"
    and "\<And>gs. mset (walk gs) = mset gs"
    and "effective = (case result of Some p \<Rightarrow> p | None \<Rightarrow> req_policy request)"
    and "es = policy_entry_list (req_policy request)"
  shows "policy_entry_set effective = (\<lambda>i. (fst (es ! i), strictest identify es i)) ` {..<length es} \<and>
    (\<forall>i < length (readonly_paths effective). check i (readonly_paths effective ! i) ReadAccess \<in> {Ok Granted, Ok Missing}) \<and>
    (\<forall>i < length (readwrite_paths effective).
       check (length (readonly_paths effective) + i) (readwrite_paths effective ! i) ReadWriteAccess \<in> {Ok Granted, Ok Missing}) \<and>
    (\<forall>i < length (denied_paths effective). \<forall>j < length (mounted_paths effective).
       let denied = denied_paths effective ! i; mounted = mounted_paths effective ! j in
       \<not> leads_inside lower mounted denied \<and>
       (\<exists>d m. canonicalize i denied = Ok d \<and> canonicalize (length (denied_paths effective) + j) mounted = Ok m \<and>
          d \<noteq> CanonicalUnknown \<and> m \<noteq> CanonicalUnknown \<and>
          (\<forall>d' m'. d = Canonical d' \<and> m = Canonical m' \<longrightarrow> \<not> leads_inside lower m' d' \<and>
             (NormalizedPath_parse lower m' = NormalizedPath_parse lower d' \<longrightarrow>
              NormalizedPath_parse lower mounted = NormalizedPath_parse lower denied))))"
proof -
  from assms(1) have norm: "normalize_object_conflicts_with walk (req_policy request) log identify = (Ok result, log')"
    and deleg: "check_delegation_with effective check = Ok ()"
    and over: "validate_denied_path_overlap_with lower (readwrite_paths effective) (readonly_paths effective)
      (denied_paths effective) canonicalize = Ok ()"
    unfolding apply_provision_policy_gate_def assms(3)
    by (auto simp: Let_def result_simps split: prod.splits sum.splits)
  have eff: "effective = (case result of None \<Rightarrow> req_policy request | Some p \<Rightarrow> p)"
    unfolding assms(3) by (cases result) simp_all
  note tight = conjunct1 [OF tightened_policy [OF norm assms(2) eff assms(4)]]
  show ?thesis unfolding Let_def
    by (intro conjI tight delegation_checked [OF deleg] allI impI)
      (rule overlap_checked [OF over, THEN conjunct1] overlap_checked [OF over, THEN conjunct2]; assumption)+
qed

definition wslc_example :: ExecutionRequest where
  "wslc_example =
     \<lparr>source_contract = None, container_id = [], req_env = None, inherit_default_env = True, script_code = ''true'',
      working_directory = [], script_timeout = 0, containment = Wslc, lifecycle = LifecycleConfig_default,
      req_policy = ContainerPolicy_default\<lparr>readwrite_paths := [''C:'' @ [CHR 0x5C] @ ''proj''],
        denied_paths := [''c:/proj/../secrets'']\<rparr>,
      lxc_config = \<lparr>lxc_distribution = [], lxc_release = []\<rparr>, wslc = None, seatbelt = None, telemetry = None,
      test_feature = None, windows_sandbox = None, hyperlight = None, microvm_image = None, microvm_memory_mib = None,
      experimental_enabled = False, dry_run = False\<rparr>"

lemma wslc_example_accepted:
  "apply_provision_policy_gate rev (\<lambda>_ _. Ok Absent) (\<lambda>_ _ _. Ok Granted) (\<lambda>_ p. Ok (Canonical p)) to_ascii_lowercase
     wslc_example [] = (Ok None, [])"
  unfolding wslc_example_def ContainerPolicy_default_def by code_simp

theorem wslc_gate_denies_witness:
  "apply_provision_policy_gate rev (\<lambda>_ _. Ok Absent) (\<lambda>_ _ _. Ok Granted) (\<lambda>_ p. Ok (Canonical p)) to_ascii_lowercase
     wslc_example [] = (Ok None, []) \<and>
   \<not> leads_inside to_ascii_lowercase (''C:'' @ [CHR 0x5C] @ ''proj'') ''c:/proj/../secrets''"
proof -
  have "mset (rev gs) = mset gs" for gs :: "nat list list" by simp
  from wslc_gate_denies [OF wslc_example_accepted this refl refl] show ?thesis
    using wslc_example_accepted by (simp add: wslc_example_def ContainerPolicy_default_def Let_def)
qed

text \<open>
  C19: A request for the WSL container back end whose network section is accepted is enforced by the
  networking mode alone: the mode chosen from the egress default admits a flow exactly when the egress
  policy does, and inbound connections and host loopback exactly when they are allowed; a proxy is only
  accepted where the mode gives it a route.
\<close>

theorem wslc_mode_enforces:
  assumes "validate_directional_network request = Ok ()"
    and "mode = map_network_policy (network_is_isolated request)" and "policy = req_policy request"
  shows "((case network_egress policy of None \<Rightarrow> False | Some egress \<Rightarrow> policy_admits egress k) \<longleftrightarrow> mode_admits mode) \<and>
    ((case network_ingress policy of None \<Rightarrow> False | Some ingress \<Rightarrow> in_default ingress = Allow) \<longleftrightarrow> mode_admits mode) \<and>
    ((case network_ingress policy of None \<Rightarrow> False | Some ingress \<Rightarrow> in_host_loopback ingress = Allow) \<longleftrightarrow> mode_admits mode) \<and>
    (proxy_is_enabled (network_proxy policy) \<longrightarrow> mode_admits mode)"
  unfolding assms(2,3) using directional_network_exact [OF assms(1)] by blast

theorem wslc_mode_enforces_witness:
  "validate_directional_network wslc_example = Ok () \<and>
   \<not> mode_admits (map_network_policy (network_is_isolated wslc_example))"
proof -
  have ok: "validate_directional_network wslc_example = Ok ()"
    unfolding wslc_example_def ContainerPolicy_default_def by code_simp
  from wslc_mode_enforces [OF ok refl refl] ok show ?thesis
    by (simp add: wslc_example_def ContainerPolicy_default_def)
qed

end
