(* ===== verification/Lxc_Mounts.thy ===== *)
theory Lxc_Mounts
  imports Fs_Plan Rust_Path Rust_Text
begin

text \<open>
  \<open>filesystem_mounts.rs\<close> and the part of \<open>lxc_bindings.rs\<close> that decides without running a tool: the mount
  entries of a policy, the managed block of the container's configuration, the interfaces a start
  empties, and the arguments of an attach. The host's filesystem is a view that each probe may get
  afresh, or fail to get.
\<close>

section \<open>Mount entries\<close>

record MountShape =
  ms_filesystem :: string
  ms_options :: string

definition MountShape_entry :: "MountShape \<Rightarrow> string \<Rightarrow> string \<Rightarrow> string" where
  "MountShape_entry self source target =
     source @ '' '' @ target @ '' '' @ ms_filesystem self @ '' '' @ ms_options self @ '' 0 0''"

definition MOUNT_READWRITE :: MountShape where
  "MOUNT_READWRITE = \<lparr>ms_filesystem = ''none'', ms_options = ''bind,create=dir''\<rparr>"

definition MOUNT_READONLY :: MountShape where
  "MOUNT_READONLY = \<lparr>ms_filesystem = ''none'', ms_options = ''bind,ro,create=dir''\<rparr>"

definition MASK_FILE :: MountShape where
  "MASK_FILE = \<lparr>ms_filesystem = ''none'', ms_options = ''bind,ro,create=file''\<rparr>"

definition MASK_DIR_HOLDING_MOUNTPOINTS :: MountShape where
  "MASK_DIR_HOLDING_MOUNTPOINTS = \<lparr>ms_filesystem = ''tmpfs'', ms_options = ''size=1m,create=dir''\<rparr>"

definition MASK_DIR :: MountShape where
  "MASK_DIR = \<lparr>ms_filesystem = ''tmpfs'', ms_options = ''ro,size=0,create=dir''\<rparr>"

section \<open>The container\<close>

record LxcContainer =
  lc_name :: string
  lc_lxc_path :: string

definition trim_start_slashes :: "string \<Rightarrow> string" where
  "trim_start_slashes s = dropWhile (\<lambda>c. c = CHR ''/'') s"

definition resolve_lxcpath_with_env :: "(string \<Rightarrow> string option) \<Rightarrow> u32 \<Rightarrow> string" where
  "resolve_lxcpath_with_env get_env euid =
     (let set_var = (\<lambda>name. case get_env name of Some v \<Rightarrow> if v \<noteq> [] then Some v else None | None \<Rightarrow> None) in
      case set_var ''LXC_PATH'' of
        Some p \<Rightarrow> p
      | None \<Rightarrow>
          if euid = 0 then ''/var/lib/lxc''
          else (case set_var ''XDG_DATA_HOME'' of
             Some xdg \<Rightarrow> trim_end_slashes xdg @ ''/lxc''
           | None \<Rightarrow>
               (case set_var ''HOME'' of
                  Some home \<Rightarrow> trim_end_slashes home @ ''/.local/share/lxc''
                | None \<Rightarrow> ''/var/lib/lxc'')))"

definition LxcContainer_new :: "(string \<Rightarrow> string option) \<Rightarrow> u32 \<Rightarrow> string \<Rightarrow> string option \<Rightarrow> LxcContainer" where
  "LxcContainer_new get_env euid name lxc_path =
     \<lparr>lc_name = name, lc_lxc_path = (case lxc_path of Some p \<Rightarrow> p | None \<Rightarrow> resolve_lxcpath_with_env get_env euid)\<rparr>"

definition lxc_command :: "LxcContainer \<Rightarrow> string \<Rightarrow> string list" where
  "lxc_command self tool = [tool, ''-P'', lc_lxc_path self, ''-n'', lc_name self]"

definition config_file_path :: "LxcContainer \<Rightarrow> string" where
  "config_file_path self = lc_lxc_path self @ ''/'' @ lc_name self @ ''/config''"

definition build_attach_args_with_env_control :: "string list \<Rightarrow> string \<Rightarrow> string \<Rightarrow> bool \<Rightarrow> string list" where
  "build_attach_args_with_env_control env directory command force_clear_env =
     (if force_clear_env \<or> env \<noteq> [] then
        ''--clear-env'' # List.map_filter (\<lambda>kv. case split_once (CHR ''='') kv of
            Some (key, _) \<Rightarrow> if key \<noteq> [] then Some (''--set-var='' @ kv) else None
          | None \<Rightarrow> None) env
      else []) @
     [''--'', ''/bin/sh'', ''-c''] @
     (if directory = [] then [command]
      else [''cd -- '' @ [CHR 0x22] @ ''$1'' @ [CHR 0x22] @ '' && exec /bin/sh -c '' @ [CHR 0x22] @ ''$2'' @ [CHR 0x22],
        ''_'', directory, command])"

datatype StartNetwork = FromContainerConfig | NoInterface

definition to_start_args :: "StartNetwork \<Rightarrow> nat \<Rightarrow> string list" where
  "to_start_args self configured_interfaces =
     (case self of
        FromContainerConfig \<Rightarrow> []
      | NoInterface \<Rightarrow>
          concat (map (\<lambda>index. [''-s'', ''lxc.net.'' @ show_nat index @ ''.type=empty'',
            ''-s'', ''lxc.net.'' @ show_nat index @ ''.flags=up'']) [0..<max configured_interfaces 1]))"

text \<open>\<open>usize\<close> has 64 bits; the successor of the highest index wraps, as in a release build.\<close>

definition interface_index :: "string \<Rightarrow> nat option" where
  "interface_index line =
     (let key = str_trim (hd (split_char (CHR ''='') line)) in
      if starts_with ''lxc.net.'' key
      then parse_unsigned (2 ^ 64) (hd (split_char (CHR ''.'') (drop 8 key))) else None)"

definition highest_interface_index :: "string \<Rightarrow> nat option" where
  "highest_interface_index config =
     (case List.map_filter interface_index (lines config) of [] \<Rightarrow> None | i # is \<Rightarrow> Some (foldl max i is))"

definition configured_interface_count :: "string option \<Rightarrow> nat" where
  "configured_interface_count config =
     (case config of
        None \<Rightarrow> 0
      | Some config \<Rightarrow> (case highest_interface_index config of None \<Rightarrow> 0 | Some index \<Rightarrow> (index + 1) mod 2 ^ 64))"

section \<open>The managed block\<close>

definition MANAGED_MOUNTS_BEGIN :: string where
  "MANAGED_MOUNTS_BEGIN = ''# BEGIN MXC managed mounts (rewritten every run)''"

definition MANAGED_MOUNTS_END :: string where
  "MANAGED_MOUNTS_END = ''# END MXC managed mounts''"

fun strip_lines :: "bool \<Rightarrow> string list \<Rightarrow> string" where
  "strip_lines inside [] = []"
| "strip_lines inside (line # rest) =
     (let trimmed = str_trim line in
      if trimmed = MANAGED_MOUNTS_BEGIN then strip_lines True rest
      else if trimmed = MANAGED_MOUNTS_END then strip_lines False rest
      else if inside then strip_lines inside rest
      else line @ [CHR 0x0A] @ strip_lines inside rest)"

definition strip_managed_mount_entries :: "string \<Rightarrow> string" where
  "strip_managed_mount_entries config = strip_lines False (lines config)"

definition managed_block :: "string list \<Rightarrow> string" where
  "managed_block entries =
     MANAGED_MOUNTS_BEGIN @ [CHR 0x0A] @
     concat (map (\<lambda>entry. ''lxc.mount.entry = '' @ entry @ [CHR 0x0A]) entries) @
     MANAGED_MOUNTS_END @ [CHR 0x0A]"

definition rewritten_config :: "string \<Rightarrow> string list \<Rightarrow> string" where
  "rewritten_config existing entries =
     (let out = strip_managed_mount_entries existing in
      if entries = [] then out
      else (if out \<noteq> [] \<and> last out \<noteq> CHR 0x0A then out @ [CHR 0x0A] else out) @ managed_block entries)"

text \<open>Reading the configuration, staging the new one and renaming it; the value is the installed text.\<close>

record config_io =
  ci_read :: "string + string"
  ci_write :: "string + unit"
  ci_rename :: "string + unit"

definition set_filesystem_access_points :: "config_io \<Rightarrow> LxcContainer \<Rightarrow> string list \<Rightarrow> string + string" where
  "set_filesystem_access_points io self entries =
     (let config_path = config_file_path self; temp_path = config_path @ ''.mxc-tmp'' in
      case ci_read io of
        Inl e \<Rightarrow> Err (''Failed to read container config to replace its mount entries: '' @ e @ '' (config file: '' @ config_path @ '')'')
      | Inr existing \<Rightarrow>
          (case ci_write io of
             Inl e \<Rightarrow> Err (''Failed to stage rewritten container config: '' @ e @ '' (temp file: '' @ temp_path @ '')'')
           | Inr _ \<Rightarrow>
               (case ci_rename io of
                  Inl e \<Rightarrow> Err (''Failed to install rewritten container config: '' @ e @ '' (config file: '' @ config_path @ '')'')
                | Inr _ \<Rightarrow> Ok (rewritten_config existing entries))))"

section \<open>From a policy to entries\<close>

fun has_whitespace :: "string \<Rightarrow> bool" where
  "has_whitespace [] = False"
| "has_whitespace (c # s) \<longleftrightarrow> ws_len (c # s) \<noteq> 0 \<or> has_whitespace s"

definition Lxc_validate_path :: "string \<Rightarrow> string + unit" where
  "Lxc_validate_path path =
     (if path = [] then Err ''Empty path is not allowed''
      else if has_whitespace path then
        Err (''Path contains whitespace characters which could inject or break LXC config parsing: '' @ debug_str path)
      else Ok ())"

datatype file_kind = RegularFile | SymbolicLink | OtherKind

text \<open>A view of the host: \<open>canonicalize\<close> by components, and the kind of the object itself, if there is one.\<close>

record fs_view =
  fv_canonicalize :: "Component list \<Rightarrow> Component list option"
  fv_lstat :: "string \<Rightarrow> file_kind option"

definition components_str :: "Component list \<Rightarrow> string" where
  "components_str cs =
     (case cs of
        RootDir # rest \<Rightarrow> CHR ''/'' # join ''/'' (map component_str rest)
      | _ \<Rightarrow> join ''/'' (map component_str cs))"

definition denied_path_is_file :: "fs_view \<Rightarrow> string \<Rightarrow> bool" where
  "denied_path_is_file view host_path \<longleftrightarrow> fv_lstat view host_path = Some RegularFile"

definition pop_component :: "Component list \<Rightarrow> Component list" where
  "pop_component cs = (if cs = [] \<or> last cs = RootDir then cs else butlast cs)"

definition push_resolved :: "fs_view \<Rightarrow> Component list \<Rightarrow> Component \<Rightarrow> Component list" where
  "push_resolved view result component =
     (case component of
        RootDir \<Rightarrow> [RootDir]
      | CurDir \<Rightarrow> result
      | ParentDir \<Rightarrow> pop_component result
      | Normal name \<Rightarrow>
          (let result = result @ [Normal name] in
           case fv_canonicalize view result of Some real \<Rightarrow> real | None \<Rightarrow> result))"

definition Lxc_resolve_through_symlinks :: "fs_view \<Rightarrow> string \<Rightarrow> Component list option" where
  "Lxc_resolve_through_symlinks view path =
     (let result = foldl (push_resolved view) [] (path_components path)
      in if result = [] then None else Some result)"

definition resolve_denied_host_path :: "fs_view \<Rightarrow> string \<Rightarrow> string + string" where
  "resolve_denied_host_path view host_path =
     (case Lxc_resolve_through_symlinks view host_path of
        Some resolved \<Rightarrow>
          (let real = components_str resolved in
           if \<not> valid_utf8 real then
             Err (''deniedPaths entry '' @ debug_str host_path @ '' resolves to a non-UTF-8 host path that cannot be '' @
               ''safely masked; refusing to start.'')
           else if fv_lstat view real = Some SymbolicLink then
             Err (''deniedPaths entry '' @ debug_str host_path @ '' resolves to '' @ debug_str real @
               '', which is still a symlink (dangling or unresolvable) and cannot be safely masked; refusing to start.'')
           else Ok real)
      | None \<Rightarrow> Ok host_path)"

definition has_rebound_descendant :: "string \<Rightarrow> string list \<Rightarrow> bool" where
  "has_rebound_descendant container_path rebound \<longleftrightarrow> list_ex (starts_with (container_path @ ''/'')) rebound"

definition rebound_comparison_paths :: "fs_view \<Rightarrow> string \<Rightarrow> string list" where
  "rebound_comparison_paths view host_path =
     (let original = trim_start_slashes host_path in
      (case Lxc_resolve_through_symlinks view host_path of
         Some resolved \<Rightarrow>
           (let resolved = components_str resolved in
            if valid_utf8 resolved \<and> trim_start_slashes resolved \<noteq> original then [trim_start_slashes resolved] else [])
       | None \<Rightarrow> []) @ [original])"

text \<open>A probe either times out, with a message, or sees the filesystem as it then is.\<close>

type_synonym fs_probe = "nat \<Rightarrow> string \<Rightarrow> string + fs_view"

definition rebound_paths :: "fs_probe \<Rightarrow> nat \<Rightarrow> ResolvedMount \<Rightarrow> string + string list" where
  "rebound_paths probe call mount =
     and_then (Lxc_validate_path (rm_path mount)) (\<lambda>_.
       and_then (probe call (rm_path mount)) (\<lambda>view. Ok (rebound_comparison_paths view (rm_path mount))))"

definition mask_shape :: "bool \<Rightarrow> string \<Rightarrow> string list \<Rightarrow> MountShape \<times> string" where
  "mask_shape is_file container_path rebound =
     (if is_file then (MASK_FILE, ''/dev/null'')
      else if has_rebound_descendant container_path rebound then (MASK_DIR_HOLDING_MOUNTPOINTS, ''tmpfs'')
      else (MASK_DIR, ''tmpfs''))"

text \<open>One mount: its entry and the log lines. \<open>call\<close> is the number of the probe a denied path makes.\<close>

definition mount_entry :: "fs_probe \<Rightarrow> string list \<Rightarrow> nat \<Rightarrow> ResolvedMount \<Rightarrow> string + string \<times> string list" where
  "mount_entry probe rebound call mount =
     (let host_path = rm_path mount in
      and_then (Lxc_validate_path host_path) (\<lambda>_.
        let container_path = trim_start_slashes host_path in
        case rm_intent mount of
          ReadWrite \<Rightarrow>
            Ok (MountShape_entry MOUNT_READWRITE host_path container_path,
              [''Adding rw bind mount: '' @ host_path @ '' -> /'' @ container_path])
        | ReadOnly \<Rightarrow>
            Ok (MountShape_entry MOUNT_READONLY host_path container_path,
              [''Adding ro bind mount: '' @ host_path @ '' -> /'' @ container_path])
        | Denied \<Rightarrow>
            and_then (probe call host_path) (\<lambda>view.
            and_then (resolve_denied_host_path view host_path) (\<lambda>real_host.
            and_then (Lxc_validate_path real_host) (\<lambda>_.
              let is_file = denied_path_is_file view real_host;
                  container_path = trim_start_slashes real_host;
                  (shape, source) = mask_shape is_file container_path rebound
              in Ok (MountShape_entry shape source container_path,
                (if real_host \<noteq> host_path
                 then [''Denied path '' @ host_path @ '' resolves through a symlink; masking its real target '' @ real_host] else []) @
                [''Masking denied path: /'' @ container_path @ '' ('' @ (if is_file then ''file'' else ''dir'') @ '')'']))))))"

text \<open>
  The probes are numbered in the order they run: one for each read-write or read-only mount, then one for
  each mount of the second loop (only denied ones use theirs).
\<close>

definition configure_filesystem_mounts ::
    "fs_probe \<Rightarrow> config_io \<Rightarrow> LxcContainer \<Rightarrow> ContainerPolicy \<Rightarrow> string + string \<times> string list" where
  "configure_filesystem_mounts probe io container policy =
     (let mounts = resolve_mount_order policy;
          bound = filter (\<lambda>m. rm_intent m = ReadWrite \<or> rm_intent m = ReadOnly) mounts in
      and_then (try_map_from 0 (rebound_paths probe) bound) (\<lambda>rebound.
      and_then (try_map_from (length bound) (mount_entry probe (concat rebound)) mounts) (\<lambda>entries.
      and_then (set_filesystem_access_points io container (map fst entries)) (\<lambda>config.
        Ok (config, concat (map snd entries))))))"

section \<open>Reading a configuration\<close>

text \<open>
  What LXC reads from a configuration: the values of the mount-entry keys, in order. An entry has six
  fields between white space, in which an octal escape stands for a blank, a tab, a line feed or a
  backslash; anything else is malformed.
\<close>

record mount_line =
  ml_source :: string
  ml_target :: string
  ml_type :: string
  ml_options :: string

fun mnt_unescape :: "string \<Rightarrow> string" where
  "mnt_unescape [] = []"
| "mnt_unescape (c # s) =
     (if c = CHR 0x5C \<and> take 3 s = ''040'' then CHR '' '' # mnt_unescape (drop 3 s)
      else if c = CHR 0x5C \<and> take 3 s = ''011'' then CHR 0x09 # mnt_unescape (drop 3 s)
      else if c = CHR 0x5C \<and> take 3 s = ''012'' then CHR 0x0A # mnt_unescape (drop 3 s)
      else if c = CHR 0x5C \<and> take 3 s = ''134'' then CHR 0x5C # mnt_unescape (drop 3 s)
      else c # mnt_unescape s)"

definition read_entry :: "string \<Rightarrow> mount_line option" where
  "read_entry entry =
     (case split_whitespace entry of
        [source, target, type, options, _, _] \<Rightarrow>
          Some \<lparr>ml_source = mnt_unescape source, ml_target = mnt_unescape target, ml_type = mnt_unescape type,
            ml_options = mnt_unescape options\<rparr>
      | _ \<Rightarrow> None)"

definition config_mount :: "string \<Rightarrow> mount_line option option" where
  "config_mount line =
     (case split_once (CHR ''='') line of
        Some (key, entry) \<Rightarrow> if str_trim key = ''lxc.mount.entry'' then Some (read_entry entry) else None
      | None \<Rightarrow> None)"

definition config_mounts :: "string \<Rightarrow> mount_line option list" where
  "config_mounts config = List.map_filter config_mount (lines config)"

section \<open>The block is replaced\<close>

definition one_line :: "string \<Rightarrow> bool" where
  "one_line l \<longleftrightarrow> CHR 0x0A \<notin> set l \<and> CHR 0x0D \<notin> set l"

definition as_lines :: "string list \<Rightarrow> string" where
  "as_lines ls = concat (map (\<lambda>l. l @ [CHR 0x0A]) ls)"

lemma split_as_lines: "list_all one_line ls \<Longrightarrow> split_char (CHR 0x0A) (as_lines ls) = ls @ [[]]"
  by (induction ls) (auto simp: as_lines_def one_line_def split_char_append)

lemma no_carriage: "CHR 0x0D \<notin> set l \<Longrightarrow> strip_suffix (CHR 0x0D) l = None"
  by (cases l rule: rev_cases) (auto simp: strip_suffix_def)

lemma lines_as_lines: "list_all one_line ls \<Longrightarrow> lines (as_lines ls) = ls"
proof -
  assume ls: "list_all one_line ls"
  have "map (\<lambda>l. case strip_suffix (CHR 0x0D) l of Some l' \<Rightarrow> l' | None \<Rightarrow> l) ls = ls"
    using ls by (induction ls) (auto simp: no_carriage one_line_def)
  then show ?thesis by (simp add: lines_def Let_def split_as_lines [OF ls])
qed

lemma split_char_subset: "p \<in> set (split_char c s) \<Longrightarrow> set p \<subseteq> set s"
  by (induction c s arbitrary: p rule: split_char.induct) (fastforce split: if_splits list.splits)+

lemma lines_one_line: "CHR 0x0D \<notin> set config \<Longrightarrow> list_all one_line (lines config)"
proof -
  assume "CHR 0x0D \<notin> set config"
  then have "one_line p" if "p \<in> set (split_char (CHR 0x0A) config)" for p
    using that split_char_parts split_char_subset unfolding one_line_def by blast
  moreover have "split_char (CHR 0x0A) config \<noteq> []" by simp
  ultimately show ?thesis
    by (auto simp: lines_def Let_def list_all_iff no_carriage one_line_def dest: in_set_butlastD)
qed

text \<open>
  The lines outside every managed block, by their positions: no marker themselves, and with an end
  marker between them and each begin marker above.
\<close>

definition begin_marker :: "string \<Rightarrow> bool" where
  "begin_marker line \<longleftrightarrow> str_trim line = ''# BEGIN MXC managed mounts (rewritten every run)''"

definition end_marker :: "string \<Rightarrow> bool" where
  "end_marker line \<longleftrightarrow> str_trim line = ''# END MXC managed mounts''"

definition outside :: "string list \<Rightarrow> nat \<Rightarrow> bool" where
  "outside ls i \<longleftrightarrow> \<not> begin_marker (ls ! i) \<and> \<not> end_marker (ls ! i) \<and>
     (\<forall>j < i. begin_marker (ls ! j) \<longrightarrow> (\<exists>k. j < k \<and> k < i \<and> end_marker (ls ! k)))"

definition outside_lines :: "string \<Rightarrow> string list" where
  "outside_lines config = nths (lines config) {i. outside (lines config) i}"

text \<open>The lines stripping keeps.\<close>

fun kept :: "bool \<Rightarrow> string list \<Rightarrow> string list" where
  "kept inside [] = []"
| "kept inside (line # rest) =
     (if str_trim line = MANAGED_MOUNTS_BEGIN then kept True rest
      else if str_trim line = MANAGED_MOUNTS_END then kept False rest
      else if inside then kept inside rest
      else line # kept inside rest)"

lemma strip_kept: "strip_lines inside ls = as_lines (kept inside ls)"
  by (induction inside ls rule: kept.induct) (simp_all add: as_lines_def Let_def)

lemma kept_unmarked:
  "line \<in> set (kept inside ls) \<Longrightarrow> line \<in> set ls \<and> str_trim line \<noteq> MANAGED_MOUNTS_BEGIN \<and> str_trim line \<noteq> MANAGED_MOUNTS_END"
  by (induction inside ls rule: kept.induct) (auto split: if_splits)

lemma all_less_Suc0: "(\<forall>j < Suc n. P j) \<longleftrightarrow> P 0 \<and> (\<forall>j < n. P (Suc j))"
  using less_Suc_eq_0_disj by auto

lemma ex_less_Suc0: "(\<exists>j < Suc n. P j) \<longleftrightarrow> P 0 \<or> (\<exists>j < n. P (Suc j))"
  using less_Suc_eq_0_disj by auto

lemma ex_between_Suc: "(\<exists>k. i < k \<and> k < Suc n \<and> P k) \<longleftrightarrow> (\<exists>k. i < Suc k \<and> k < n \<and> P (Suc k))"
proof
  assume "\<exists>k. i < k \<and> k < Suc n \<and> P k"
  then obtain k where "i < k" "k < Suc n" "P k" by blast
  then show "\<exists>k. i < Suc k \<and> k < n \<and> P (Suc k)" by (cases k) auto
qed auto

lemma kept_outside:
  "kept inside ls = nths ls {i. outside ls i \<and> (inside \<longrightarrow> (\<exists>k < i. end_marker (ls ! k)))}"
proof (induction inside ls rule: kept.induct)
  case (2 inside line rest)
  let ?in = "if begin_marker line then True else if end_marker line then False else inside"
  have "(outside (line # rest) (Suc i) \<and> (inside \<longrightarrow> (\<exists>k < Suc i. end_marker ((line # rest) ! k)))) \<longleftrightarrow>
      outside rest i \<and> (?in \<longrightarrow> (\<exists>k < i. end_marker (rest ! k)))" for i
    unfolding outside_def all_less_Suc0 ex_between_Suc ex_less_Suc0
    by (auto simp: begin_marker_def end_marker_def)
  then have "{j. Suc j \<in> {i. outside (line # rest) i \<and> (inside \<longrightarrow> (\<exists>k < i. end_marker ((line # rest) ! k)))}} =
      {i. outside rest i \<and> (?in \<longrightarrow> (\<exists>k < i. end_marker (rest ! k)))}" by simp
  then show ?case
    using 2 by (auto simp: nths_Cons outside_def begin_marker_def end_marker_def MANAGED_MOUNTS_BEGIN_def MANAGED_MOUNTS_END_def)
qed simp

lemma kept_outside_lines: "kept False (lines config) = outside_lines config"
  by (simp add: kept_outside outside_lines_def)

lemma kept_append_unmarked:
  "list_all (\<lambda>l. str_trim l \<noteq> MANAGED_MOUNTS_BEGIN \<and> str_trim l \<noteq> MANAGED_MOUNTS_END) ls \<Longrightarrow>
   kept inside (ls @ rest) = (if inside then [] else ls) @ kept inside rest"
  by (induction ls) auto

lemma trim_rev_suffix: "\<exists>t. r = t @ trim_start_rev r"
proof (induction r rule: trim_start_rev.induct)
  case (1 r)
  show ?case
  proof (cases "ws_len_rev r = 0")
    case True
    then show ?thesis by (subst trim_start_rev.simps) simp
  next
    case False
    then obtain t where "drop (ws_len_rev r) r = t @ trim_start_rev (drop (ws_len_rev r) r)" using 1 by blast
    then have "r = (take (ws_len_rev r) r @ t) @ trim_start_rev (drop (ws_len_rev r) r)" by (metis append_assoc append_take_drop_id)
    moreover have "trim_start_rev r = trim_start_rev (drop (ws_len_rev r) r)"
      using False by (subst trim_start_rev.simps) simp
    ultimately show ?thesis by metis
  qed
qed

lemma trim_end_prefix: "\<exists>t. s = trim_end s @ t"
  using trim_rev_suffix [of "rev s"] unfolding trim_end_def by (metis rev_append rev_rev_ident)

definition entry_line :: "string \<Rightarrow> string" where
  "entry_line e = ''lxc.mount.entry = '' @ e"

lemma entry_line_unmarked:
  "str_trim (entry_line e) \<noteq> MANAGED_MOUNTS_BEGIN \<and> str_trim (entry_line e) \<noteq> MANAGED_MOUNTS_END"
proof -
  have "ws_len (''lxc.mount.entry = '' @ e) = 0" by (simp add: ws_len_def)
  then have "trim_start (''lxc.mount.entry = '' @ e) = ''lxc.mount.entry = '' @ e" by (subst trim_start.simps) simp
  then obtain t where t: "''lxc.mount.entry = '' @ e = str_trim (''lxc.mount.entry = '' @ e) @ t"
    using trim_end_prefix [of "''lxc.mount.entry = '' @ e"] by (auto simp: str_trim_def)
  show ?thesis unfolding entry_line_def
  proof (intro conjI notI)
    assume m: "str_trim (''lxc.mount.entry = '' @ e) = MANAGED_MOUNTS_BEGIN"
    from t [unfolded m] show False by (simp add: MANAGED_MOUNTS_BEGIN_def)
  next
    assume m: "str_trim (''lxc.mount.entry = '' @ e) = MANAGED_MOUNTS_END"
    from t [unfolded m] show False by (simp add: MANAGED_MOUNTS_END_def)
  qed
qed

lemma markers_trimmed: "str_trim MANAGED_MOUNTS_BEGIN = MANAGED_MOUNTS_BEGIN" "str_trim MANAGED_MOUNTS_END = MANAGED_MOUNTS_END"
  by code_simp+

lemma markers_distinct: "MANAGED_MOUNTS_END \<noteq> MANAGED_MOUNTS_BEGIN"
  by (simp add: MANAGED_MOUNTS_BEGIN_def MANAGED_MOUNTS_END_def)

definition block_lines :: "string list \<Rightarrow> string list" where
  "block_lines entries =
     (if entries = [] then [] else [MANAGED_MOUNTS_BEGIN] @ map entry_line entries @ [MANAGED_MOUNTS_END])"

lemma as_lines_end: "as_lines ls = [] \<or> last (as_lines ls) = CHR 0x0A"
  by (cases ls rule: rev_cases) (simp_all add: as_lines_def)

lemma rewritten_lines: "rewritten_config existing entries = as_lines (kept False (lines existing) @ block_lines entries)"
  using as_lines_end [of "kept False (lines existing)"]
  by (auto simp: rewritten_config_def strip_managed_mount_entries_def strip_kept Let_def block_lines_def managed_block_def as_lines_def
      entry_line_def comp_def)

lemma block_one_line: "list_all one_line entries \<Longrightarrow> list_all one_line (block_lines entries)"
  by (auto simp: block_lines_def list_all_iff one_line_def entry_line_def MANAGED_MOUNTS_BEGIN_def MANAGED_MOUNTS_END_def)

lemma lines_rewritten:
  assumes "CHR 0x0D \<notin> set existing" and "list_all one_line entries"
  shows "lines (rewritten_config existing entries) = kept False (lines existing) @ block_lines entries"
proof -
  have "list_all one_line (kept False (lines existing))"
    using lines_one_line [OF assms(1)] kept_unmarked by (auto simp: list_all_iff)
  then show ?thesis unfolding rewritten_lines using block_one_line [OF assms(2)] by (intro lines_as_lines) simp
qed

lemma kept_kept: "kept False (kept False ls @ block_lines entries) = kept False ls"
proof -
  have "list_all (\<lambda>l. str_trim l \<noteq> MANAGED_MOUNTS_BEGIN \<and> str_trim l \<noteq> MANAGED_MOUNTS_END) (kept False ls)"
    using kept_unmarked by (auto simp: list_all_iff)
  note first = kept_append_unmarked [OF this, of False "block_lines entries"]
  have "list_all (\<lambda>l. str_trim l \<noteq> MANAGED_MOUNTS_BEGIN \<and> str_trim l \<noteq> MANAGED_MOUNTS_END)
      (map entry_line entries)"
    using entry_line_unmarked by (simp add: list_all_iff)
  note block = kept_append_unmarked [OF this, of True "[MANAGED_MOUNTS_END]"]
  have "kept False (block_lines entries) = []"
    unfolding block_lines_def using block by (simp add: markers_trimmed markers_distinct)
  then show ?thesis using first by simp
qed

lemma outside_rewritten:
  assumes "CHR 0x0D \<notin> set existing" and "list_all one_line entries"
  shows "outside_lines (rewritten_config existing entries) = outside_lines existing"
  by (simp add: kept_outside_lines [symmetric] lines_rewritten [OF assms] kept_kept)

lemma strip_rewritten:
  assumes "CHR 0x0D \<notin> set existing" and "list_all one_line entries"
  shows "strip_managed_mount_entries (rewritten_config existing entries) = strip_managed_mount_entries existing"
  by (simp add: strip_managed_mount_entries_def strip_kept lines_rewritten [OF assms] kept_kept)

lemma rewrite_again:
  assumes "CHR 0x0D \<notin> set existing" and "list_all one_line entries"
  shows "rewritten_config (rewritten_config existing entries) entries' = rewritten_config existing entries'"
  by (simp add: rewritten_config_def [of _ entries'] strip_rewritten [OF assms])

section \<open>Entries are read as written\<close>

lemma ws_len_blank: "x \<noteq> [] \<Longrightarrow> ws_len (x @ CHR '' '' # rest) \<noteq> 0 \<Longrightarrow> ws_len x \<noteq> 0"
  by (cases x; cases "tl x"; cases "tl (tl x)") (auto simp: ws_len_def split: if_splits list.splits)

lemma split_ws_word:
  "\<not> has_whitespace w \<Longrightarrow> cur @ w \<noteq> [] \<Longrightarrow> split_ws cur (w @ CHR '' '' # rest) = (cur @ w) # split_ws [] rest"
proof (induction w arbitrary: cur)
  case Nil
  then show ?case by (subst split_ws.simps) (simp add: ws_len_def)
next
  case (Cons c w)
  have "ws_len ((c # w) @ CHR '' '' # rest) = 0" using Cons.prems(1) ws_len_blank [of "c # w" rest] by auto
  then have "split_ws cur ((c # w) @ CHR '' '' # rest) = split_ws (cur @ [c]) (w @ CHR '' '' # rest)"
    by (subst split_ws.simps) simp
  then show ?case using Cons.IH [of "cur @ [c]"] Cons.prems by simp
qed

lemma split_ws_blank: "split_ws [] (CHR '' '' # rest) = split_ws [] rest"
  by (subst split_ws.simps) (simp add: ws_len_def)

lemma mnt_unescape_plain: "CHR 0x5C \<notin> set s \<Longrightarrow> mnt_unescape s = s"
  by (induction s) auto

definition mount_word :: "string \<Rightarrow> bool" where
  "mount_word w \<longleftrightarrow> w \<noteq> [] \<and> \<not> has_whitespace w \<and> CHR 0x5C \<notin> set w"

definition known_shape :: "MountShape \<Rightarrow> bool" where
  "known_shape shape \<longleftrightarrow> shape \<in> {MOUNT_READWRITE, MOUNT_READONLY, MASK_FILE, MASK_DIR_HOLDING_MOUNTPOINTS, MASK_DIR}"

lemma shape_words: "known_shape shape \<Longrightarrow> mount_word (ms_filesystem shape) \<and> mount_word (ms_options shape)"
  unfolding known_shape_def mount_word_def
  by (auto simp: MOUNT_READWRITE_def MOUNT_READONLY_def MASK_FILE_def MASK_DIR_HOLDING_MOUNTPOINTS_def MASK_DIR_def ws_len_def)

lemma split_zeros: "split_ws [] ''0 0'' = [''0'', ''0'']"
  by code_simp

lemma read_entry_shape:
  assumes "mount_word source" and "mount_word target" and "known_shape shape"
  shows "read_entry (CHR '' '' # MountShape_entry shape source target) =
    Some \<lparr>ml_source = source, ml_target = target, ml_type = ms_filesystem shape, ml_options = ms_options shape\<rparr>"
proof -
  have "split_whitespace (CHR '' '' # MountShape_entry shape source target) =
      [source, target, ms_filesystem shape, ms_options shape, ''0'', ''0'']"
    using assms(1,2) shape_words [OF assms(3)]
      split_ws_word [of source "[]"] split_ws_word [of target "[]"] split_ws_word [of "ms_filesystem shape" "[]"]
      split_ws_word [of "ms_options shape" "[]"] split_zeros
    by (simp add: split_whitespace_def MountShape_entry_def mount_word_def split_ws_blank)
  then show ?thesis using assms(1,2) shape_words [OF assms(3)] by (simp add: read_entry_def mount_word_def mnt_unescape_plain)
qed

lemma config_mount_line: "config_mount (entry_line e) = Some (read_entry (CHR '' '' # e))"
proof -
  have "str_trim ''lxc.mount.entry '' = ''lxc.mount.entry''" by code_simp
  then show ?thesis by (simp add: config_mount_def entry_line_def)
qed

lemma config_mount_marker: "config_mount MANAGED_MOUNTS_BEGIN = None" "config_mount MANAGED_MOUNTS_END = None"
  by code_simp+

lemma config_mounts_rewritten:
  assumes "CHR 0x0D \<notin> set existing" and "list_all one_line entries"
  shows "config_mounts (rewritten_config existing entries) =
    List.map_filter config_mount (outside_lines existing) @ map (\<lambda>e. read_entry (CHR '' '' # e)) entries"
proof -
  have block: "List.map_filter config_mount (block_lines entries) = map (\<lambda>e. read_entry (CHR '' '' # e)) entries"
    by (auto simp: block_lines_def List.map_filter_def config_mount_marker config_mount_line comp_def)
  show ?thesis
    unfolding config_mounts_def lines_rewritten [OF assms]
    by (simp add: kept_outside_lines block [symmetric] List.map_filter_def)
qed

section \<open>Paths as targets\<close>

lemma parts_slash: "filter (\<lambda>p. p \<noteq> []) (split_char (CHR ''/'') (trim_start_slashes s)) = filter (\<lambda>p. p \<noteq> []) (split_char (CHR ''/'') s)"
  by (induction s) (simp_all add: trim_start_slashes_def)

lemma target_components: "has_root p \<Longrightarrow> path_components (CHR ''/'' # trim_start_slashes p) = path_components p"
  by (simp add: path_components_def has_root_def parts_slash Let_def)

lemma whitespace_trim: "\<not> has_whitespace s \<Longrightarrow> \<not> has_whitespace (trim_start_slashes s)"
  by (induction s) (auto simp: trim_start_slashes_def)

lemma no_whitespace_one_line: "\<not> has_whitespace s \<Longrightarrow> one_line s"
  by (induction s) (auto simp: one_line_def ws_len_def)

text \<open>A path whose entry can be read back: absolute, not the root, without a backslash.\<close>

definition lxc_path :: "string \<Rightarrow> bool" where
  "lxc_path p \<longleftrightarrow> has_root p \<and> trim_start_slashes p \<noteq> [] \<and> CHR 0x5C \<notin> set p"

text \<open>What a mount shows at its target: the path itself, writable or not, or nothing of the host.\<close>

definition shows_intent :: "FsIntent \<Rightarrow> string \<Rightarrow> mount_line \<Rightarrow> bool" where
  "shows_intent i p ml \<longleftrightarrow>
     ml_target ml = trim_start_slashes p \<and>
     (case i of
        ReadWrite \<Rightarrow> ml_source ml = p \<and> ml_type ml = ''none'' \<and> ml_options ml = ''bind,create=dir''
      | ReadOnly \<Rightarrow> ml_source ml = p \<and> ml_type ml = ''none'' \<and> ml_options ml = ''bind,ro,create=dir''
      | Denied \<Rightarrow> ml_type ml = ''tmpfs'' \<or>
          ml_source ml = ''/dev/null'' \<and> ml_type ml = ''none'' \<and> ml_options ml = ''bind,ro,create=file'')"

lemma mount_word_path: "lxc_path p \<Longrightarrow> Lxc_validate_path p = Ok () \<Longrightarrow> mount_word p \<and> mount_word (trim_start_slashes p)"
  using whitespace_trim [of p]
  by (auto simp: lxc_path_def mount_word_def Lxc_validate_path_def trim_start_slashes_def split: if_splits dest: set_dropWhileD)

lemma shape_one_line:
  "mount_word source \<Longrightarrow> mount_word target \<Longrightarrow> known_shape shape \<Longrightarrow> one_line (MountShape_entry shape source target)"
  using shape_words [of shape] no_whitespace_one_line by (auto simp: mount_word_def MountShape_entry_def one_line_def)

lemma mount_entry_reads:
  assumes "mount_entry probe rebound call m = Ok (entry, log)" and "lxc_path (rm_path m)"
    and "\<And>view real. rm_intent m = Denied \<Longrightarrow> probe call (rm_path m) = Ok view \<Longrightarrow>
      resolve_denied_host_path view (rm_path m) = Ok real \<Longrightarrow> real = rm_path m"
  shows "one_line entry \<and> (\<exists>ml. read_entry (CHR '' '' # entry) = Some ml \<and> shows_intent (rm_intent m) (rm_path m) ml)"
proof -
  let ?p = "rm_path m" and ?t = "trim_start_slashes (rm_path m)"
  have valid: "Lxc_validate_path ?p = Ok ()" using assms(1) by (auto simp: mount_entry_def Let_def result_simps)
  note words = mount_word_path [OF assms(2) valid]
  have "\<exists>shape source. entry = MountShape_entry shape source ?t \<and> known_shape shape \<and> mount_word source \<and>
      shows_intent (rm_intent m) ?p \<lparr>ml_source = source, ml_target = ?t, ml_type = ms_filesystem shape, ml_options = ms_options shape\<rparr>"
  proof (cases "rm_intent m")
    case ReadWrite
    then show ?thesis using assms(1) valid words
      by (intro exI [of _ MOUNT_READWRITE] exI [of _ ?p])
        (simp add: mount_entry_def Let_def known_shape_def shows_intent_def MOUNT_READWRITE_def)
  next
    case ReadOnly
    then show ?thesis using assms(1) valid words
      by (intro exI [of _ MOUNT_READONLY] exI [of _ ?p])
        (simp add: mount_entry_def Let_def known_shape_def shows_intent_def MOUNT_READONLY_def)
  next
    case Denied
    then obtain view real where view: "probe call ?p = Ok view" "resolve_denied_host_path view ?p = Ok real"
      and entry: "entry = MountShape_entry (fst (mask_shape (denied_path_is_file view real) (trim_start_slashes real) rebound))
        (snd (mask_shape (denied_path_is_file view real) (trim_start_slashes real) rebound)) (trim_start_slashes real)"
      using assms(1) valid by (auto simp: mount_entry_def Let_def result_simps case_prod_beta)
    have real: "real = ?p" using assms(3) [OF Denied view] .
    have "mount_word ''/dev/null''" "mount_word ''tmpfs''" by (simp_all add: mount_word_def ws_len_def)
    then show ?thesis using entry Denied unfolding real
      by (intro exI [of _ "fst (mask_shape (denied_path_is_file view ?p) ?t rebound)"]
          exI [of _ "snd (mask_shape (denied_path_is_file view ?p) ?t rebound)"])
        (auto simp: mask_shape_def known_shape_def shows_intent_def MASK_FILE_def MASK_DIR_def MASK_DIR_HOLDING_MOUNTPOINTS_def
          split: if_splits)
  qed
  then obtain shape source where s: "entry = MountShape_entry shape source ?t" "known_shape shape" "mount_word source"
    "shows_intent (rm_intent m) ?p \<lparr>ml_source = source, ml_target = ?t, ml_type = ms_filesystem shape, ml_options = ms_options shape\<rparr>"
    by blast
  show ?thesis using shape_one_line [OF s(3) conjunct2 [OF words] s(2)] read_entry_shape [OF s(3) conjunct2 [OF words] s(2)] s(1,4)
    by auto
qed

lemma find_related:
  assumes "list_all2 R xs ys" and "\<And>x y. R x y \<Longrightarrow> P x = Q y"
  shows "rel_option R (find P (rev xs)) (find Q (rev ys))"
proof -
  have "list_all2 R (rev xs) (rev ys)" using assms(1) by (simp add: list_all2_rev)
  then show ?thesis
  proof (induction rule: list_all2_induct)
    case (Cons x xs y ys)
    then show ?case using assms(2) [of x y] by simp
  qed simp
qed

lemma entries_read:
  assumes "try_map_from k (mount_entry probe rebound) ms = Ok entries"
    and "\<And>m. m \<in> set ms \<Longrightarrow> lxc_path (rm_path m)"
    and "\<And>j m view real. m \<in> set ms \<Longrightarrow> rm_intent m = Denied \<Longrightarrow> probe j (rm_path m) = Ok view \<Longrightarrow>
      resolve_denied_host_path view (rm_path m) = Ok real \<Longrightarrow> real = rm_path m"
  shows "list_all one_line (map fst entries) \<and>
    (\<exists>mls. map (\<lambda>e. read_entry (CHR '' '' # e)) (map fst entries) = map Some mls \<and>
       list_all2 (\<lambda>m. shows_intent (rm_intent m) (rm_path m)) ms mls)"
  using assms
proof (induction ms arbitrary: k entries)
  case Nil
  then show ?case by (auto intro: exI [of _ "[]"])
next
  case (Cons m ms)
  from Cons.prems(1) obtain e log rest where run: "mount_entry probe rebound k m = Ok (e, log)"
    "try_map_from (Suc k) (mount_entry probe rebound) ms = Ok rest" "entries = (e, log) # rest"
    by (auto simp: result_simps)
  have "one_line e \<and> (\<exists>ml. read_entry (CHR '' '' # e) = Some ml \<and> shows_intent (rm_intent m) (rm_path m) ml)"
    by (rule mount_entry_reads [OF run(1)]) (use Cons.prems in auto)
  then obtain ml where ml: "one_line e" "read_entry (CHR '' '' # e) = Some ml" "shows_intent (rm_intent m) (rm_path m) ml" by blast
  from Cons.IH [OF run(2)] Cons.prems obtain mls where
    "list_all one_line (map fst rest)" "map (\<lambda>e. read_entry (CHR '' '' # e)) (map fst rest) = map Some mls"
    "list_all2 (\<lambda>m. shows_intent (rm_intent m) (rm_path m)) ms mls" by auto
  with ml run(3) show ?case by (auto intro!: exI [of _ "ml # mls"])
qed

lemma covering_mount:
  assumes "list_all2 (\<lambda>m. shows_intent (rm_intent m) (rm_path m)) (resolve_mount_order policy) mls"
    and "entries = policy_entries (readwrite_paths policy) (readonly_paths policy) (denied_paths policy)"
    and "\<And>p i. (p, i) \<in> entries \<Longrightarrow> lxc_path p"
  shows "case find (\<lambda>ml. Path_starts_with q (''/'' @ ml_target ml)) (rev mls) of
      Some ml \<Rightarrow> \<exists>p i. deepest entries (Path_starts_with q) p i \<and> shows_intent i p ml
    | None \<Rightarrow> \<forall>(p, i) \<in> entries. \<not> Path_starts_with q p"
proof -
  let ?plan = "resolve_mount_order policy"
  let ?R = "\<lambda>m ml. m \<in> set ?plan \<and> shows_intent (rm_intent m) (rm_path m) ml"
  have related: "list_all2 ?R ?plan mls"
    using assms(1) by (auto simp: list_all2_conv_all_nth)
  have same: "Path_starts_with q (rm_path m) = Path_starts_with q (''/'' @ ml_target ml)" if "?R m ml" for m ml
  proof -
    have "(rm_path m, rm_intent m) \<in> entries"
      using plan_entries that unfolding assms(2) resolve_mount_order_def by blast
    then have "has_root (rm_path m)" using assms(3) lxc_path_def by blast
    moreover have "ml_target ml = trim_start_slashes (rm_path m)" using that by (simp add: shows_intent_def)
    ultimately show ?thesis using target_components [of "rm_path m"] by (simp add: Path_starts_with_def)
  qed
  from find_related [OF related same]
  have rel: "rel_option ?R (find (\<lambda>m. Path_starts_with q (rm_path m)) (rev ?plan))
    (find (\<lambda>ml. Path_starts_with q (''/'' @ ml_target ml)) (rev mls))" .
  show ?thesis
  proof (cases "find (\<lambda>m. Path_starts_with q (rm_path m)) (rev ?plan)")
    case None
    then have "find (\<lambda>ml. Path_starts_with q (''/'' @ ml_target ml)) (rev mls) = None" using rel by simp
    moreover have "\<forall>(p, i) \<in> entries. \<not> Path_starts_with q p"
      using None plan_none [of "Path_starts_with q"] unfolding resolve_mount_order_def assms(2) by simp
    ultimately show ?thesis by simp
  next
    case (Some m)
    then obtain ml where ml: "find (\<lambda>ml. Path_starts_with q (''/'' @ ml_target ml)) (rev mls) = Some ml" "?R m ml"
      using rel by (auto simp: option_rel_Some1)
    have "deepest entries (Path_starts_with q) (rm_path m) (rm_intent m)"
      using plan_deepest [of "Path_starts_with q"] Some by (simp add: resolve_mount_order_def assms(2))
    then show ?thesis using ml by auto
  qed
qed

text \<open>A start without a network empties every interface the configuration names, unless the successor of the highest index wraps.\<close>

lemma foldl_max_start: "i \<le> foldl max (i :: nat) is"
proof (induction "is" arbitrary: i)
  case (Cons j js)
  show ?case using Cons [of "max i j"] by simp
qed simp

lemma foldl_max: "x \<in> set is \<Longrightarrow> x \<le> foldl max (i :: nat) is"
proof (induction "is" arbitrary: i)
  case (Cons j js)
  show ?case using Cons.prems Cons.IH [of "max i j"] foldl_max_start [of "max i j" js] by auto
qed simp

lemma interfaces_emptied:
  assumes "line \<in> set (lines config)" and "interface_index line = Some i"
    and "\<And>k. highest_interface_index config = Some k \<Longrightarrow> k + 1 < 2 ^ 64"
  shows "''lxc.net.'' @ show_nat i @ ''.type=empty'' \<in> set (to_start_args NoInterface (configured_interface_count (Some config)))"
proof -
  define ks where "ks = List.map_filter interface_index (lines config)"
  have "interface_index l = Some i \<Longrightarrow> l \<in> set ls \<Longrightarrow> i \<in> set (List.map_filter interface_index ls)" for l ls
    by (induction ls) (auto simp: map_filter_simps split: option.splits)
  then have "i \<in> set ks" using assms(1,2) unfolding ks_def by simp
  moreover obtain k r where "ks = k # r" using \<open>i \<in> set ks\<close> by (cases ks) simp_all
  ultimately have "\<exists>h. highest_interface_index config = Some h \<and> i \<le> h"
    using foldl_max [of i r k] foldl_max_start [of k r] by (auto simp: highest_interface_index_def ks_def [symmetric])
  then have "i < configured_interface_count (Some config)" using assms(3) by (auto simp: configured_interface_count_def)
  then have "i < max (configured_interface_count (Some config)) 1" by simp
  then show ?thesis unfolding to_start_args_def by (simp only: StartNetwork.case set_concat set_map set_upt) (rule UN_I, rule imageI, simp, simp)
qed

section \<open>Properties\<close>

text \<open>
  C11: The configuration of an LXC container enforces the filesystem policy. For absolute paths other than
  the root without backslashes, denied paths that do not lead through symbolic links, and a
  configuration without carriage returns, the configuration that was installed holds first the mounts
  of the lines it had outside every managed block and then one well-formed mount for each entry of the
  policy. The last of these that covers a path shows it as the deepest entry of the policy asks: the
  same host path, writable or read-only, or a mask; where none covers it no entry does. All lines
  outside the blocks are kept, and what earlier runs had left in the blocks is gone.
\<close>

theorem lxc_mounts_enforce_policy:
  assumes "configure_filesystem_mounts probe io container policy = Ok (config, log)" and "ci_read io = Ok existing"
    and "CHR 0x0D \<notin> set existing"
    and "entries = policy_entries (readwrite_paths policy) (readonly_paths policy) (denied_paths policy)"
    and "\<And>p i. (p, i) \<in> entries \<Longrightarrow> lxc_path p"
    and "\<And>j p view real. (p, Denied) \<in> entries \<Longrightarrow> probe j p = Ok view \<Longrightarrow>
      resolve_denied_host_path view p = Ok real \<Longrightarrow> real = p"
  shows "\<exists>mounts. config_mounts config = List.map_filter config_mount (outside_lines existing) @ map Some mounts \<and>
    outside_lines config = outside_lines existing \<and>
    (\<forall>q. case find (\<lambda>ml. Path_starts_with q (''/'' @ ml_target ml)) (rev mounts) of
        Some ml \<Rightarrow> \<exists>p i. deepest entries (Path_starts_with q) p i \<and> shows_intent i p ml
      | None \<Rightarrow> \<forall>(p, i) \<in> entries. \<not> Path_starts_with q p)"
proof -
  let ?plan = "resolve_mount_order policy"
  from assms(1) obtain k rebound es where run: "try_map_from k (mount_entry probe rebound) ?plan = Ok es"
    "set_filesystem_access_points io container (map fst es) = Ok config"
    by (auto simp: configure_filesystem_mounts_def Let_def result_simps)
  have plan: "(rm_path m, rm_intent m) \<in> entries" if "m \<in> set ?plan" for m
    using plan_entries that unfolding assms(4) resolve_mount_order_def by blast
  have "list_all one_line (map fst es) \<and>
    (\<exists>mls. map (\<lambda>e. read_entry (CHR '' '' # e)) (map fst es) = map Some mls \<and>
       list_all2 (\<lambda>m. shows_intent (rm_intent m) (rm_path m)) ?plan mls)"
    by (rule entries_read [OF run(1)]) (use plan assms(5,6) in \<open>metis+\<close>)
  then obtain mls where mls: "list_all one_line (map fst es)" "map (\<lambda>e. read_entry (CHR '' '' # e)) (map fst es) = map Some mls"
    "list_all2 (\<lambda>m. shows_intent (rm_intent m) (rm_path m)) ?plan mls" by blast
  have config: "config = rewritten_config existing (map fst es)"
    using run(2) assms(2) by (auto simp: set_filesystem_access_points_def Let_def split: sum.splits)
  note covering_mount [OF mls(3) assms(4,5)]
  moreover have "config_mounts config = List.map_filter config_mount (outside_lines existing) @ map Some mls"
    unfolding config config_mounts_rewritten [OF assms(3) mls(1)] mls(2) ..
  moreover have "outside_lines config = outside_lines existing"
    unfolding config by (rule outside_rewritten [OF assms(3) mls(1)])
  ultimately show ?thesis by (intro exI [of _ mls] conjI allI)
qed

definition lxc_view :: fs_view where
  "lxc_view = \<lparr>fv_canonicalize = (\<lambda>cs. Some cs), fv_lstat = (\<lambda>_. None)\<rparr>"

definition lxc_example_io :: config_io where
  "lxc_example_io =
     \<lparr>ci_read = Ok (as_lines [''lxc.rootfs.path = dir:/x'', MANAGED_MOUNTS_BEGIN, ''lxc.mount.entry = /old old none bind 0 0'', MANAGED_MOUNTS_END]),
      ci_write = Ok (), ci_rename = Ok ()\<rparr>"

definition lxc_example_policy :: ContainerPolicy where
  "lxc_example_policy = ContainerPolicy_default\<lparr>readwrite_paths := [''/data''], denied_paths := [''/data/secret'']\<rparr>"

lemma lxc_example_configured:
  "\<exists>config log. configure_filesystem_mounts (\<lambda>_ _. Ok lxc_view) lxc_example_io \<lparr>lc_name = ''box'', lc_lxc_path = ''/var''\<rparr> lxc_example_policy = Ok (config, log)"
proof -
  have "case configure_filesystem_mounts (\<lambda>_ _. Ok lxc_view) lxc_example_io \<lparr>lc_name = ''box'', lc_lxc_path = ''/var''\<rparr> lxc_example_policy of
      Inr _ \<Rightarrow> True | Inl _ \<Rightarrow> False"
    unfolding lxc_example_policy_def ContainerPolicy_default_def lxc_example_io_def lxc_view_def by code_simp
  then show ?thesis by (auto split: sum.splits)
qed

theorem lxc_mounts_enforce_policy_witness:
  "\<exists>config log mounts ml.
     configure_filesystem_mounts (\<lambda>_ _. Ok lxc_view) lxc_example_io \<lparr>lc_name = ''box'', lc_lxc_path = ''/var''\<rparr> lxc_example_policy = Ok (config, log) \<and>
     config_mounts config = map Some mounts \<and>
     find (\<lambda>ml. Path_starts_with ''/data/secret/key'' (''/'' @ ml_target ml)) (rev mounts) = Some ml \<and>
     shows_intent Denied ''/data/secret'' ml"
proof -
  let ?q = "''/data/secret/key''" and ?probe = "\<lambda>(_ :: nat) (_ :: string). (Ok lxc_view :: string + fs_view)"
  let ?existing = "as_lines [''lxc.rootfs.path = dir:/x'', MANAGED_MOUNTS_BEGIN, ''lxc.mount.entry = /old old none bind 0 0'', MANAGED_MOUNTS_END]"
  define entries where "entries = policy_entries (readwrite_paths lxc_example_policy) (readonly_paths lxc_example_policy) (denied_paths lxc_example_policy)"
  have es: "entries = {(''/data'', ReadWrite), (''/data/secret'', Denied)}"
    by (auto simp: entries_def policy_entries_def lxc_example_policy_def ContainerPolicy_default_def)
  obtain config log where run: "configure_filesystem_mounts ?probe lxc_example_io \<lparr>lc_name = ''box'', lc_lxc_path = ''/var''\<rparr> lxc_example_policy = Ok (config, log)"
    using lxc_example_configured by blast
  have paths: "lxc_path p" if "(p, i) \<in> entries" for p i
  proof -
    have "lxc_path ''/data''" "lxc_path ''/data/secret''" by code_simp+
    then show ?thesis using that unfolding es by (elim insertE) simp_all
  qed
  have "resolve_denied_host_path lxc_view ''/data/secret'' = Ok ''/data/secret''" unfolding lxc_view_def by code_simp
  then have real: "real = p" if "(p, Denied) \<in> entries" "?probe j p = Ok view" "resolve_denied_host_path view p = Ok real" for j p view real
    using that unfolding es by (elim insertE) simp_all
  have existing: "ci_read lxc_example_io = Ok ?existing" by (simp add: lxc_example_io_def)
  have carriage: "CHR 0x0D \<notin> set ?existing" by code_simp
  obtain mounts where m: "config_mounts config = List.map_filter config_mount (outside_lines ?existing) @ map Some mounts"
    and d: "\<forall>q. case find (\<lambda>ml. Path_starts_with q (''/'' @ ml_target ml)) (rev mounts) of
        Some ml \<Rightarrow> \<exists>p i. deepest entries (Path_starts_with q) p i \<and> shows_intent i p ml
      | None \<Rightarrow> \<forall>(p, i) \<in> entries. \<not> Path_starts_with q p"
  proof (rule exE [OF lxc_mounts_enforce_policy [OF run existing carriage entries_def]])
    show "lxc_path p" if "(p, i) \<in> entries" for p i
      using that by (rule paths)
    show "real = p" if "(p, Denied) \<in> entries" "?probe j p = Ok view" "resolve_denied_host_path view p = Ok real" for j p view real
      using that by (rule real)
  qed (elim conjE, rule that, assumption+)
  have old: "List.map_filter config_mount (outside_lines ?existing) = []"
    unfolding kept_outside_lines [symmetric] by code_simp
  have at: "Path_starts_with ?q ''/data''" "Path_starts_with ?q ''/data/secret''"
      "PathKey_depth (PathKey_from_path ''/data'') = 1" "PathKey_depth (PathKey_from_path ''/data/secret'') = 2"
    by code_simp+
  have deep: "p = ''/data/secret'' \<and> i = Denied" if "deepest entries (Path_starts_with ?q) p i" for p i
    using that at unfolding deepest_def es by (elim conjE insertE) simp_all
  have some: "\<not> (\<forall>(p, i) \<in> entries. \<not> Path_starts_with ?q p)" using at(1) unfolding es by simp
  have cases: "case r of Some ml \<Rightarrow> P ml | None \<Rightarrow> Q \<Longrightarrow> \<not> Q \<Longrightarrow> \<exists>ml. r = Some ml \<and> P ml" for r :: "mount_line option" and P Q
    by (cases r) simp_all
  obtain ml p i where ml: "find (\<lambda>ml. Path_starts_with ?q (''/'' @ ml_target ml)) (rev mounts) = Some ml"
    "deepest entries (Path_starts_with ?q) p i" "shows_intent i p ml"
    using cases [OF spec [OF d, of ?q] some] by (elim exE conjE)
  show ?thesis
  proof (intro exI conjI)
    show "config_mounts config = map Some mounts" using m old by simp
    show "shows_intent Denied ''/data/secret'' ml" using ml(3) deep [OF ml(2)] by simp
  qed (rule run, rule ml(1))
qed

end
