(* ===== verification/Spec2Isabelle.thy ===== *)
theory Spec2Isabelle
  imports Net_Parser Bwrap_Rules Lxc_Manager Lxc_Inbound Lxc_Bounded Seccomp Correlation_Vector Bwrap_Links Fs_Object Seatbelt_Rules
    Cmdline Wslc_Policy Lxc_Mounts
begin

text \<open>
  Verification of the policy core of MXC.
\<close>

section \<open>Aliases of denied objects under Bubblewrap\<close>

lemma denied_entry_access:
  assumes "documented_arity arity" and "list_all resolver_op rops" and "list_all plain_path (policy_paths (req_policy request))"
    and "(q, Denied) \<in> policy_entry_set (req_policy request)"
  shows "\<exists>ops.
    read_options arity (build_args_classified_with_mode request proxy denied_files mode fd links (args_of rops)
      (policy_mounts (req_policy request)) private_tmp (\<lambda>args. glp_args (plan_grant_links args grants))) =
      Some (ops, [''sh'', ''-c'', script_code request]) \<and>
    access_at ops q \<in> {Some Sealed, Some (Readable ''/dev/null'')}"
proof -
  let ?policy = "req_policy request"
  have refl: "Path_starts_with q q" by (simp add: Path_starts_with_def is_prefix_def)
  have le: "length (path_components p) \<le> length (path_components q)" if "Path_starts_with q p" for p
    using arg_cong [OF that [unfolded Path_starts_with_def is_prefix_def], of length] by simp
  from policy_enforced [OF assms(1-3), of proxy denied_files mode fd links private_tmp grants q]
  obtain ops where ops: "read_options arity (build_args_classified_with_mode request proxy denied_files mode fd links (args_of rops)
      (policy_mounts ?policy) private_tmp (\<lambda>args. glp_args (plan_grant_links args grants))) =
      Some (ops, [''sh'', ''-c'', script_code request])"
    and access: "case path_intent ?policy q of
       Some i \<Rightarrow> \<exists>p. most_specific ?policy q p i \<and> access_at ops q = Some (granted denied_files p i)
     | None \<Rightarrow> list_all (\<lambda>p. \<not> Path_starts_with q p) (policy_paths ?policy) \<and>
         (\<forall>s. access_at ops q \<noteq> Some (Writable s))"
    by (elim exE conjE)
  have mem: "q \<in> set (policy_paths ?policy)" using assms(4) entry_path by (auto simp: policy_entry_set_def)
  obtain i p where i: "most_specific ?policy q p i" "access_at ops q = Some (granted denied_files p i)"
    using access mem refl by (cases "path_intent ?policy q") (auto simp: list_all_iff)
  have "Denied \<le> i"
    using i(1) assms(4) refl le [of p] unfolding most_specific_def Let_def policy_entry_set_def by (auto dest!: bspec)
  then have "i = Denied" by (cases i) (simp_all add: less_eq_FsIntent_def)
  then show ?thesis using ops i(2) by (auto simp: granted_def)
qed

lemma entry_set_paths: "fst ` policy_entry_set policy = set (policy_paths policy)"
  unfolding policy_entry_list_set [symmetric]
  by (simp add: policy_entry_list_def policy_paths_def image_Un image_image)

text \<open>
  C5: No name of a denied object is left open. When normalisation accepts a policy, and one of its entries
  denies a filesystem object that another entry names differently, the arguments built from the policy
  the runner goes on with leave at that other name an empty read-only filesystem or \<open>/dev/null\<close>, whatever
  intent the entry was declared with.
\<close>

theorem denied_object_masked:
  assumes "normalize_object_conflicts_with walk (req_policy request) log identify = (Ok result, log')"
    and "\<And>gs. mset (walk gs) = mset gs" and "es = policy_entry_list (req_policy request)"
    and "i < length es" and "j < length es" and "object_of identify es i = Some oid" and "object_of identify es j = Some oid"
    and "snd (es ! j) = Denied"
    and "request' = request\<lparr>req_policy := (case result of None \<Rightarrow> req_policy request | Some p \<Rightarrow> p)\<rparr>"
    and "documented_arity arity" and "list_all resolver_op rops" and "list_all plain_path (policy_paths (req_policy request))"
  shows "\<exists>ops.
    read_options arity (build_args_classified_with_mode request' proxy denied_files mode fd links (args_of rops)
      (policy_mounts (req_policy request')) private_tmp (\<lambda>args. glp_args (plan_grant_links args grants))) =
      Some (ops, [''sh'', ''-c'', script_code request']) \<and>
    access_at ops (fst (es ! i)) \<in> {Some Sealed, Some (Readable ''/dev/null'')}"
proof -
  have "req_policy request' = (case result of None \<Rightarrow> req_policy request | Some p \<Rightarrow> p)" unfolding assms(9) by simp
  note conjunct1 [OF tightened_policy [OF assms(1,2) this assms(3)]]
  then have entries: "policy_entry_set (req_policy request') = (\<lambda>i. (fst (es ! i), strictest identify es i)) ` {..<length es}"
    .
  have "j \<in> same_object identify es i" using assms(5-7) by (simp add: same_object_def)
  then have "Denied \<le> strictest identify es i"
    unfolding strictest_def assms(8) [symmetric] by (intro Max_ge) simp_all
  then have "strictest identify es i = Denied" by (cases "strictest identify es i") (simp_all add: less_eq_FsIntent_def)
  then have "(fst (es ! i), Denied) \<in> policy_entry_set (req_policy request')"
    unfolding entries using assms(4) by (intro image_eqI [of _ _ i]) simp_all
  note mem = this
  have plain: "list_all plain_path (policy_paths (req_policy request'))"
  proof -
    have "fst ` policy_entry_set (req_policy request') \<subseteq> fst ` set es" unfolding entries by auto
    then have "set (policy_paths (req_policy request')) \<subseteq> set (policy_paths (req_policy request))"
      unfolding assms(3) policy_entry_list_set entry_set_paths .
    then show ?thesis using assms(12) by (auto simp: list_all_iff)
  qed
  show ?thesis by (rule denied_entry_access [OF assms(10,11) plain mem])
qed

theorem denied_object_masked_witness:
  "\<exists>ops. read_options (map_of BWRAP_ARITIES) (build_args_classified_with_mode
      (example_request\<lparr>req_policy := ContainerPolicy_default\<lparr>readwrite_paths := [''/data''], denied_paths := [''/srv/a'', ''/srv/b'']\<rparr>\<rparr>)
      None {} Isolated None [] (args_of [])
      (policy_mounts (ContainerPolicy_default\<lparr>readwrite_paths := [''/data''], denied_paths := [''/srv/a'', ''/srv/b'']\<rparr>)) True
      (\<lambda>args. glp_args (plan_grant_links args []))) = Some (ops, [''sh'', ''-c'', ''--bind'']) \<and>
    access_at ops ''/srv/a'' \<in> {Some Sealed, Some (Readable ''/dev/null'')}"
proof -
  let ?policy = "ContainerPolicy_default\<lparr>readwrite_paths := [''/srv/a'', ''/data''], denied_paths := [''/srv/b'']\<rparr>"
  let ?resolve = "\<lambda>(i :: nat) path. (Inr (resolve_object example_inodes path) :: string + PathResolution)"
  let ?es = "[(''/srv/a'', ReadWrite), (''/data'', ReadWrite), (''/srv/b'', Denied)]"
  obtain log where "normalize_object_conflicts_with rev ?policy [] ?resolve =
      (Ok (Some (ContainerPolicy_default\<lparr>readwrite_paths := [''/data''], denied_paths := [''/srv/a'', ''/srv/b'']\<rparr>)), log)"
    using example_normalized ..
  then have norm: "normalize_object_conflicts_with rev (req_policy (example_request\<lparr>req_policy := ?policy\<rparr>)) [] ?resolve =
      (Ok (Some (ContainerPolicy_default\<lparr>readwrite_paths := [''/data''], denied_paths := [''/srv/a'', ''/srv/b'']\<rparr>)), log)"
    by simp
  have es: "?es = policy_entry_list (req_policy (example_request\<lparr>req_policy := ?policy\<rparr>))"
    by (simp add: policy_entry_list_def ContainerPolicy_default_def)
  have obj: "object_of ?resolve ?es 0 = Some \<lparr>oi_dev = 1, oi_ino = 7\<rparr>" "object_of ?resolve ?es 2 = Some \<lparr>oi_dev = 1, oi_ino = 7\<rparr>"
    by (simp_all add: object_of_def resolve_object_def example_inodes_def)
  have plain: "list_all plain_path (policy_paths (req_policy (example_request\<lparr>req_policy := ?policy\<rparr>)))"
    unfolding ContainerPolicy_default_def policy_paths_def plain_path_def example_request_def by code_simp
  have mset: "mset (rev gs) = mset gs" for gs :: "nat list list" by simp
  have ops: "list_all resolver_op []" by simp
  have "script_code example_request = ''--bind''" by (simp add: example_request_def)
  then show ?thesis
    using denied_object_masked [OF norm mset es _ _ obj _ refl documented_map_of ops plain, of None "{}" Isolated None "[]" True "[]"]
    by simp
qed

end
